(* ===== verification/Prelude.thy ===== *)
theory Prelude
  imports Main "HOL-Library.Word" "HOL-Library.Sublist"
begin

text \<open>
  Shared vocabulary of the development: the machine integers of the i686 build
  (\<open>unsigned int\<close>, \<open>unsigned long\<close>, \<open>size_t\<close> and the bit pattern of \<open>time_t\<close>
  are all 32 bits wide there), the ways a C++ call can end other than by returning, and the
  lemmas on words, lists and sums that the component theories use.
\<close>

section \<open>Machine integers\<close>

text \<open>The i686 data model: \<open>int\<close>, \<open>long\<close>, \<open>size_t\<close> and \<open>time_t\<close> have 32 bits.\<close>

type_synonym uint = "32 word"
type_synonym ulong = "32 word"
type_synonym u64 = "64 word"

section \<open>Calls that do not return\<close>

text \<open>
  \<open>OutOfRange\<close> and \<open>InvalidArgument\<close> are the standard exceptions that
  \<open>string::substr\<close> and \<open>stoul\<close> throw; uncaught, they end the process.
  \<open>SingularIterator\<close> is the use of a default-constructed iterator, \<open>NullPointer\<close> a
  dereferenced null pointer: undefined behaviour. \<open>AssertFailed\<close> is a failed \<open>assert\<close>, which
  ends the process, \<open>BufferOverflow\<close> a write behind the end of a block of memory.
  \<open>OutOfFuel\<close> marks a loop cut off by the
  fuel of the model; the component theories show that it never occurs.
\<close>

datatype cpp_fault = OutOfRange | InvalidArgument | SingularIterator | NullPointer | AssertFailed | BufferOverflow
  | OutOfFuel

type_synonym 'a result = "cpp_fault + 'a"

definition rbind :: "'a result \<Rightarrow> ('a \<Rightarrow> 'b result) \<Rightarrow> 'b result" where
  "rbind m f = (case m of Inl e \<Rightarrow> Inl e | Inr a \<Rightarrow> f a)"

section \<open>Collections of facts\<close>

named_theorems word32 \<open>reading 32-bit arithmetic on lengths as arithmetic on \<open>nat\<close>\<close>

lemma rbind_Inl [simp]: "rbind (Inl e) f = Inl e"
  by (simp add: rbind_def)

lemma rbind_Inr [simp]: "rbind (Inr a) f = f a"
  by (simp add: rbind_def)

lemma rbind_eq_Inr: "rbind m f = Inr b \<longleftrightarrow> (\<exists>a. m = Inr a \<and> f a = Inr b)"
  by (cases m) auto

lemma rbind_eq_Inl: "rbind m f = Inl e \<longleftrightarrow> m = Inl e \<or> (\<exists>a. m = Inr a \<and> f a = Inl e)"
  by (cases m) auto

section \<open>Words that come from lengths\<close>

lemma unat_of_nat32 [word32]: "n < 2 ^ 32 \<Longrightarrow> unat (of_nat n :: 32 word) = n"
  by (simp add: unat_of_nat)

lemma of_nat_less32 [word32]:
  "m < 2 ^ 32 \<Longrightarrow> n < 2 ^ 32 \<Longrightarrow> (of_nat m :: 32 word) < of_nat n \<longleftrightarrow> m < n"
  by (simp add: word_less_nat_alt unat_of_nat)

lemma of_nat_le32 [word32]:
  "m < 2 ^ 32 \<Longrightarrow> n < 2 ^ 32 \<Longrightarrow> (of_nat m :: 32 word) \<le> of_nat n \<longleftrightarrow> m \<le> n"
  by (simp add: word_le_nat_alt unat_of_nat)

lemma of_nat_eq32 [word32]:
  "m < 2 ^ 32 \<Longrightarrow> n < 2 ^ 32 \<Longrightarrow> (of_nat m :: 32 word) = of_nat n \<longleftrightarrow> m = n"
  by (metis unat_of_nat32)

lemma of_nat_diff32 [word32]:
  "n \<le> m \<Longrightarrow> (of_nat m :: 32 word) - of_nat n = of_nat (m - n)"
  by simp

lemma unat_add32: "unat (a :: 32 word) + unat b < 2 ^ 32 \<Longrightarrow> unat (a + b) = unat a + unat b"
  by (simp add: unat_word_ariths)

lemma unat_sub32: "(b :: 32 word) \<le> a \<Longrightarrow> unat (a - b) = unat a - unat b"
  by (rule unat_sub)

lemma unat_lt32: "unat (a :: 32 word) < 2 ^ 32"
  using unsigned_less [of a] by simp

lemma not_minus_one32 [word32]: "n < 2 ^ 32 - 1 \<Longrightarrow> (of_nat n :: 32 word) \<noteq> - 1"
proof
  assume n: "n < 2 ^ 32 - 1" and eq: "(of_nat n :: 32 word) = - 1"
  have "unat (of_nat n :: 32 word) = 2 ^ 32 - 1"
    unfolding eq by (simp add: unsigned_minus_1_eq_mask mask_eq_exp_minus_1)
  with n show False by (simp add: unat_of_nat)
qed

lemma less_minus_one32 [word32]: "n < 2 ^ 32 - 1 \<Longrightarrow> (of_nat n :: 32 word) < - 1"
  using not_minus_one32 by (simp add: word_order.not_eq_extremum)

end
