(* ===== verification/CppString.thy ===== *)
theory CppString
  imports Prelude
begin

text \<open>
  The operations of \<open>std::string\<close> the server calls: \<open>find\<close>, \<open>substr\<close>, \<open>stoul\<close> and
  \<open>to_string\<close>, on byte strings, with positions of type \<open>size_t\<close> and \<open>npos\<close> the largest
  of them. \<open>substr\<close> throws when its position lies behind the end; \<open>stoul\<close> throws
  \<open>invalid_argument\<close> when there is no digit and \<open>out_of_range\<close> when the number does not
  fit an \<open>unsigned long\<close>.
\<close>

section \<open>Searching and slicing\<close>

definition npos :: ulong where
  "npos = - 1"

fun find_at :: "string \<Rightarrow> string \<Rightarrow> nat \<Rightarrow> nat option" where
  "find_at pat [] k = (if pat = [] then Some k else None)"
| "find_at pat (c # s) k = (if prefix pat (c # s) then Some k else find_at pat s (Suc k))"

definition str_find :: "string \<Rightarrow> string \<Rightarrow> ulong \<Rightarrow> ulong" where
  "str_find s pat pos =
     (if length s < unat pos then npos
      else case find_at pat (drop (unat pos) s) (unat pos) of None \<Rightarrow> npos | Some i \<Rightarrow> of_nat i)"

definition substr :: "string \<Rightarrow> ulong \<Rightarrow> ulong \<Rightarrow> string result" where
  "substr s pos n =
     (if length s < unat pos then Inl OutOfRange else Inr (take (unat n) (drop (unat pos) s)))"

definition str_size :: "string \<Rightarrow> ulong" where
  "str_size s = of_nat (length s)"

definition crlf :: string where
  "crlf = [CHR 0x0D, CHR 0x0A]"

section \<open>Numbers\<close>

definition is_space :: "char \<Rightarrow> bool" where
  "is_space c \<longleftrightarrow> c \<in> {CHR 0x20, CHR 0x09, CHR 0x0A, CHR 0x0B, CHR 0x0C, CHR 0x0D}"

definition is_digit :: "char \<Rightarrow> bool" where
  "is_digit c \<longleftrightarrow> 48 \<le> (of_char c :: nat) \<and> (of_char c :: nat) \<le> 57"

definition digit_val :: "char \<Rightarrow> nat" where
  "digit_val c = of_char c - 48"

definition digit_char :: "nat \<Rightarrow> char" where
  "digit_char d = char_of (48 + d)"

definition digits_val :: "string \<Rightarrow> nat" where
  "digits_val ds = foldl (\<lambda>n c. 10 * n + digit_val c) 0 ds"

text \<open>
  \<open>stoul (s, nullptr, 10)\<close>: blanks, an optional sign, digits; a minus sign negates the
  number modulo the width, as \<open>strtoul\<close> does.
\<close>

definition stoul :: "string \<Rightarrow> ulong result" where
  "stoul s =
     (let t = dropWhile is_space s;
          neg = (case t of c # _ \<Rightarrow> c = CHR ''-'' | [] \<Rightarrow> False);
          u = (case t of c # r \<Rightarrow> if c = CHR ''-'' \<or> c = CHR ''+'' then r else t | [] \<Rightarrow> []);
          ds = takeWhile is_digit u
      in if ds = [] then Inl InvalidArgument
         else if 2 ^ 32 \<le> digits_val ds then Inl OutOfRange
         else Inr (if neg then - of_nat (digits_val ds) else of_nat (digits_val ds)))"

fun decimal :: "nat \<Rightarrow> string" where
  "decimal n = (if n < 10 then [digit_char n] else decimal (n div 10) @ [digit_char (n mod 10)])"

declare decimal.simps [simp del]

definition to_string :: "'a::len word \<Rightarrow> string" where
  "to_string w = decimal (unat w)"

section \<open>Facts about searching\<close>

lemma find_at_Some_bounds:
  "find_at pat s k = Some i \<Longrightarrow> k \<le> i \<and> i + length pat \<le> k + length s"
proof (induction pat s k rule: find_at.induct)
  case (2 pat c s k)
  then show ?case by (auto split: if_splits dest: prefix_length_le)
qed (auto split: if_splits)

lemma find_at_Some_prefix:
  "find_at pat s k = Some i \<Longrightarrow> prefix pat (drop (i - k) s)"
proof (induction pat s k rule: find_at.induct)
  case (2 pat c s k)
  show ?case
  proof (cases "prefix pat (c # s)")
    case False
    with 2 have "find_at pat s (Suc k) = Some i" by simp
    with 2(1) [OF False this] find_at_Some_bounds [OF this] show ?thesis
      by (simp add: Suc_diff_le [symmetric] drop_Cons')
  qed (use 2 in auto)
qed (auto split: if_splits)

lemma find_at_least:
  "find_at pat s k = Some i \<Longrightarrow> k \<le> j \<Longrightarrow> j < i \<Longrightarrow> \<not> prefix pat (drop (j - k) s)"
proof (induction pat s k rule: find_at.induct)
  case (2 pat c s k)
  show ?case
  proof (cases "j = k")
    case True
    with 2 show ?thesis by (auto split: if_splits)
  next
    case False
    with 2 show ?thesis by (auto split: if_splits simp: drop_Cons')
  qed
qed (auto split: if_splits)

lemma find_at_char [simp]:
  "c \<notin> set tok \<Longrightarrow> find_at [c] (tok @ c # rest) k = Some (k + length tok)"
  by (induction tok arbitrary: k) auto

lemma find_at_char_None: "find_at [c] s k = None \<longleftrightarrow> c \<notin> set s"
  by (induction s arbitrary: k) auto

lemma find_at_crlf [simp]:
  "CHR 0x0D \<notin> set tok \<Longrightarrow> find_at crlf (tok @ crlf @ rest) k = Some (k + length tok)"
  by (induction tok arbitrary: k) (auto simp: crlf_def)

lemma find_at_None:
  "find_at pat s k = None \<Longrightarrow> j \<le> length s \<Longrightarrow> \<not> prefix pat (drop j s)"
proof (induction pat s k arbitrary: j rule: find_at.induct)
  case (2 pat c s k)
  then show ?case by (cases j) (auto split: if_splits)
qed (auto split: if_splits)

lemma str_find_at:
  assumes "s = pre @ mid @ rest" and "length s < 2 ^ 32 - 1" and "p = of_nat (length pre)"
    and "find_at pat (mid @ rest) (length pre) = Some (length pre + length mid)"
  shows "str_find s pat p = of_nat (length pre + length mid)"
  using assms by (simp add: str_find_def unat_of_nat32)

lemma str_find_char:
  "s = pre @ tok @ c # rest \<Longrightarrow> length s < 2 ^ 32 - 1 \<Longrightarrow> c \<notin> set tok \<Longrightarrow>
   p = of_nat (length pre) \<Longrightarrow> str_find s [c] p = of_nat (length pre + length tok)"
  by (rule str_find_at [where rest = "c # rest"]) auto

lemma str_find_crlf:
  "s = pre @ tok @ crlf @ rest \<Longrightarrow> length s < 2 ^ 32 - 1 \<Longrightarrow> CHR 0x0D \<notin> set tok \<Longrightarrow>
   p = of_nat (length pre) \<Longrightarrow> str_find s crlf p = of_nat (length pre + length tok)"
  by (rule str_find_at [where rest = "crlf @ rest"]) auto

lemma str_find_absent:
  "c \<notin> set (drop (unat p) s) \<Longrightarrow> str_find s [c] p = npos"
  by (simp add: str_find_def find_at_char_None [THEN iffD2])

text \<open>A hit lies between the start position and the end of the string.\<close>

lemma str_find_cases:
  assumes "length s < 2 ^ 32 - 1"
  obtains (none) "str_find s pat p = npos"
  | (hit) i where "str_find s pat p = of_nat i" "unat p \<le> i" "i + length pat \<le> length s"
      "prefix pat (drop i s)"
proof (cases "length s < unat p")
  case True
  then show ?thesis using none by (simp add: str_find_def)
next
  case False
  show ?thesis
  proof (cases "find_at pat (drop (unat p) s) (unat p)")
    case None
    then show ?thesis using none by (simp add: str_find_def)
  next
    case (Some i)
    from find_at_Some_bounds [OF Some] find_at_Some_prefix [OF Some] False
    show ?thesis using hit [of i] Some by (simp add: str_find_def)
  qed
qed

lemma substr_slice:
  "s = pre @ mid @ rest \<Longrightarrow> length s < 2 ^ 32 - 1 \<Longrightarrow> p = of_nat (length pre) \<Longrightarrow>
   n = of_nat (length mid) \<Longrightarrow> substr s p n = Inr mid"
  by (simp add: substr_def unat_of_nat32)

lemma substr_npos_rest:
  assumes "s = pre @ rest" and "length s < 2 ^ 32 - 1" and "p = of_nat (length pre)"
    and "length rest \<le> unat n"
  shows "substr s p n = Inr rest"
  using assms by (simp add: substr_def unat_of_nat32)

lemma substr_ok: "unat p \<le> length s \<Longrightarrow> substr s p n = Inr (take (unat n) (drop (unat p) s))"
  by (simp add: substr_def)

section \<open>Facts about numbers\<close>

lemma of_char_digit_char: "d < 10 \<Longrightarrow> (of_char (digit_char d) :: nat) = 48 + d"
  by (simp add: digit_char_def)

lemma digit_val_digit_char [simp]: "d < 10 \<Longrightarrow> digit_val (digit_char d) = d"
  by (simp add: digit_val_def of_char_digit_char)

lemma is_digit_digit_char [simp]: "d < 10 \<Longrightarrow> is_digit (digit_char d)"
  by (simp add: is_digit_def of_char_digit_char)

lemma digits_val_Nil [simp]: "digits_val [] = 0"
  by (simp add: digits_val_def)

lemma digits_val_snoc [simp]: "digits_val (ds @ [c]) = 10 * digits_val ds + digit_val c"
  by (simp add: digits_val_def)

lemma decimal_nonempty [simp]: "decimal n \<noteq> []"
  by (subst decimal.simps) simp

lemma decimal_digits: "c \<in> set (decimal n) \<Longrightarrow> is_digit c"
proof (induction n rule: decimal.induct)
  case (1 n)
  then show ?case by (subst (asm) (2) decimal.simps) (auto split: if_splits)
qed

lemma digits_val_decimal [simp]: "digits_val (decimal n) = n"
proof (induction n rule: decimal.induct)
  case (1 n)
  show ?case
  proof (cases "n < 10")
    case True
    then show ?thesis by (subst decimal.simps) (simp add: digits_val_def)
  next
    case False
    with 1 show ?thesis by (subst decimal.simps) simp
  qed
qed

lemma length_decimal_le: "n < 10 ^ k \<Longrightarrow> 0 < k \<Longrightarrow> length (decimal n) \<le> k"
proof (induction k arbitrary: n)
  case (Suc k)
  show ?case
  proof (cases "n < 10")
    case True
    then show ?thesis by (subst decimal.simps) simp
  next
    case False
    with Suc.prems have "n div 10 < 10 ^ k" and "0 < k"
      by (auto intro: gr0I)
    from Suc.IH [OF this] False show ?thesis by (subst decimal.simps) simp
  qed
qed simp

lemma length_to_string64: "length (to_string (w :: 64 word)) \<le> 20"
proof -
  have "unat w < 2 ^ 64" using unsigned_less [of w] by simp
  then have "unat w < 10 ^ 20" by simp
  then show ?thesis unfolding to_string_def by (rule length_decimal_le) simp
qed

lemma to_string_nonempty [simp]: "to_string w \<noteq> []"
  by (simp add: to_string_def)

text \<open>A digit is neither a blank nor a sign nor a line end.\<close>

lemma is_digit_not_special:
  "is_digit c \<Longrightarrow> \<not> is_space c \<and> c \<noteq> CHR ''-'' \<and> c \<noteq> CHR ''+'' \<and> c \<noteq> CHR '' '' \<and> c \<noteq> CHR 0x0D"
  by (auto simp: is_digit_def is_space_def)

lemma stoul_digits:
  assumes "ds \<noteq> []" and digits: "\<forall>c \<in> set ds. is_digit c" and "digits_val ds < 2 ^ 32"
  shows "stoul ds = Inr (of_nat (digits_val ds))"
proof -
  obtain c r where ds: "ds = c # r" using assms(1) by (cases ds) auto
  have "dropWhile is_space ds = ds" "c \<noteq> CHR ''-''" "c \<noteq> CHR ''+''"
    using digits is_digit_not_special by (auto simp: ds)
  moreover have "takeWhile is_digit ds = ds" using digits by (simp add: takeWhile_eq_all_conv)
  ultimately show ?thesis using assms(3) by (simp add: stoul_def Let_def ds)
qed

lemma stoul_decimal: "n < 2 ^ 32 \<Longrightarrow> stoul (decimal n) = Inr (of_nat n)"
  using stoul_digits [of "decimal n"] decimal_digits by simp

end
