(* ===== verification/TimestampSet.thy ===== *)
theory TimestampSet
  imports CppString
begin

text \<open>
  \<open>std::set\<close> with a user comparison, as \<open>dblru.h\<close> uses it for the eviction order: the
  elements in ascending order, two elements being the same when neither is smaller. The
  comparison of the server looks at the timestamp only, so an \<open>insert\<close> of a second key with
  a stored timestamp is ignored and an \<open>erase\<close> removes the entry with that timestamp,
  whatever its key.
\<close>

record TimestampToKeyStruct =
  tk_timestamp :: ulong
  tk_key :: string

definition timestampToKeyCompare :: "TimestampToKeyStruct \<Rightarrow> TimestampToKeyStruct \<Rightarrow> bool" where
  "timestampToKeyCompare a b \<longleftrightarrow> tk_timestamp a < tk_timestamp b"

type_synonym TimestampToKeyType = "TimestampToKeyStruct list"

fun oset_insert :: "('a \<Rightarrow> 'a \<Rightarrow> bool) \<Rightarrow> 'a \<Rightarrow> 'a list \<Rightarrow> 'a list" where
  "oset_insert cmp x [] = [x]"
| "oset_insert cmp x (y # ys) =
     (if cmp x y then x # y # ys else if cmp y x then y # oset_insert cmp x ys else y # ys)"

fun oset_erase :: "('a \<Rightarrow> 'a \<Rightarrow> bool) \<Rightarrow> 'a \<Rightarrow> 'a list \<Rightarrow> 'a list" where
  "oset_erase cmp x [] = []"
| "oset_erase cmp x (y # ys) =
     (if cmp x y then y # ys else if cmp y x then y # oset_erase cmp x ys else ys)"

text \<open>\<open>erase (it)\<close> with the iterator given by its distance from \<open>begin ()\<close>.\<close>

definition oset_erase_at :: "nat \<Rightarrow> 'a list \<Rightarrow> 'a list" where
  "oset_erase_at i xs = take i xs @ drop (Suc i) xs"

definition ts_insert :: "TimestampToKeyStruct \<Rightarrow> TimestampToKeyType \<Rightarrow> TimestampToKeyType" where
  "ts_insert = oset_insert timestampToKeyCompare"

definition ts_erase :: "TimestampToKeyStruct \<Rightarrow> TimestampToKeyType \<Rightarrow> TimestampToKeyType" where
  "ts_erase = oset_erase timestampToKeyCompare"

definition ts_sorted :: "TimestampToKeyType \<Rightarrow> bool" where
  "ts_sorted = sorted_wrt timestampToKeyCompare"

section \<open>Sets over a strict weak order\<close>

text \<open>
  What the standard asks of the comparison, and what the container then promises: the
  elements stay strictly ascending, an insertion adds exactly the new element unless an
  equivalent one is there, an erasure removes exactly the equivalent ones.
\<close>

locale ordered_set =
  fixes cmp :: "'a \<Rightarrow> 'a \<Rightarrow> bool"
  assumes cmp_irrefl: "\<not> cmp x x"
    and cmp_trans: "cmp x y \<Longrightarrow> cmp y z \<Longrightarrow> cmp x z"
    and cmp_incomp: "\<not> cmp x y \<Longrightarrow> \<not> cmp y x \<Longrightarrow> \<not> cmp y z \<Longrightarrow> \<not> cmp z y \<Longrightarrow> \<not> cmp x z \<and> \<not> cmp z x"
begin

lemma cmp_asym: "cmp x y \<Longrightarrow> \<not> cmp y x"
  using cmp_irrefl cmp_trans by blast

text \<open>An element below a member is below everything equivalent to the member.\<close>

lemma cmp_cong: "cmp x y \<Longrightarrow> \<not> cmp y z \<Longrightarrow> \<not> cmp z y \<Longrightarrow> cmp x z"
  using cmp_incomp cmp_trans by metis

lemma cmp_cong_left: "cmp y z \<Longrightarrow> \<not> cmp x y \<Longrightarrow> \<not> cmp y x \<Longrightarrow> cmp x z"
  using cmp_incomp [of z x y] cmp_trans by blast

lemma set_insert_subset: "set (oset_insert cmp x xs) \<subseteq> insert x (set xs)"
  by (induction xs) auto

lemma sorted_insert: "sorted_wrt cmp xs \<Longrightarrow> sorted_wrt cmp (oset_insert cmp x xs)"
proof (induction xs)
  case (Cons y ys)
  then show ?case using set_insert_subset [of x ys] by (auto intro: cmp_trans)
qed simp

lemma set_insert_fresh:
  "\<forall>y \<in> set xs. cmp x y \<or> cmp y x \<Longrightarrow> set (oset_insert cmp x xs) = insert x (set xs)"
  by (induction xs) auto

lemma set_insert_present:
  assumes "sorted_wrt cmp xs" and "y \<in> set xs" and "\<not> cmp x y" and "\<not> cmp y x"
  shows "oset_insert cmp x xs = xs"
  using assms
proof (induction xs)
  case (Cons z zs)
  show ?case
  proof (cases "y = z")
    case True
    with Cons.prems show ?thesis by simp
  next
    case False
    with Cons.prems have zy: "cmp z y" by simp
    then have "cmp z x" using Cons.prems(3,4) cmp_cong by blast
    with False Cons show ?thesis using cmp_asym by auto
  qed
qed simp

lemma length_insert_fresh:
  "\<forall>y \<in> set xs. cmp x y \<or> cmp y x \<Longrightarrow> length (oset_insert cmp x xs) = Suc (length xs)"
  by (induction xs) auto

lemma set_erase_subset: "set (oset_erase cmp x xs) \<subseteq> set xs"
  by (induction xs) auto

lemma sorted_erase: "sorted_wrt cmp xs \<Longrightarrow> sorted_wrt cmp (oset_erase cmp x xs)"
proof (induction xs)
  case (Cons y ys)
  then show ?case using set_erase_subset [of x ys] by auto
qed simp

lemma set_erase:
  "sorted_wrt cmp xs \<Longrightarrow> set (oset_erase cmp x xs) = {y \<in> set xs. cmp x y \<or> cmp y x}"
proof (induction xs)
  case (Cons y ys)
  then have above: "\<forall>z \<in> set ys. cmp y z" by simp
  consider (less) "cmp x y" | (greater) "cmp y x" "\<not> cmp x y" | (same) "\<not> cmp x y" "\<not> cmp y x"
    by blast
  then show ?case
  proof cases
    case less
    with above have "\<forall>z \<in> set ys. cmp x z" using cmp_trans by blast
    with less show ?thesis by auto
  next
    case greater
    with Cons show ?thesis by auto
  next
    case same
    have "\<forall>z \<in> set ys. cmp x z"
      using above same cmp_cong_left by blast
    with same show ?thesis by auto
  qed
qed simp

text \<open>The first element is the least one.\<close>

lemma hd_least: "sorted_wrt cmp (x # xs) \<Longrightarrow> y \<in> set (x # xs) \<Longrightarrow> y = x \<or> cmp x y"
  by auto

end

interpretation tsset: ordered_set timestampToKeyCompare
  by unfold_locales (auto simp: timestampToKeyCompare_def)

section \<open>The eviction order\<close>

lemmas ts_defs = ts_insert_def ts_erase_def ts_sorted_def

lemma ts_sorted_Nil [simp]: "ts_sorted []"
  by (simp add: ts_defs)

lemma ts_sorted_insert [simp]: "ts_sorted xs \<Longrightarrow> ts_sorted (ts_insert e xs)"
  unfolding ts_defs by (rule tsset.sorted_insert)

lemma ts_sorted_erase [simp]: "ts_sorted xs \<Longrightarrow> ts_sorted (ts_erase e xs)"
  unfolding ts_defs by (rule tsset.sorted_erase)

lemma ts_sorted_erase_at [simp]: "ts_sorted xs \<Longrightarrow> ts_sorted (oset_erase_at i xs)"
proof -
  assume "ts_sorted xs"
  then have "sorted_wrt timestampToKeyCompare (take i xs @ drop i xs)" by (simp add: ts_defs)
  moreover have "sorted_wrt timestampToKeyCompare (drop (Suc i) xs)"
    using \<open>ts_sorted xs\<close> by (simp add: ts_defs sorted_wrt_drop)
  moreover have "set (drop (Suc i) xs) \<subseteq> set (drop i xs)" by (rule set_drop_subset_set_drop) simp
  ultimately show ?thesis unfolding ts_defs oset_erase_at_def sorted_wrt_append by blast
qed

lemma set_ts_insert:
  "\<forall>y \<in> set xs. tk_timestamp y \<noteq> tk_timestamp e \<Longrightarrow> set (ts_insert e xs) = insert e (set xs)"
  unfolding ts_insert_def
  by (rule tsset.set_insert_fresh) (auto simp: timestampToKeyCompare_def)

lemma set_ts_erase:
  "ts_sorted xs \<Longrightarrow> set (ts_erase e xs) = {y \<in> set xs. tk_timestamp y \<noteq> tk_timestamp e}"
  unfolding ts_defs
  by (subst tsset.set_erase) (auto simp: timestampToKeyCompare_def)

lemma length_ts_insert_le: "length (ts_insert e xs) \<le> Suc (length xs)"
  unfolding ts_insert_def by (induction xs) auto

lemma set_oset_erase_at: "set (oset_erase_at i xs) \<subseteq> set xs"
  by (auto simp: oset_erase_at_def dest: in_set_takeD in_set_dropD)

lemma length_oset_erase_at [simp]:
  "i < length xs \<Longrightarrow> length (oset_erase_at i xs) = length xs - 1"
  by (simp add: oset_erase_at_def)

end
