(* ===== verification/MersenneTwister.thy ===== *)
theory MersenneTwister
  imports Prelude
begin

text \<open>
  \<open>std::mt19937_64\<close>, the 64-bit Mersenne twister of the C++ standard library, which
  \<open>dbInsertElement\<close> and \<open>dbAddElement\<close> use to make up CAS identifiers: the seeding
  recurrence, the twist of the 312 state words and the tempering of one output.
\<close>

unbundle bit_operations_syntax

record mt_state =
  mt_x :: "u64 list"
  mt_i :: nat

fun mt_fill :: "nat \<Rightarrow> nat \<Rightarrow> u64 \<Rightarrow> u64 list" where
  "mt_fill 0 i x = []"
| "mt_fill (Suc n) i x =
     (let y = 6364136223846793005 * (x XOR drop_bit 62 x) + of_nat i in y # mt_fill n (Suc i) y)"

definition mt_seed :: "u64 \<Rightarrow> mt_state" where
  "mt_seed s = \<lparr>mt_x = s # mt_fill 311 1 s, mt_i = 312\<rparr>"

definition mt_twist_at :: "u64 list \<Rightarrow> nat \<Rightarrow> u64 list" where
  "mt_twist_at x k =
     (let y = (x ! k AND 0xFFFFFFFF80000000) OR (x ! ((k + 1) mod 312) AND 0x7FFFFFFF)
      in x[k := x ! ((k + 156) mod 312) XOR drop_bit 1 y XOR (if bit y 0 then 0xB5026F5AA96619E9 else 0)])"

definition mt_twist :: "u64 list \<Rightarrow> u64 list" where
  "mt_twist x = foldl mt_twist_at x [0..<312]"

definition mt_temper :: "u64 \<Rightarrow> u64" where
  "mt_temper y0 =
     (let y1 = y0 XOR (drop_bit 29 y0 AND 0x5555555555555555);
          y2 = y1 XOR (push_bit 17 y1 AND 0x71D67FFFEDA60000);
          y3 = y2 XOR (push_bit 37 y2 AND 0xFFF7EEE000000000)
      in y3 XOR drop_bit 43 y3)"

definition mt_next :: "mt_state \<Rightarrow> u64 \<times> mt_state" where
  "mt_next g =
     (let g' = (if 312 \<le> mt_i g then \<lparr>mt_x = mt_twist (mt_x g), mt_i = 0\<rparr> else g)
      in (mt_temper (mt_x g' ! mt_i g'), g'\<lparr>mt_i := Suc (mt_i g')\<rparr>))"

definition mt_wf :: "mt_state \<Rightarrow> bool" where
  "mt_wf g \<longleftrightarrow> length (mt_x g) = 312 \<and> mt_i g \<le> 312"

lemma length_mt_fill: "length (mt_fill n i x) = n"
  by (induction n arbitrary: i x) (simp_all add: Let_def)

lemma mt_wf_seed: "mt_wf (mt_seed s)"
  by (simp add: mt_wf_def mt_seed_def length_mt_fill)

lemma length_mt_twist_fold: "length (foldl mt_twist_at x ks) = length x"
  by (induction ks arbitrary: x) (simp_all add: mt_twist_at_def Let_def)

text \<open>Every state word is read inside the state array, before and after a twist.\<close>

lemma mt_wf_next: "mt_wf g \<Longrightarrow> mt_wf (snd (mt_next g))"
  by (auto simp: mt_wf_def mt_next_def mt_twist_def length_mt_twist_fold Let_def)

section \<open>The first outputs\<close>

text \<open>The first half of a twist only reads words the twist has not written yet.\<close>

definition twist_word :: "u64 \<Rightarrow> u64 \<Rightarrow> u64 \<Rightarrow> u64" where
  "twist_word a b c =
     (let y = (a AND 0xFFFFFFFF80000000) OR (b AND 0x7FFFFFFF)
      in c XOR drop_bit 1 y XOR (if bit y 0 then 0xB5026F5AA96619E9 else 0))"

lemma mt_twist_at_word: "mt_twist_at x k = x[k := twist_word (x ! k) (x ! ((k + 1) mod 312)) (x ! ((k + 156) mod 312))]"
  by (simp add: mt_twist_at_def twist_word_def Let_def)

lemma twist_fold_other: "j \<notin> set ks \<Longrightarrow> foldl mt_twist_at x ks ! j = x ! j"
  by (induction ks arbitrary: x) (auto simp: mt_twist_at_word)

lemma mt_twist_first:
  assumes "length x = 312" and "k < 156"
  shows "mt_twist x ! k = twist_word (x ! k) (x ! (k + 1)) (x ! (k + 156))"
proof -
  have up: "[0..<312] = [0..<k] @ k # [Suc k..<312]"
    using assms(2) upt_add_eq_append [of 0 k "312 - k"] upt_conv_Cons [of k 312] by simp
  let ?y = "foldl mt_twist_at x [0..<k]"
  have same: "?y ! j = x ! j" if "k \<le> j" for j using twist_fold_other [of j "[0..<k]" x] that by simp
  have "mt_twist x ! k = mt_twist_at ?y k ! k"
    unfolding mt_twist_def up by (simp add: twist_fold_other)
  also have "\<dots> = twist_word (x ! k) (x ! (k + 1)) (x ! (k + 156))"
    using assms same by (simp add: mt_twist_at_word length_mt_twist_fold)
  finally show ?thesis .
qed

lemma mt_fill_prefix: "j < m \<Longrightarrow> m \<le> n \<Longrightarrow> mt_fill n i x ! j = mt_fill m i x ! j"
proof (induction n arbitrary: m i x j)
  case (Suc n)
  then show ?case by (cases m; cases j) (auto simp: Let_def)
qed simp

lemma mt_seed_word: "j \<le> m \<Longrightarrow> m \<le> 311 \<Longrightarrow> mt_x (mt_seed s) ! j = (s # mt_fill m 1 s) ! j"
  using mt_fill_prefix [of "j - 1" m 311 1 s] by (cases j) (simp_all add: mt_seed_def)

end
