(* ===== verification/DbLru.thy ===== *)
theory DbLru
  imports TimestampSet MersenneTwister
begin

text \<open>
  The storage of the server, \<open>dblru.cpp\<close>: ten hash tables from keys to values, ten
  eviction orders from timestamps to keys, the counters they share, and the operations
  \<open>dbInsertElement\<close>, \<open>dbAddElement\<close>, \<open>dbDeleteElement\<close>, \<open>dbGetElement\<close>,
  \<open>dbSetFlushAll\<close> and \<open>dbHandleFlushAll\<close>. This theory holds the definitions.

  The globals of the file are the fields of one record that every operation takes and
  returns. The record also holds what the operating system answers: \<open>sysClock i\<close> is the
  result of the \<open>i\<close>-th call of \<open>time ()\<close>, \<open>clockReads\<close> counts the calls made so far,
  and \<open>badAlloc\<close> says whether \<open>emplace\<close> throws \<open>bad_alloc\<close>. The operations are the
  sequential behaviour of one thread; the mutexes are left out here.
\<close>

section \<open>Data\<close>

datatype retStatus = SUCCESS | MEMORY_FULL | EXIST | NOT_EXIST | FAILURE

record ValueStruct =
  vs_expiry :: ulong
  vs_value :: string
  vs_flags :: string
  vs_casUniq :: string

text \<open>What an iterator into the hash map points to, besides the key.\<close>

type_synonym MapEntry = "ValueStruct \<times> ulong"

type_synonym KeyToValueType = "string \<rightharpoonup> MapEntry"

record db =
  gTimestampToKeySet :: "uint \<Rightarrow> TimestampToKeyType"
  gKeyToValueHashMap :: "uint \<Rightarrow> KeyToValueType"
  gStoredSize :: ulong
  gTimestamp :: ulong
  gFlushAllTimestamp :: ulong
  gFlushAllTime :: ulong
  gIsFlushAllSet :: bool
  casGenerator :: "mt_state option"
  gServMemLimit :: uint
  sysClock :: "nat \<Rightarrow> ulong"
  clockReads :: nat
  badAlloc :: bool

definition DB_MAX_HASH_TABLES :: uint where
  "DB_MAX_HASH_TABLES = 10"

definition SERV_DEF_MEM_LIMIT :: uint where
  "SERV_DEF_MEM_LIMIT = 7000"

definition ULONG_MAX :: ulong where
  "ULONG_MAX = - 1"

definition sizeof_ulong :: ulong where
  "sizeof_ulong = 4"

text \<open>The globals at start-up: the static initialisers of \<open>dblru.cpp\<close>.\<close>

definition initial_db :: "(nat \<Rightarrow> ulong) \<Rightarrow> db" where
  "initial_db clk =
     \<lparr>gTimestampToKeySet = (\<lambda>_. []), gKeyToValueHashMap = (\<lambda>_. Map.empty), gStoredSize = 0,
      gTimestamp = 0, gFlushAllTimestamp = 0, gFlushAllTime = 0, gIsFlushAllSet = False,
      casGenerator = None, gServMemLimit = SERV_DEF_MEM_LIMIT, sysClock = clk, clockReads = 0,
      badAlloc = False\<rparr>"

section \<open>The clock\<close>

definition now :: "db \<Rightarrow> ulong" where
  "now w = sysClock w (clockReads w)"

definition tick :: "db \<Rightarrow> db" where
  "tick w = w\<lparr>clockReads := Suc (clockReads w)\<rparr>"

section \<open>Flushing\<close>

definition dbSetFlushAll :: "ulong \<Rightarrow> db \<Rightarrow> db" where
  "dbSetFlushAll expiry w = (tick w)\<lparr>gIsFlushAllSet := True, gFlushAllTime := now w + expiry\<rparr>"

definition dbHandleFlushAll :: "db \<Rightarrow> db" where
  "dbHandleFlushAll w =
     (if \<not> gIsFlushAllSet w then w
      else let cur = now w; w = tick w in
        if gFlushAllTime w \<le> cur
        then w\<lparr>gTimestamp := gTimestamp w + 1, gFlushAllTimestamp := gTimestamp w + 1,
               gIsFlushAllSet := False\<rparr>
        else w)"

section \<open>The table of a key\<close>

definition char_val :: "char \<Rightarrow> uint" where
  "char_val c = scast (of_char c :: 8 word)"

definition getHashTblNbrFromKey :: "string \<Rightarrow> uint" where
  "getHashTblNbrFromKey key =
     (let maxLen = str_size key; i = (if maxLen < 5 then 0 else maxLen - 5)
      in foldl (\<lambda>tableNbr c. tableNbr + char_val c) 0 (drop (unat i) key) mod DB_MAX_HASH_TABLES)"

section \<open>Fields of a stored entry\<close>

definition getValueFromMap :: "MapEntry \<Rightarrow> string" where
  "getValueFromMap it = vs_value (fst it)"

definition getExpiryFromMap :: "MapEntry \<Rightarrow> ulong" where
  "getExpiryFromMap it = vs_expiry (fst it)"

definition getCasFromMap :: "MapEntry \<Rightarrow> string" where
  "getCasFromMap it = vs_casUniq (fst it)"

definition getFlagsFromMap :: "MapEntry \<Rightarrow> string" where
  "getFlagsFromMap it = vs_flags (fst it)"

definition getTimestampFromMap :: "MapEntry \<Rightarrow> ulong" where
  "getTimestampFromMap it = snd it"

definition setValueToMap :: "string \<Rightarrow> MapEntry \<Rightarrow> MapEntry" where
  "setValueToMap v it = ((fst it)\<lparr>vs_value := v\<rparr>, snd it)"

definition setCasToMap :: "string \<Rightarrow> MapEntry \<Rightarrow> MapEntry" where
  "setCasToMap c it = ((fst it)\<lparr>vs_casUniq := c\<rparr>, snd it)"

definition setFlagsToMap :: "string \<Rightarrow> MapEntry \<Rightarrow> MapEntry" where
  "setFlagsToMap f it = ((fst it)\<lparr>vs_flags := f\<rparr>, snd it)"

definition setExpiryToMap :: "ulong \<Rightarrow> MapEntry \<Rightarrow> MapEntry" where
  "setExpiryToMap e it = ((fst it)\<lparr>vs_expiry := e\<rparr>, snd it)"

definition setTimestampToMap :: "ulong \<Rightarrow> MapEntry \<Rightarrow> MapEntry" where
  "setTimestampToMap t it = (fst it, t)"

text \<open>The test every operation makes on an entry it finds: expired, or older than the last flush.\<close>

definition entry_dead :: "ulong \<Rightarrow> db \<Rightarrow> MapEntry \<Rightarrow> bool" where
  "entry_dead cur w it \<longleftrightarrow> getExpiryFromMap it < cur \<or> getTimestampFromMap it < gFlushAllTimestamp w"

text \<open>The four assignments that overwrite an entry in place; its timestamp stays.\<close>

definition overwrite_entry :: "ulong \<Rightarrow> ValueStruct \<Rightarrow> MapEntry \<Rightarrow> MapEntry" where
  "overwrite_entry e vs it =
     setFlagsToMap (vs_flags vs) (setValueToMap (vs_value vs)
       (setCasToMap (vs_casUniq vs) (setExpiryToMap e it)))"

section \<open>Writing to the tables\<close>

definition kv_put :: "uint \<Rightarrow> string \<Rightarrow> MapEntry \<Rightarrow> db \<Rightarrow> db" where
  "kv_put h key it w =
     w\<lparr>gKeyToValueHashMap := (gKeyToValueHashMap w)(h := (gKeyToValueHashMap w h)(key \<mapsto> it))\<rparr>"

definition kv_erase :: "uint \<Rightarrow> string \<Rightarrow> db \<Rightarrow> db" where
  "kv_erase h key w =
     w\<lparr>gKeyToValueHashMap := (gKeyToValueHashMap w)(h := (gKeyToValueHashMap w h)(key := None))\<rparr>"

definition ts_update :: "uint \<Rightarrow> (TimestampToKeyType \<Rightarrow> TimestampToKeyType) \<Rightarrow> db \<Rightarrow> db" where
  "ts_update h f w =
     w\<lparr>gTimestampToKeySet := (gTimestampToKeySet w)(h := f (gTimestampToKeySet w h))\<rparr>"

definition stored_sub :: "ulong \<Rightarrow> db \<Rightarrow> db" where
  "stored_sub n w = w\<lparr>gStoredSize := gStoredSize w - n\<rparr>"

definition stored_add :: "ulong \<Rightarrow> db \<Rightarrow> db" where
  "stored_add n w = w\<lparr>gStoredSize := gStoredSize w + n\<rparr>"

section \<open>Eviction\<close>

text \<open>
  The loop of \<open>removeLRUElement\<close> walks the eviction order from its beginning, keeping the
  position of the first live entry. It ends at an entry whose key is gone from the hash map,
  at an expired entry, at the second live entry, or at the end of the order.
\<close>

datatype lru_scan = ScanGone nat | ScanExpired nat | ScanTwo nat nat | ScanEnd "nat option"

fun scan_lru ::
  "ulong \<Rightarrow> db \<Rightarrow> uint \<Rightarrow> nat option \<Rightarrow> nat \<Rightarrow> TimestampToKeyType \<Rightarrow> lru_scan" where
  "scan_lru cur w h one i [] = ScanEnd one"
| "scan_lru cur w h one i (e # es) =
     (case gKeyToValueHashMap w h (tk_key e) of
        None \<Rightarrow> ScanGone i
      | Some it \<Rightarrow>
          if entry_dead cur w it then ScanExpired i
          else (case one of
                  None \<Rightarrow> scan_lru cur w h (Some i) (Suc i) es
                | Some j \<Rightarrow> ScanTwo j i))"

text \<open>The bytes an eviction gives back for an entry found in the hash map.\<close>

definition evicted_size :: "string \<Rightarrow> MapEntry \<Rightarrow> ulong" where
  "evicted_size key it =
     2 * str_size key + 2 * sizeof_ulong + str_size (getCasFromMap it) +
     str_size (getFlagsFromMap it) + str_size (getValueFromMap it)"

definition evict_entry :: "uint \<Rightarrow> nat \<Rightarrow> string \<Rightarrow> MapEntry \<Rightarrow> db \<Rightarrow> db" where
  "evict_entry h i key it w =
     ts_update h (oset_erase_at i) (kv_erase h key (stored_sub (evicted_size key it) w))"

text \<open>
  When the order holds a single live entry, or none, the source goes on with \<open>valueOne\<close>,
  an iterator that was never assigned: the comparison with \<open>end ()\<close> is undefined.
  \<open>lru_section\<close> is the part of the function that runs with both mutexes of the table held.
\<close>

definition lru_section :: "ulong \<Rightarrow> uint \<Rightarrow> db \<Rightarrow> db result" where
  "lru_section cur h w =
     (let order = gTimestampToKeySet w h
      in case scan_lru cur w h None 0 order of
           ScanGone i \<Rightarrow>
             Inr (ts_update h (oset_erase_at i)
                    (stored_sub (str_size (tk_key (order ! i)) + sizeof_ulong) w))
         | ScanExpired i \<Rightarrow>
             (case gKeyToValueHashMap w h (tk_key (order ! i)) of
                Some it \<Rightarrow> Inr (evict_entry h i (tk_key (order ! i)) it w)
              | None \<Rightarrow> Inl SingularIterator)
         | ScanTwo i j \<Rightarrow>
             (case (gKeyToValueHashMap w h (tk_key (order ! i)),
                    gKeyToValueHashMap w h (tk_key (order ! j))) of
                (Some valueOne, Some valueTwo) \<Rightarrow>
                  if str_size (getValueFromMap valueOne) < str_size (getValueFromMap valueTwo)
                  then Inr (evict_entry h j (tk_key (order ! j)) valueTwo w)
                  else Inr (evict_entry h i (tk_key (order ! i)) valueOne w)
              | _ \<Rightarrow> Inl SingularIterator)
         | ScanEnd one \<Rightarrow> Inl SingularIterator)"

definition removeLRUElement :: "uint \<Rightarrow> db \<Rightarrow> db result" where
  "removeLRUElement h w = lru_section (now w) h (tick w)"

definition next_table :: "uint \<Rightarrow> uint" where
  "next_table h = (if h \<noteq> DB_MAX_HASH_TABLES - 1 then h + 1 else 0)"

definition hash_tables :: "uint list" where
  "hash_tables = [0, 1, 2, 3, 4, 5, 6, 7, 8, 9]"

definition order_entries :: "db \<Rightarrow> nat" where
  "order_entries w = (\<Sum>h\<leftarrow>hash_tables. length (gTimestampToKeySet w h))"

definition evict_fuel :: "db \<Rightarrow> nat" where
  "evict_fuel w = order_entries w + 11"

text \<open>
  The loop that makes room. It returns whether the element fits; the other way out is the
  message \<^verbatim>\<open>Not enough memory to store even one element\<close>. Each round but the last
  removes an entry of an eviction order or moves to the next table.
\<close>

fun insertEvictLoop :: "nat \<Rightarrow> ulong \<Rightarrow> uint \<Rightarrow> uint \<Rightarrow> db \<Rightarrow> (bool \<times> db) result" where
  "insertEvictLoop 0 need origHashTblNum hashTblNum w = Inl OutOfFuel"
| "insertEvictLoop (Suc n) need origHashTblNum hashTblNum w =
     (if gStoredSize w + need < gServMemLimit w then Inr (True, w)
      else if gTimestampToKeySet w hashTblNum = [] then
        (if origHashTblNum = next_table hashTblNum then Inr (False, w)
         else insertEvictLoop n need origHashTblNum (next_table hashTblNum) w)
      else rbind (removeLRUElement hashTblNum w)
             (\<lambda>w'. insertEvictLoop n need origHashTblNum hashTblNum w'))"

text \<open>
  The copy of the loop in \<open>dbAddElement\<close> has no \<open>continue\<close> after moving to the next table:
  it evicts from that table without asking whether it is empty.
\<close>

fun addEvictLoop :: "nat \<Rightarrow> ulong \<Rightarrow> uint \<Rightarrow> uint \<Rightarrow> db \<Rightarrow> (bool \<times> db) result" where
  "addEvictLoop 0 need origHashTblNum hashTblNum w = Inl OutOfFuel"
| "addEvictLoop (Suc n) need origHashTblNum hashTblNum w =
     (if gStoredSize w + need < gServMemLimit w then Inr (True, w)
      else if gTimestampToKeySet w hashTblNum = [] \<and> origHashTblNum = next_table hashTblNum
      then Inr (False, w)
      else (let h = (if gTimestampToKeySet w hashTblNum = [] then next_table hashTblNum else hashTblNum)
            in rbind (removeLRUElement h w) (\<lambda>w'. addEvictLoop n need origHashTblNum h w')))"

section \<open>Insertion\<close>

text \<open>The generator of \<open>dbInsertElement\<close> is static: seeded by the first call, advanced by each.\<close>

definition insertCas :: "ulong \<Rightarrow> db \<Rightarrow> string \<times> db" where
  "insertCas cur w =
     (let g = (case casGenerator w of None \<Rightarrow> mt_seed (ucast cur) | Some g \<Rightarrow> g);
          (r, g') = mt_next g
      in (to_string r, w\<lparr>casGenerator := Some g'\<rparr>))"

definition expiry_of :: "ulong \<Rightarrow> ulong \<Rightarrow> ulong" where
  "expiry_of cur expiry = (if expiry \<noteq> 0 then cur + expiry else ULONG_MAX)"

definition insert_need :: "string \<Rightarrow> ValueStruct \<Rightarrow> ulong" where
  "insert_need key vs =
     2 * str_size key + 2 * sizeof_ulong + str_size (vs_flags vs) + str_size (vs_casUniq vs) +
     sizeof_ulong + str_size (vs_value vs)"

text \<open>What is left to do once the element fits: from \<open>emplace\<close> to the end of the function.\<close>

definition dbInsertCommit ::
  "string \<Rightarrow> string \<Rightarrow> ulong \<Rightarrow> ulong \<Rightarrow> ulong \<Rightarrow> ValueStruct \<Rightarrow> db \<Rightarrow> retStatus \<times> db" where
  "dbInsertCommit key casUniq expiry cur timestamp vs w =
     (let h = getHashTblNbrFromKey key; casCheck = (casUniq \<noteq> []);
          entry = \<lparr>tk_timestamp = timestamp, tk_key = key\<rparr>
      in case gKeyToValueHashMap w h key of
           Some it \<Rightarrow>
             if casCheck \<and> getCasFromMap it \<noteq> casUniq then (EXIST, w)
             else (let sizeDiff = sizeof_ulong - sizeof_ulong + str_size (getCasFromMap it) -
                         str_size (vs_casUniq vs) + str_size (getFlagsFromMap it) -
                         str_size (vs_flags vs) + str_size (getValueFromMap it) -
                         str_size (vs_value vs);
                       it' = overwrite_entry (cur + expiry) vs it;
                       old = \<lparr>tk_timestamp = getTimestampFromMap it, tk_key = key\<rparr>
                   in (SUCCESS,
                       ts_update h (ts_insert entry)
                         (stored_sub sizeDiff
                           (ts_update h (ts_erase old) (kv_put h key it' w)))))
         | None \<Rightarrow>
             if casCheck then (NOT_EXIST, kv_erase h key (kv_put h key (vs, timestamp) w))
             else (SUCCESS,
                   ts_update h (ts_insert entry)
                     (stored_add (insert_need key vs) (kv_put h key (vs, timestamp) w))))"

definition dbInsertElement ::
  "string \<Rightarrow> string \<Rightarrow> string \<Rightarrow> string \<Rightarrow> ulong \<Rightarrow> db \<Rightarrow> (retStatus \<times> db) result" where
  "dbInsertElement key flags casUniq val expiry w0 =
     (let cur = now w0; w1 = tick w0; h = getHashTblNbrFromKey key;
          timestamp = gTimestamp w1; w2 = w1\<lparr>gTimestamp := timestamp + 1\<rparr>;
          (cas, w3) = insertCas cur w2;
          vs = \<lparr>vs_expiry = expiry_of cur expiry, vs_value = val, vs_flags = flags, vs_casUniq = cas\<rparr>
      in rbind (insertEvictLoop (evict_fuel w3) (insert_need key vs) h h w3)
           (\<lambda>(fits, w4).
              if \<not> fits \<or> badAlloc w4 then Inr (MEMORY_FULL, w4)
              else Inr (dbInsertCommit key casUniq expiry cur timestamp vs w4)))"

section \<open>Adding\<close>

text \<open>The generator of \<open>dbAddElement\<close> is local: seeded with the current second at each call.\<close>

definition addCas :: "ulong \<Rightarrow> string" where
  "addCas cur = to_string (fst (mt_next (mt_seed (ucast cur))))"

definition add_need :: "string \<Rightarrow> ValueStruct \<Rightarrow> ulong" where
  "add_need key vs = 2 * str_size key + 2 * sizeof_ulong + sizeof_ulong + str_size (vs_value vs)"

definition dbAddCommit ::
  "string \<Rightarrow> ulong \<Rightarrow> ulong \<Rightarrow> ulong \<Rightarrow> ValueStruct \<Rightarrow> db \<Rightarrow> retStatus \<times> db" where
  "dbAddCommit key expiry cur timestamp vs w =
     (let h = getHashTblNbrFromKey key; entry = \<lparr>tk_timestamp = timestamp, tk_key = key\<rparr>
      in case gKeyToValueHashMap w h key of
           Some it \<Rightarrow>
             if entry_dead cur w it
             then (let it' = overwrite_entry (cur + expiry) vs it;
                       old = \<lparr>tk_timestamp = getTimestampFromMap it, tk_key = key\<rparr>
                   in (SUCCESS, ts_update h (\<lambda>s. ts_insert entry (ts_erase old s)) (kv_put h key it' w)))
             else (EXIST, w)
         | None \<Rightarrow>
             (SUCCESS,
              ts_update h (ts_insert entry)
                (stored_add (insert_need key vs) (kv_put h key (vs, timestamp) w))))"

definition dbAddElement ::
  "string \<Rightarrow> string \<Rightarrow> string \<Rightarrow> string \<Rightarrow> ulong \<Rightarrow> db \<Rightarrow> (retStatus \<times> db) result" where
  "dbAddElement key flags casUniq val expiry w0 =
     (let cur = now w0; w1 = tick w0; h = getHashTblNbrFromKey key;
          timestamp = gTimestamp w1; w2 = w1\<lparr>gTimestamp := timestamp + 1\<rparr>;
          vs = \<lparr>vs_expiry = expiry_of cur expiry, vs_value = val, vs_flags = flags,
                vs_casUniq = addCas cur\<rparr>
      in rbind (addEvictLoop (evict_fuel w2) (add_need key vs) h h w2)
           (\<lambda>(fits, w4).
              if \<not> fits \<or> badAlloc w4 then Inr (MEMORY_FULL, w4)
              else Inr (dbAddCommit key expiry cur timestamp vs w4)))"

section \<open>Deletion and look-up\<close>

definition dbDeleteElement :: "string \<Rightarrow> ulong \<Rightarrow> db \<Rightarrow> retStatus \<times> db" where
  "dbDeleteElement key expiry w0 =
     (let cur = now w0; w = tick w0; h = getHashTblNbrFromKey key
      in case gKeyToValueHashMap w h key of
           Some it \<Rightarrow>
             if entry_dead cur w it then (NOT_EXIST, w)
             else if expiry = 0 then (SUCCESS, kv_erase h key w)
             else (SUCCESS, kv_put h key (setExpiryToMap (cur + expiry) it) w)
         | None \<Rightarrow> (NOT_EXIST, w))"

text \<open>The reference parameters of \<open>dbGetElement\<close>: only a successful look-up assigns them.\<close>

record GetOut =
  go_flags :: string
  go_cas :: string
  go_value :: string
  go_expiry :: ulong

definition dbGetElement :: "string \<Rightarrow> GetOut \<Rightarrow> db \<Rightarrow> retStatus \<times> GetOut \<times> db" where
  "dbGetElement key out w0 =
     (let cur = now w0; w1 = tick w0; h = getHashTblNbrFromKey key;
          timestamp = gTimestamp w1; w = w1\<lparr>gTimestamp := timestamp + 1\<rparr>
      in case gKeyToValueHashMap w h key of
           Some it \<Rightarrow>
             if entry_dead cur w it then (NOT_EXIST, out, kv_erase h key w)
             else (SUCCESS,
                   \<lparr>go_flags = getFlagsFromMap it, go_cas = getCasFromMap it,
                    go_value = getValueFromMap it, go_expiry = getExpiryFromMap it - cur\<rparr>,
                   ts_update h
                     (\<lambda>s. ts_insert \<lparr>tk_timestamp = timestamp, tk_key = key\<rparr>
                            (ts_erase \<lparr>tk_timestamp = getTimestampFromMap it, tk_key = key\<rparr> s))
                     (kv_put h key (setTimestampToMap timestamp it) w))
         | None \<Rightarrow> (NOT_EXIST, out, w))"

end
