(* ===== verification/Cmd.thy ===== *)
theory Cmd
  imports DbLru
begin

text \<open>
  The memcached text protocol, \<open>scmd.cpp\<close>: the parser the storage commands share, one handler
  per command, and the dispatcher \<open>cmdProcessCommand\<close>. Positions in the input are
  \<open>unsigned int\<close>, so \<open>npos\<close> is a position like any other and the arithmetic on it wraps.

  A handler takes the input and the storage and returns the \<open>int\<close> of the source (positive: that
  many bytes are still missing; negative: close the connection), the reply and the new storage,
  or the exception that leaves it. The reply starts out empty: the dispatcher clears it. The
  lines the source prints on the console are left out.
\<close>

section \<open>Requests\<close>

record StorageStruct =
  st_key :: string
  st_flags :: string
  st_expTime :: ulong
  st_bytes :: uint
  st_casStr :: string
  st_noreply :: bool
  st_data :: string

text \<open>
  A local \<open>StorageStruct\<close>: the strings are empty; \<open>expTime\<close>, \<open>bytes\<close> and \<open>noreply\<close>
  are unset in the source and read only after they were assigned.
\<close>

definition empty_store :: StorageStruct where
  "empty_store = \<lparr>st_key = [], st_flags = [], st_expTime = 0, st_bytes = 0, st_casStr = [],
     st_noreply = False, st_data = []\<rparr>"

type_synonym handler_result = "(int \<times> string \<times> db) result"

definition EXPIRY_THRESHOLD :: ulong where
  "EXPIRY_THRESHOLD = 60 * 60 * 24 * 30"

definition client_error :: "string \<Rightarrow> string" where
  "client_error msg = ''CLIENT_ERROR '' @ msg @ crlf"

definition no_memory :: string where
  "no_memory = ''SERVER_ERROR not enough memory to store even single element'' @ crlf"

definition line :: "string \<Rightarrow> string" where
  "line msg = msg @ crlf"

section \<open>The shared parser\<close>

text \<open>A statement block of the parser: an exception, an early \<open>return\<close>, or the values it leaves.\<close>

datatype 'a step = Throw cpp_fault | Return int string StorageStruct db | Continue 'a

definition step_bind :: "'a step \<Rightarrow> ('a \<Rightarrow> 'b step) \<Rightarrow> 'b step" where
  "step_bind m f = (case m of Throw e \<Rightarrow> Throw e | Return r out s w \<Rightarrow> Return r out s w | Continue a \<Rightarrow> f a)"

definition lift :: "'a result \<Rightarrow> 'a step" where
  "lift m = (case m of Inl e \<Rightarrow> Throw e | Inr a \<Rightarrow> Continue a)"

text \<open>\<open>(p == string::npos) || (p > nextEndl)\<close>: there is no such position on the command line.\<close>

definition past_line :: "uint \<Rightarrow> uint \<Rightarrow> bool" where
  "past_line p nextEndl \<longleftrightarrow> p = npos \<or> nextEndl < p"

definition find_space :: "string \<Rightarrow> uint \<Rightarrow> uint" where
  "find_space input pos = str_find input '' '' pos"

text \<open>The key, up to the space behind it; leaves the position of the next field.\<close>

definition commonKey :: "string \<Rightarrow> uint \<Rightarrow> StorageStruct \<Rightarrow> db \<Rightarrow> (uint \<times> StorageStruct) step" where
  "commonKey input nextEndl store w =
     (let sp = find_space input 0
      in if past_line sp nextEndl then Return 0 (client_error ''key not found'') store w
         else let start = sp + 1; tempSpace = find_space input start
              in step_bind (lift (substr input start (tempSpace - start)))
                   (\<lambda>key. let store = store\<lparr>st_key := key\<rparr>
                          in if past_line tempSpace nextEndl
                             then Return 0 (client_error ''flags not found'') store w
                             else Continue (tempSpace + 1, store)))"

text \<open>The flags and the expiry time; leaves the position of the space behind them.\<close>

definition commonExpiry :: "ulong \<Rightarrow> StorageStruct \<Rightarrow> db \<Rightarrow> StorageStruct \<times> db" where
  "commonExpiry v store w =
     (if EXPIRY_THRESHOLD < v then (store\<lparr>st_expTime := v - now w\<rparr>, tick w)
      else (store\<lparr>st_expTime := v\<rparr>, w))"

definition commonFlags ::
  "string \<Rightarrow> uint \<Rightarrow> uint \<Rightarrow> StorageStruct \<Rightarrow> db \<Rightarrow> (uint \<times> StorageStruct \<times> db) step" where
  "commonFlags input nextEndl start store w =
     (let tempSpace = find_space input start
      in step_bind (lift (substr input start (tempSpace - start)))
           (\<lambda>flags. let store = store\<lparr>st_flags := flags\<rparr>
             in if past_line tempSpace nextEndl
                then Return 0 (client_error ''expiry time not found'') store w
                else let start = tempSpace + 1; tempSpace = find_space input start
                     in step_bind (lift (substr input start (tempSpace - start)))
                          (\<lambda>expTimeStr.
                             case stoul expTimeStr of
                               Inl InvalidArgument \<Rightarrow>
                                 Return 0 (client_error ''invalid expiry time'') store w
                             | Inl e \<Rightarrow> Throw e
                             | Inr v \<Rightarrow>
                                 (let (store, w) = commonExpiry v store w
                                  in if past_line tempSpace nextEndl
                                     then Return 0 (client_error ''bytes not found'') store w
                                     else Continue (tempSpace, store, w)))))"

text \<open>
  The number of bytes and, for \<open>cas\<close>, the identifier; leaves the text of the number, the
  position its field started at and the position of the space behind it.
\<close>

definition commonBytes ::
  "string \<Rightarrow> uint \<Rightarrow> bool \<Rightarrow> uint \<Rightarrow> StorageStruct \<Rightarrow> db \<Rightarrow> (string \<times> uint \<times> uint \<times> StorageStruct) step" where
  "commonBytes input nextEndl isCas start store w =
     (let tempSpace = find_space input start
      in step_bind (lift (substr input start (tempSpace - start)))
           (\<lambda>bytesStr.
              if isCas \<and> tempSpace \<noteq> npos
              then (if past_line tempSpace nextEndl
                    then Return 0 (client_error ''cas string not found'') store w
                    else let start = tempSpace + 1; tempSpace = find_space input start
                         in step_bind (lift (substr input start (tempSpace - start)))
                              (\<lambda>cas. Continue (bytesStr, start, tempSpace, store\<lparr>st_casStr := cas\<rparr>)))
              else Continue (bytesStr, start, tempSpace, store)))"

text \<open>The rest of the command line: the end of the last field, or \<open>noreply\<close>.\<close>

definition commonNoreply ::
  "string \<Rightarrow> uint \<Rightarrow> bool \<Rightarrow> string \<Rightarrow> uint \<Rightarrow> uint \<Rightarrow> StorageStruct \<Rightarrow> db \<Rightarrow> (string \<times> StorageStruct) step" where
  "commonNoreply input nextEndl isCas bytesStr start tempSpace store w =
     (if nextEndl < tempSpace
      then step_bind (lift (substr input start (str_find input crlf start - start)))
             (\<lambda>field. if isCas
                then Continue (bytesStr, store\<lparr>st_casStr := field, st_noreply := False\<rparr>)
                else Continue (field, store\<lparr>st_noreply := False\<rparr>))
      else let start = tempSpace + 1
           in if start = nextEndl then Continue (bytesStr, store\<lparr>st_noreply := False\<rparr>)
              else step_bind (lift (substr input start (str_find input crlf start - start)))
                     (\<lambda>noReplyStr.
                        if noReplyStr \<noteq> ''noreply'' \<and> noReplyStr \<noteq> ''noreply ''
                        then Return 0 (client_error ''junk found instead of \"noreply\"'') store w
                        else Continue (bytesStr, store\<lparr>st_noreply := True\<rparr>)))"

text \<open>The data block: how many bytes are still missing, as an \<open>int\<close>.\<close>

definition commonData :: "string \<Rightarrow> uint \<Rightarrow> string \<Rightarrow> StorageStruct \<Rightarrow> db \<Rightarrow> unit step" where
  "commonData input nextEndl bytesStr store w =
     (case stoul bytesStr of
        Inl InvalidArgument \<Rightarrow> Return 0 (client_error ''invalid number of bytes'') store w
      | Inl e \<Rightarrow> Throw e
      | Inr bytes \<Rightarrow>
          (let store = store\<lparr>st_bytes := bytes\<rparr>
           in if (nextEndl = npos \<or> str_size input < nextEndl + 2) \<and> bytes \<noteq> 0
              then Return (sint (bytes + 2)) [] store w
              else if bytes = 0 then Return 0 [] store w
              else step_bind (lift (substr input (nextEndl + 2) bytes))
                     (\<lambda>data. let store = store\<lparr>st_data := data\<rparr>
                        in if str_size data < bytes
                           then Return (sint (bytes + 2 - str_size data)) [] store w
                           else Return 0 [] store w)))"

definition cmdProcessCommon ::
  "string \<Rightarrow> bool \<Rightarrow> bool \<Rightarrow> StorageStruct \<Rightarrow> db \<Rightarrow> (int \<times> string \<times> StorageStruct \<times> db) result" where
  "cmdProcessCommon input isCas isExistData store w =
     (let nextEndl = str_find input crlf 0
      in case step_bind (commonKey input nextEndl store w)
           (\<lambda>(next, store).
              step_bind (if isExistData then Continue (next, store, w)
                         else commonFlags input nextEndl next store w)
                (\<lambda>(next, store, w).
                   step_bind (commonBytes input nextEndl isCas (next + 1) store w)
                     (\<lambda>(bytesStr, start, tempSpace, store).
                        step_bind (commonNoreply input nextEndl isCas bytesStr start tempSpace store w)
                          (\<lambda>(bytesStr, store). commonData input nextEndl bytesStr store w)))) of
           Throw e \<Rightarrow> Inl e
         | Return r out store w \<Rightarrow> Inr (r, out, store, w)
         | Continue _ \<Rightarrow> Inr (0, [], store, w))"

section \<open>Storage commands\<close>

definition reply :: "bool \<Rightarrow> string \<Rightarrow> string" where
  "reply noreply msg = (if noreply then [] else msg)"

text \<open>
  The start every storage handler shares: an error reply of the parser ends the command, a
  positive result asks for more data.
\<close>

definition with_store ::
  "(int \<times> string \<times> StorageStruct \<times> db) result \<Rightarrow> (StorageStruct \<Rightarrow> db \<Rightarrow> handler_result) \<Rightarrow> handler_result" where
  "with_store p f =
     rbind p (\<lambda>(ret, out, store, w).
       if out \<noteq> [] then Inr (0, out, w) else if 0 < ret then Inr (ret, out, w) else f store w)"

definition cmdProcessSet :: "string \<Rightarrow> db \<Rightarrow> handler_result" where
  "cmdProcessSet input w =
     with_store (cmdProcessCommon input False False empty_store w)
       (\<lambda>store w.
          rbind (dbInsertElement (st_key store) (st_flags store) (st_casStr store) (st_data store)
                   (st_expTime store) w)
            (\<lambda>(st, w). if st = MEMORY_FULL then Inr (0, reply (st_noreply store) no_memory, w)
                       else Inr (0, reply (st_noreply store) (line ''STORED''), w)))"

definition cmdProcessAdd :: "string \<Rightarrow> db \<Rightarrow> handler_result" where
  "cmdProcessAdd input w =
     with_store (cmdProcessCommon input False False empty_store w)
       (\<lambda>store w.
          rbind (dbAddElement (st_key store) (st_flags store) (st_casStr store) (st_data store)
                   (st_expTime store) w)
            (\<lambda>(st, w). if st = MEMORY_FULL then Inr (0, reply (st_noreply store) no_memory, w)
                       else if st = EXIST then Inr (0, reply (st_noreply store) (line ''NOT_STORED''), w)
                       else Inr (0, reply (st_noreply store) (line ''STORED''), w)))"

text \<open>Local variables for the reference parameters of a look-up.\<close>

definition no_out :: GetOut where
  "no_out = \<lparr>go_flags = [], go_cas = [], go_value = [], go_expiry = 0\<rparr>"

definition cmdProcessReplace :: "string \<Rightarrow> db \<Rightarrow> handler_result" where
  "cmdProcessReplace input w =
     with_store (cmdProcessCommon input False False empty_store w)
       (\<lambda>store w.
          let (st, _, w) = dbGetElement (st_key store) no_out w
          in if st \<noteq> SUCCESS then Inr (0, reply (st_noreply store) (line ''NOT_STORED''), w)
             else rbind (dbInsertElement (st_key store) (st_flags store) (st_casStr store) (st_data store)
                           (st_expTime store) w)
                    (\<lambda>(st, w). if st = MEMORY_FULL then Inr (0, reply (st_noreply store) no_memory, w)
                               else Inr (0, reply (st_noreply store) (line ''STORED''), w)))"

text \<open>
  \<open>append\<close> and \<open>prepend\<close> first try a command line without flags and expiry time; the second
  attempt goes on with the structure the first one left.
\<close>

definition cmdProcessCommonTwice :: "string \<Rightarrow> db \<Rightarrow> (int \<times> string \<times> StorageStruct \<times> db) result" where
  "cmdProcessCommonTwice input w =
     rbind (cmdProcessCommon input False True empty_store w)
       (\<lambda>(ret, out, store, w).
          if out \<noteq> [] then cmdProcessCommon input False False store w else Inr (ret, out, store, w))"

definition cmdProcessAppend :: "string \<Rightarrow> db \<Rightarrow> handler_result" where
  "cmdProcessAppend input w =
     with_store (cmdProcessCommonTwice input w)
       (\<lambda>store w.
          let (st, out, w) = dbGetElement (st_key store)
                \<lparr>go_flags = st_flags store, go_cas = st_casStr store, go_value = [],
                 go_expiry = st_expTime store\<rparr> w
          in if st \<noteq> SUCCESS then Inr (0, reply (st_noreply store) (line ''NOT_STORED''), w)
             else rbind (dbInsertElement (st_key store) (go_flags out) [] (go_value out @ st_data store)
                           (go_expiry out) w)
                    (\<lambda>(st, w). if st = MEMORY_FULL then Inr (0, reply (st_noreply store) no_memory, w)
                               else Inr (0, reply (st_noreply store) (line ''STORED''), w)))"

definition cmdProcessPrepend :: "string \<Rightarrow> db \<Rightarrow> handler_result" where
  "cmdProcessPrepend input w =
     with_store (cmdProcessCommonTwice input w)
       (\<lambda>store w.
          let (st, out, w) = dbGetElement (st_key store)
                \<lparr>go_flags = st_flags store, go_cas = st_casStr store, go_value = [],
                 go_expiry = st_expTime store\<rparr> w
          in if st \<noteq> SUCCESS then Inr (0, reply (st_noreply store) (line ''NOT_STORED''), w)
             else rbind (dbInsertElement (st_key store) (go_flags out) [] (st_data store @ go_value out)
                           (go_expiry out) w)
                    (\<lambda>(st, w). if st = MEMORY_FULL then Inr (0, reply (st_noreply store) no_memory, w)
                               else Inr (0, reply (st_noreply store) (line ''STORED''), w)))"

definition cmdProcessCas :: "string \<Rightarrow> db \<Rightarrow> handler_result" where
  "cmdProcessCas input w =
     with_store (cmdProcessCommon input True False empty_store w)
       (\<lambda>store w.
          rbind (dbInsertElement (st_key store) (st_flags store) (st_casStr store) (st_data store)
                   (st_expTime store) w)
            (\<lambda>(st, w). if st = MEMORY_FULL then Inr (0, reply (st_noreply store) no_memory, w)
                       else if st = EXIST then Inr (0, reply (st_noreply store) (line ''EXISTS''), w)
                       else if st = NOT_EXIST then Inr (0, reply (st_noreply store) (line ''NOT_FOUND''), w)
                       else Inr (0, reply (st_noreply store) (line ''STORED''), w)))"

section \<open>Retrieval\<close>

text \<open>The loop that cuts the command line into keys, with one unit of fuel per key.\<close>

fun getKeys :: "nat \<Rightarrow> string \<Rightarrow> uint \<Rightarrow> uint \<Rightarrow> string list result" where
  "getKeys 0 input nextEndl nextSpace = Inl OutOfFuel"
| "getKeys (Suc n) input nextEndl nextSpace =
     (let start = nextSpace + 1; tempSpace = find_space input start
      in if past_line tempSpace nextEndl
         then rbind (substr input start (nextEndl - start)) (\<lambda>key. Inr [key])
         else rbind (substr input start (tempSpace - start))
                (\<lambda>key. rbind (getKeys n input nextEndl tempSpace) (\<lambda>keys. Inr (key # keys))))"

fun getReplies :: "bool \<Rightarrow> string list \<Rightarrow> db \<Rightarrow> string \<times> db" where
  "getReplies isGets [] w = ([], w)"
| "getReplies isGets (key # keys) w =
     (let (st, out, w) = dbGetElement key no_out w; (rest, w) = getReplies isGets keys w
      in if st \<noteq> SUCCESS then (rest, w)
         else (''VALUE '' @ key @ '' '' @ go_flags out @ '' '' @ decimal (length (go_value out)) @
                 (if isGets then '' '' @ go_cas out else []) @ crlf @ go_value out @ crlf @ rest, w))"

definition cmdProcessGetWith :: "bool \<Rightarrow> string \<Rightarrow> db \<Rightarrow> handler_result" where
  "cmdProcessGetWith isGets input w =
     (let nextSpace = find_space input 0; nextEndl = str_find input crlf 0
      in if past_line nextSpace nextEndl then Inr (0, client_error ''no key found'', w)
         else rbind (getKeys (Suc (length input)) input nextEndl nextSpace)
                (\<lambda>keys. let (out, w) = getReplies isGets keys w in Inr (0, out @ line ''END'', w)))"

definition cmdProcessGet :: "string \<Rightarrow> db \<Rightarrow> handler_result" where
  "cmdProcessGet = cmdProcessGetWith False"

definition cmdProcessGets :: "string \<Rightarrow> db \<Rightarrow> handler_result" where
  "cmdProcessGets = cmdProcessGetWith True"

section \<open>Deletion\<close>

definition cmdProcessDelete :: "string \<Rightarrow> db \<Rightarrow> handler_result" where
  "cmdProcessDelete input w =
     (let nextSpace = find_space input 0; nextEndl = str_find input crlf 0
      in if past_line nextSpace nextEndl then Inr (0, client_error ''key not found'', w)
         else let start = nextSpace + 1; sp = find_space input start;
                  noreply = (\<not> past_line sp nextEndl); tempSpace = (if noreply then sp else nextEndl)
              in rbind (substr input start (tempSpace - start)) (\<lambda>key.
                 rbind (if noreply then substr input (tempSpace + 1) (nextEndl - (tempSpace + 1))
                        else Inr []) (\<lambda>noReplyStr.
                   if noreply \<and> noReplyStr \<noteq> ''noreply'' then Inr (0, client_error ''junk found after key'', w)
                   else let (st, w) = dbDeleteElement key 0 w
                        in if st = NOT_EXIST then Inr (0, reply noreply (line ''NOT_FOUND''), w)
                           else Inr (0, reply noreply (line ''DELETED''), w))))"

section \<open>Arithmetic\<close>

text \<open>
  The command line of \<open>incr\<close>, \<open>decr\<close> and \<open>touch\<close>: a key and a second field, either the error
  reply or both fields, where the second one ends, and whether another field follows.
\<close>

definition parseKeyField :: "string \<Rightarrow> (string + string \<times> string \<times> uint \<times> bool) result" where
  "parseKeyField input =
     (let nextSpace = find_space input 0; nextEndl = str_find input crlf 0
      in if past_line nextSpace nextEndl then Inr (Inl (client_error ''key not found''))
         else let start = nextSpace + 1; tempSpace = find_space input start
              in if past_line tempSpace nextEndl then Inr (Inl (client_error ''value not found''))
                 else rbind (substr input start (tempSpace - start)) (\<lambda>key.
                      let start = tempSpace + 1; sp = find_space input start;
                          third = (\<not> past_line sp nextEndl); tempSpace = (if third then sp else nextEndl)
                      in rbind (substr input start (tempSpace - start))
                           (\<lambda>field. Inr (Inr (key, field, tempSpace, third)))))"

text \<open>A third field other than \<open>noreply\<close> is ignored.\<close>

definition parseNoreply :: "string \<Rightarrow> uint \<Rightarrow> bool \<Rightarrow> bool result" where
  "parseNoreply input tempSpace third =
     (if \<not> third then Inr False
      else rbind (substr input (tempSpace + 1) (str_find input crlf 0 - (tempSpace + 1)))
             (\<lambda>noReplyStr. Inr (noReplyStr = ''noreply'')))"

text \<open>\<open>incr\<close> and \<open>decr\<close> differ in the arithmetic only.\<close>

definition cmdProcessArith :: "(ulong \<Rightarrow> ulong \<Rightarrow> ulong) \<Rightarrow> string \<Rightarrow> db \<Rightarrow> handler_result" where
  "cmdProcessArith calc input w =
     rbind (parseKeyField input) (\<lambda>p. case p of
       Inl err \<Rightarrow> Inr (0, err, w)
     | Inr (key, val, tempSpace, third) \<Rightarrow>
         rbind (parseNoreply input tempSpace third) (\<lambda>noreply.
         let (st, out, w) = dbGetElement key no_out w
         in if st \<noteq> SUCCESS then Inr (0, reply noreply (line ''NOT_FOUND''), w)
            else rbind (stoul val) (\<lambda>inputValue.
                 rbind (stoul (go_value out)) (\<lambda>oldValue.
                   if inputValue = 0 \<and> \<not> noreply
                   then Inr (0, client_error ''invalid format for value'', w)
                   else let storedValue = to_string (calc oldValue inputValue)
                        in rbind (dbInsertElement key (go_flags out) [] storedValue (go_expiry out) w)
                             (\<lambda>(st, w).
                                if st = MEMORY_FULL then Inr (0, reply noreply no_memory, w)
                                else Inr (0, reply noreply (line storedValue), w))))))"

definition cmdProcessIncr :: "string \<Rightarrow> db \<Rightarrow> handler_result" where
  "cmdProcessIncr = cmdProcessArith (\<lambda>oldValue inputValue. inputValue + oldValue)"

definition cmdProcessDecr :: "string \<Rightarrow> db \<Rightarrow> handler_result" where
  "cmdProcessDecr = cmdProcessArith (\<lambda>oldValue inputValue.
     if oldValue \<le> inputValue then 0 else oldValue - inputValue)"

section \<open>Touch\<close>

definition cmdProcessTouch :: "string \<Rightarrow> db \<Rightarrow> handler_result" where
  "cmdProcessTouch input w =
     rbind (parseKeyField input) (\<lambda>p. case p of
       Inl err \<Rightarrow> Inr (0, err, w)
     | Inr (key, expTimeStr, tempSpace, third) \<Rightarrow>
         (case stoul expTimeStr of
            Inl InvalidArgument \<Rightarrow> Inr (0, client_error ''invalid expiry time'', w)
          | Inl e \<Rightarrow> Inl e
          | Inr expTime \<Rightarrow>
              rbind (parseNoreply input tempSpace third) (\<lambda>noreply.
              let (st, out, w) = dbGetElement key no_out w
              in if st \<noteq> SUCCESS then Inr (0, reply noreply (line ''NOT_FOUND''), w)
                 else rbind (dbInsertElement key (go_flags out) (go_cas out) (go_value out) expTime w)
                        (\<lambda>(st, w).
                           if st = MEMORY_FULL then Inr (0, reply noreply no_memory, w)
                           else Inr (0, reply noreply (line ''TOUCHED''), w)))))"

section \<open>Flushing\<close>

definition cmdProcessFlushAll :: "string \<Rightarrow> db \<Rightarrow> handler_result" where
  "cmdProcessFlushAll input w =
     (let nextSpace = find_space input 0; nextEndl = str_find input crlf 0
      in if past_line nextSpace nextEndl then Inr (0, line ''OK'', dbSetFlushAll 0 w)
         else let start = nextSpace + 1; tempSpace = find_space input start
              in if past_line tempSpace nextEndl
                 then rbind (substr input start (nextEndl - start)) (\<lambda>expTimeStr.
                      if expTimeStr = ''noreply'' then Inr (0, [], dbSetFlushAll 0 w)
                      else case stoul expTimeStr of
                             Inl InvalidArgument \<Rightarrow> Inr (0, client_error ''invalid expiry time'', w)
                           | Inl e \<Rightarrow> Inl e
                           | Inr expTime \<Rightarrow> Inr (0, line ''OK'', dbSetFlushAll expTime w))
                 else rbind (substr input start (tempSpace - start)) (\<lambda>expTimeStr.
                      case stoul expTimeStr of
                        Inl InvalidArgument \<Rightarrow> Inr (0, client_error ''invalid expiry time'', w)
                      | Inl e \<Rightarrow> Inl e
                      | Inr expTime \<Rightarrow>
                          rbind (substr input (tempSpace + 1) (nextEndl - (tempSpace + 1))) (\<lambda>noReplyStr.
                            if noReplyStr \<noteq> ''noreply''
                            then Inr (0, client_error ''invalid noreply field'', w)
                            else Inr (0, [], dbSetFlushAll expTime w))))"

section \<open>The other commands\<close>

definition VERSION_STRING :: string where
  "VERSION_STRING = ''VERSION 1.0'' @ crlf"

definition cmdProcessVersion :: "string \<Rightarrow> db \<Rightarrow> handler_result" where
  "cmdProcessVersion input w =
     (if 9 < str_size input then Inr (0, client_error ''version does not accept options'', w)
      else Inr (0, VERSION_STRING, w))"

definition cmdProcessVerbosity :: "string \<Rightarrow> db \<Rightarrow> handler_result" where
  "cmdProcessVerbosity input w =
     (let nextSpace = find_space input 0; nextEndl = str_find input crlf 0
      in if past_line nextSpace nextEndl then Inr (0, client_error ''exp time not found'', w)
         else let start = nextSpace + 1; sp = find_space input start;
                  third = (\<not> past_line sp nextEndl); tempSpace = (if third then sp else nextEndl)
              in rbind (substr input start (tempSpace - start)) (\<lambda>verbStr.
                 case stoul verbStr of
                   Inl InvalidArgument \<Rightarrow> Inr (0, client_error ''invalid expiry time'', w)
                 | Inl e \<Rightarrow> Inl e
                 | Inr verb \<Rightarrow>
                     rbind (parseNoreply input tempSpace third)
                       (\<lambda>noreply. Inr (0, reply noreply (line ''OK''), w))))"

definition cmdProcessQuit :: "string \<Rightarrow> db \<Rightarrow> handler_result" where
  "cmdProcessQuit input w =
     (if 6 < str_size input then Inr (0, client_error ''quit has no options'', w) else Inr (- 1, [], w))"

text \<open>
  Each \<open>output.assign\<close> of \<open>cmdProcessStats\<close> replaces what the one before wrote; the last one
  writes the end marker. The statistics it reads on the way are lost, the clock reading is made.
\<close>

definition cmdProcessStats :: "string \<Rightarrow> db \<Rightarrow> handler_result" where
  "cmdProcessStats input w =
     (if 7 < str_size input then Inr (0, client_error ''quit has no options'', w)
      else Inr (0, line ''END'', tick w))"

section \<open>The dispatcher\<close>

text \<open>The chain of comparisons on the command word, after a pending flush was handled.\<close>

definition cmdDispatch :: "string \<Rightarrow> string \<Rightarrow> db \<Rightarrow> handler_result" where
  "cmdDispatch command input w =
     (if command = ''set'' then cmdProcessSet input w
      else if command = ''add'' then cmdProcessAdd input w
      else if command = ''replace'' then cmdProcessReplace input w
      else if command = ''append'' then cmdProcessAppend input w
      else if command = ''prepend'' then cmdProcessPrepend input w
      else if command = ''cas'' then cmdProcessCas input w
      else if command = ''get'' then cmdProcessGet input w
      else if command = ''gets'' then cmdProcessGets input w
      else if command = ''delete'' then cmdProcessDelete input w
      else if command = ''incr'' then cmdProcessIncr input w
      else if command = ''decr'' then cmdProcessDecr input w
      else if command = ''touch'' then cmdProcessTouch input w
      else if command = ''stats'' then cmdProcessStats input w
      else if command = ''flush_all'' then cmdProcessFlushAll input w
      else if command = ''version'' then cmdProcessVersion input w
      else if command = ''verbosity'' then cmdProcessVerbosity input w
      else if command = ''quit'' then cmdProcessQuit input w
      else Inr (0, line ''ERROR'', w))"

definition cmdProcessCommand :: "string \<Rightarrow> db \<Rightarrow> handler_result" where
  "cmdProcessCommand input w =
     (let sp = find_space input 0; nextSpace = (if sp = npos then str_find input crlf 0 else sp)
      in rbind (substr input 0 nextSpace)
           (\<lambda>command. cmdDispatch command input (dbHandleFlushAll w)))"

end
