(* ===== verification/Sock.thy ===== *)
theory Sock
  imports Cmd
begin

text \<open>
  One connection, \<open>sockHandleIncomingConn\<close> of \<open>ssock.cpp\<close>: the loop that receives bytes,
  cuts them at line ends, hands them to \<open>cmdProcessCommand\<close> and sends the replies.

  The locals of the function are the fields of a record, together with the storage and the
  replies sent so far. What \<open>recv\<close> delivers is an argument: the pieces the stream arrives in,
  and how the last call ends. A reply is one element of \<open>cn_sent\<close> per call of \<open>send\<close>.
  \<open>readMore\<close> is an \<open>int\<close>; it is unbounded here, since leaving the range of the type takes
  two gigabytes without a line end.
\<close>

record conn =
  cn_data :: string
  cn_persistentData :: string
  cn_persistFlag :: bool
  cn_readMore :: int
  cn_pos :: uint
  cn_sent :: "string list"
  cn_db :: db

datatype recv_end = WouldBlock | PeerClosed | RecvFailed

definition start_conn :: "db \<Rightarrow> conn" where
  "start_conn w = \<lparr>cn_data = [], cn_persistentData = [], cn_persistFlag = False, cn_readMore = 0, cn_pos = 0,
     cn_sent = [], cn_db = w\<rparr>"

text \<open>A complete line: hand it over, and send the reply unless more data or the end is asked for.\<close>

definition sockCommand :: "conn \<Rightarrow> (conn \<times> bool option) result" where
  "sockCommand c =
     (if suffix crlf (cn_data c)
      then rbind (cmdProcessCommand (cn_data c) (cn_db c))
             (\<lambda>(r, out, w).
                let c = c\<lparr>cn_readMore := r, cn_db := w\<rparr>
                in if 0 < r then Inr (c, None)
                   else if r < 0 then Inr (c, Some True)
                   else Inr (c\<lparr>cn_data := [], cn_sent := cn_sent c @ [out], cn_pos := 0\<rparr>, None))
      else Inr (c, None))"

text \<open>
  The body of the loop once bytes are appended. It returns whether to close the connection when
  it leaves the loop, and \<open>None\<close> when the loop goes on.
\<close>

definition sockScan :: "conn \<Rightarrow> (conn \<times> bool option) result" where
  "sockScan c =
     (let oldPos = cn_pos c + 2; pos = str_find (cn_data c) crlf oldPos
      in if pos = npos then Inr (c\<lparr>cn_pos := oldPos - 2\<rparr>, None)
         else let c = c\<lparr>cn_pos := pos, cn_data := take (unat (pos + 2)) (cn_data c),
                        cn_persistentData := drop (unat (pos + 2)) (cn_data c)\<rparr>;
                  c = (if cn_persistFlag c
                       then c\<lparr>cn_readMore := cn_readMore c - int (unat (pos - oldPos + 2)), cn_persistFlag := False\<rparr>
                       else c)
              in if 0 < cn_readMore c then Inr (c, None) else sockCommand c)"

fun sockLoop :: "nat \<Rightarrow> string list \<Rightarrow> recv_end \<Rightarrow> conn \<Rightarrow> (conn \<times> bool) result" where
  "sockLoop 0 chunks e c = Inl OutOfFuel"
| "sockLoop (Suc n) chunks e c =
     (if cn_persistentData c \<noteq> []
      then rbind (sockScan (c\<lparr>cn_persistFlag := True, cn_data := cn_data c @ cn_persistentData c,
                             cn_persistentData := []\<rparr>))
             (\<lambda>(c, stop). case stop of None \<Rightarrow> sockLoop n chunks e c | Some closing \<Rightarrow> Inr (c, closing))
      else case chunks of
             [] \<Rightarrow> Inr (c, e \<noteq> WouldBlock)
           | chunk # chunks \<Rightarrow>
               if chunk = [] then Inr (c, True)
               else rbind (sockScan (c\<lparr>cn_data := cn_data c @ chunk,
                                      cn_readMore := cn_readMore c - int (length chunk)\<rparr>))
                      (\<lambda>(c, stop). case stop of None \<Rightarrow> sockLoop n chunks e c
                                   | Some closing \<Rightarrow> Inr (c, closing)))"

text \<open>Every round takes at least one byte out of what is received or put aside.\<close>

definition sockHandleIncomingConn :: "string list \<Rightarrow> recv_end \<Rightarrow> db \<Rightarrow> (conn \<times> bool) result" where
  "sockHandleIncomingConn chunks e w = sockLoop (Suc (length (concat chunks))) chunks e (start_conn w)"

end
