(* ===== verification/DbLruInv.thy ===== *)
theory DbLruInv
  imports DbLru
begin

text \<open>
  The invariant of the storage and its preservation. A table is well formed when its eviction
  order is strictly ascending, every timestamp lies below the counter, every key lives in the
  table its hash names, and every stored key can be found by eviction. Every operation of
  \<open>dblru.cpp\<close> keeps all tables well formed as long as the timestamp counter does not wrap.
\<close>

definition table_wf :: "ulong \<Rightarrow> uint \<Rightarrow> TimestampToKeyType \<Rightarrow> KeyToValueType \<Rightarrow> bool" where
  "table_wf T h s m \<longleftrightarrow>
     ts_sorted s \<and>
     (\<forall>e \<in> set s. tk_timestamp e < T \<and> getHashTblNbrFromKey (tk_key e) = h) \<and>
     (\<forall>k it. m k = Some it \<longrightarrow>
        getTimestampFromMap it < T \<and> getHashTblNbrFromKey k = h \<and>
        (\<exists>e \<in> set s. tk_key e = k) \<and>
        (\<forall>e \<in> set s. tk_timestamp e = getTimestampFromMap it \<longrightarrow> tk_key e = k))"

definition db_wf_at :: "ulong \<Rightarrow> db \<Rightarrow> bool" where
  "db_wf_at T w \<longleftrightarrow>
     (\<forall>h. table_wf T h (gTimestampToKeySet w h) (gKeyToValueHashMap w h)) \<and>
     gFlushAllTimestamp w \<le> T \<and>
     (\<forall>g. casGenerator w = Some g \<longrightarrow> mt_wf g)"

definition db_wf :: "db \<Rightarrow> bool" where
  "db_wf w \<longleftrightarrow> db_wf_at (gTimestamp w) w"

text \<open>
  What eviction leaves alone: the counters other than the stored size, the configuration and
  the environment; hash maps lose entries and eviction orders lose entries, nothing is changed
  or added.
\<close>

definition shrinks :: "db \<Rightarrow> db \<Rightarrow> bool" where
  "shrinks w w' \<longleftrightarrow>
     gTimestamp w' = gTimestamp w \<and> gFlushAllTimestamp w' = gFlushAllTimestamp w \<and>
     gFlushAllTime w' = gFlushAllTime w \<and> gIsFlushAllSet w' = gIsFlushAllSet w \<and>
     casGenerator w' = casGenerator w \<and> gServMemLimit w' = gServMemLimit w \<and>
     sysClock w' = sysClock w \<and> badAlloc w' = badAlloc w \<and> clockReads w \<le> clockReads w' \<and>
     (\<forall>h. gKeyToValueHashMap w' h \<subseteq>\<^sub>m gKeyToValueHashMap w h) \<and>
     (\<forall>h. set (gTimestampToKeySet w' h) \<subseteq> set (gTimestampToKeySet w h))"

section \<open>Reading and writing\<close>

lemmas get_defs = getValueFromMap_def getExpiryFromMap_def getCasFromMap_def getFlagsFromMap_def
  getTimestampFromMap_def

lemmas set_defs = setValueToMap_def setCasToMap_def setFlagsToMap_def setExpiryToMap_def
  setTimestampToMap_def

lemmas write_defs = kv_put_def kv_erase_def ts_update_def stored_sub_def stored_add_def tick_def

lemma tick_simps [simp]:
  "gTimestampToKeySet (tick w) = gTimestampToKeySet w"
  "gKeyToValueHashMap (tick w) = gKeyToValueHashMap w"
  "gStoredSize (tick w) = gStoredSize w"
  "gTimestamp (tick w) = gTimestamp w"
  "gFlushAllTimestamp (tick w) = gFlushAllTimestamp w"
  "gFlushAllTime (tick w) = gFlushAllTime w"
  "gIsFlushAllSet (tick w) = gIsFlushAllSet w"
  "casGenerator (tick w) = casGenerator w"
  "gServMemLimit (tick w) = gServMemLimit w"
  "sysClock (tick w) = sysClock w"
  "clockReads (tick w) = Suc (clockReads w)"
  "badAlloc (tick w) = badAlloc w"
  by (simp_all add: write_defs)

lemma kv_put_simps [simp]:
  "gTimestampToKeySet (kv_put h key it w) = gTimestampToKeySet w"
  "gKeyToValueHashMap (kv_put h key it w) = (gKeyToValueHashMap w)(h := (gKeyToValueHashMap w h)(key \<mapsto> it))"
  "gStoredSize (kv_put h key it w) = gStoredSize w"
  "gTimestamp (kv_put h key it w) = gTimestamp w"
  "gFlushAllTimestamp (kv_put h key it w) = gFlushAllTimestamp w"
  "gFlushAllTime (kv_put h key it w) = gFlushAllTime w"
  "gIsFlushAllSet (kv_put h key it w) = gIsFlushAllSet w"
  "casGenerator (kv_put h key it w) = casGenerator w"
  "gServMemLimit (kv_put h key it w) = gServMemLimit w"
  "sysClock (kv_put h key it w) = sysClock w"
  "clockReads (kv_put h key it w) = clockReads w"
  "badAlloc (kv_put h key it w) = badAlloc w"
  by (simp_all add: write_defs)

lemma kv_erase_simps [simp]:
  "gTimestampToKeySet (kv_erase h key w) = gTimestampToKeySet w"
  "gKeyToValueHashMap (kv_erase h key w) = (gKeyToValueHashMap w)(h := (gKeyToValueHashMap w h)(key := None))"
  "gStoredSize (kv_erase h key w) = gStoredSize w"
  "gTimestamp (kv_erase h key w) = gTimestamp w"
  "gFlushAllTimestamp (kv_erase h key w) = gFlushAllTimestamp w"
  "gFlushAllTime (kv_erase h key w) = gFlushAllTime w"
  "gIsFlushAllSet (kv_erase h key w) = gIsFlushAllSet w"
  "casGenerator (kv_erase h key w) = casGenerator w"
  "gServMemLimit (kv_erase h key w) = gServMemLimit w"
  "sysClock (kv_erase h key w) = sysClock w"
  "clockReads (kv_erase h key w) = clockReads w"
  "badAlloc (kv_erase h key w) = badAlloc w"
  by (simp_all add: write_defs)

lemma ts_update_simps [simp]:
  "gTimestampToKeySet (ts_update h f w) = (gTimestampToKeySet w)(h := f (gTimestampToKeySet w h))"
  "gKeyToValueHashMap (ts_update h f w) = gKeyToValueHashMap w"
  "gStoredSize (ts_update h f w) = gStoredSize w"
  "gTimestamp (ts_update h f w) = gTimestamp w"
  "gFlushAllTimestamp (ts_update h f w) = gFlushAllTimestamp w"
  "gFlushAllTime (ts_update h f w) = gFlushAllTime w"
  "gIsFlushAllSet (ts_update h f w) = gIsFlushAllSet w"
  "casGenerator (ts_update h f w) = casGenerator w"
  "gServMemLimit (ts_update h f w) = gServMemLimit w"
  "sysClock (ts_update h f w) = sysClock w"
  "clockReads (ts_update h f w) = clockReads w"
  "badAlloc (ts_update h f w) = badAlloc w"
  by (simp_all add: write_defs)

lemma stored_sub_simps [simp]:
  "gTimestampToKeySet (stored_sub n w) = gTimestampToKeySet w"
  "gKeyToValueHashMap (stored_sub n w) = gKeyToValueHashMap w"
  "gStoredSize (stored_sub n w) = gStoredSize w - n"
  "gTimestamp (stored_sub n w) = gTimestamp w"
  "gFlushAllTimestamp (stored_sub n w) = gFlushAllTimestamp w"
  "gFlushAllTime (stored_sub n w) = gFlushAllTime w"
  "gIsFlushAllSet (stored_sub n w) = gIsFlushAllSet w"
  "casGenerator (stored_sub n w) = casGenerator w"
  "gServMemLimit (stored_sub n w) = gServMemLimit w"
  "sysClock (stored_sub n w) = sysClock w"
  "clockReads (stored_sub n w) = clockReads w"
  "badAlloc (stored_sub n w) = badAlloc w"
  by (simp_all add: write_defs)

lemma stored_add_simps [simp]:
  "gTimestampToKeySet (stored_add n w) = gTimestampToKeySet w"
  "gKeyToValueHashMap (stored_add n w) = gKeyToValueHashMap w"
  "gStoredSize (stored_add n w) = gStoredSize w + n"
  "gTimestamp (stored_add n w) = gTimestamp w"
  "gFlushAllTimestamp (stored_add n w) = gFlushAllTimestamp w"
  "gFlushAllTime (stored_add n w) = gFlushAllTime w"
  "gIsFlushAllSet (stored_add n w) = gIsFlushAllSet w"
  "casGenerator (stored_add n w) = casGenerator w"
  "gServMemLimit (stored_add n w) = gServMemLimit w"
  "sysClock (stored_add n w) = sysClock w"
  "clockReads (stored_add n w) = clockReads w"
  "badAlloc (stored_add n w) = badAlloc w"
  by (simp_all add: write_defs)

lemma overwrite_entry_simps [simp]:
  "getTimestampFromMap (overwrite_entry e vs it) = getTimestampFromMap it"
  "getExpiryFromMap (overwrite_entry e vs it) = e"
  "getValueFromMap (overwrite_entry e vs it) = vs_value vs"
  "getFlagsFromMap (overwrite_entry e vs it) = vs_flags vs"
  "getCasFromMap (overwrite_entry e vs it) = vs_casUniq vs"
  by (simp_all add: overwrite_entry_def set_defs get_defs)

lemma setTimestampToMap_simps [simp]:
  "getTimestampFromMap (setTimestampToMap t it) = t"
  "getExpiryFromMap (setTimestampToMap t it) = getExpiryFromMap it"
  "getValueFromMap (setTimestampToMap t it) = getValueFromMap it"
  "getFlagsFromMap (setTimestampToMap t it) = getFlagsFromMap it"
  "getCasFromMap (setTimestampToMap t it) = getCasFromMap it"
  by (simp_all add: set_defs get_defs)

section \<open>Tables\<close>

lemma table_wf_empty [simp]: "table_wf T h [] Map.empty"
  by (simp add: table_wf_def)

lemma less_plus_one: "T \<noteq> - 1 \<Longrightarrow> x \<le> T \<Longrightarrow> x < T + (1 :: 32 word)"
  by (metis add.commute inc_le inc_less_eq_iff less_minus_one_simps linorder_not_less word_order.not_eq_extremum)

lemma table_wf_mono: "table_wf T h s m \<Longrightarrow> T \<le> T' \<Longrightarrow> table_wf T' h s m"
  unfolding table_wf_def using order.strict_trans2 by blast

lemma table_wf_erase_key: "table_wf T h s m \<Longrightarrow> table_wf T h s (m(k := None))"
  by (simp add: table_wf_def)

text \<open>An entry of the order may go once its key is gone from the map.\<close>

lemma in_erase_at: "e \<in> set s \<Longrightarrow> i < length s \<Longrightarrow> e \<noteq> s ! i \<Longrightarrow> e \<in> set (oset_erase_at i s)"
  by (metis Un_iff append_take_drop_id Cons_nth_drop_Suc oset_erase_at_def set_ConsD set_append)

lemma table_wf_erase_at:
  assumes wf: "table_wf T h s m" and i: "i < length s" and gone: "m (tk_key (s ! i)) = None"
  shows "table_wf T h (oset_erase_at i s) m"
proof -
  have "\<exists>e \<in> set (oset_erase_at i s). tk_key e = k" if "m k = Some it" for k it
  proof -
    from wf that obtain e where "e \<in> set s" "tk_key e = k" unfolding table_wf_def by blast
    moreover with that gone have "e \<noteq> s ! i" by auto
    ultimately show ?thesis using in_erase_at [OF _ i] by blast
  qed
  with wf set_oset_erase_at [of i s] show ?thesis
    unfolding table_wf_def by (auto simp: subset_iff)
qed

lemma table_wfI:
  assumes "ts_sorted s"
    and "\<And>e. e \<in> set s \<Longrightarrow> tk_timestamp e < T \<and> getHashTblNbrFromKey (tk_key e) = h"
    and "\<And>k it. m k = Some it \<Longrightarrow> getTimestampFromMap it < T \<and> getHashTblNbrFromKey k = h"
    and "\<And>k it. m k = Some it \<Longrightarrow> \<exists>e \<in> set s. tk_key e = k"
    and "\<And>k it e. m k = Some it \<Longrightarrow> e \<in> set s \<Longrightarrow> tk_timestamp e = getTimestampFromMap it \<Longrightarrow> tk_key e = k"
  shows "table_wf T h s m"
  unfolding table_wf_def using assms by blast

lemma table_wf_sorted: "table_wf T h s m \<Longrightarrow> ts_sorted s"
  by (simp add: table_wf_def)

lemma table_wf_order:
  "table_wf T h s m \<Longrightarrow> e \<in> set s \<Longrightarrow> tk_timestamp e < T \<and> getHashTblNbrFromKey (tk_key e) = h"
  by (simp add: table_wf_def)

lemma table_wf_map:
  "table_wf T h s m \<Longrightarrow> m k = Some it \<Longrightarrow> getTimestampFromMap it < T \<and> getHashTblNbrFromKey k = h"
  unfolding table_wf_def by blast

lemma table_wf_evictable:
  "table_wf T h s m \<Longrightarrow> m k = Some it \<Longrightarrow> \<exists>e \<in> set s. tk_key e = k"
  unfolding table_wf_def by blast

lemma table_wf_own:
  "table_wf T h s m \<Longrightarrow> m k = Some it \<Longrightarrow> e \<in> set s \<Longrightarrow>
   tk_timestamp e = getTimestampFromMap it \<Longrightarrow> tk_key e = k"
  unfolding table_wf_def by blast

lemmas table_wfD = table_wf_sorted table_wf_order table_wf_map table_wf_evictable table_wf_own

lemma table_wf_insert_new:
  assumes wf: "table_wf T h s m" and h: "getHashTblNbrFromKey k = h" and T: "T \<noteq> - 1"
  shows "table_wf (T + 1) h (ts_insert \<lparr>tk_timestamp = T, tk_key = k\<rparr> s) (m(k \<mapsto> (vs, T)))"
    (is "table_wf _ _ ?s ?m")
proof (rule table_wfI)
  note up = less_plus_one [OF T]
  have set: "set ?s = insert \<lparr>tk_timestamp = T, tk_key = k\<rparr> (set s)"
    using table_wf_order [OF wf] by (intro set_ts_insert) auto
  show "ts_sorted ?s" using wf by (simp add: table_wf_sorted)
  show "tk_timestamp e < T + 1 \<and> getHashTblNbrFromKey (tk_key e) = h" if "e \<in> set ?s" for e
    using that h up table_wf_order [OF wf, of e] unfolding set by auto
  fix k' it assume it: "?m k' = Some it"
  show "getTimestampFromMap it < T + 1 \<and> getHashTblNbrFromKey k' = h"
    using it h up table_wf_map [OF wf, of k' it]
    by (auto simp: getTimestampFromMap_def split: if_splits)
  show "\<exists>e \<in> set ?s. tk_key e = k'"
    using it table_wf_evictable [OF wf, of k'] unfolding set by (auto split: if_splits)
  show "tk_key e = k'" if "e \<in> set ?s" "tk_timestamp e = getTimestampFromMap it" for e
    using it that table_wf_own [OF wf, of k' it e] table_wf_map [OF wf, of k' it]
      table_wf_order [OF wf, of e] unfolding set
    by (auto simp: getTimestampFromMap_def split: if_splits)
qed

text \<open>
  A write to a stored key: its entry leaves the order under the old timestamp and returns under
  the counter's value, whether or not the map entry takes the new timestamp.
\<close>

lemma table_wf_refresh:
  assumes wf: "table_wf T h s m" and it: "m k = Some it" and T: "T \<noteq> - 1"
    and it': "getTimestampFromMap it' = getTimestampFromMap it \<or> getTimestampFromMap it' = T"
  shows "table_wf (T + 1) h
           (ts_insert \<lparr>tk_timestamp = T, tk_key = k\<rparr>
              (ts_erase \<lparr>tk_timestamp = getTimestampFromMap it, tk_key = k\<rparr> s)) (m(k \<mapsto> it'))"
    (is "table_wf _ _ ?s ?m")
proof (rule table_wfI)
  note up = less_plus_one [OF T] and old = table_wf_map [OF wf it]
  have set: "set ?s = insert \<lparr>tk_timestamp = T, tk_key = k\<rparr>
      {e \<in> set s. tk_timestamp e \<noteq> getTimestampFromMap it}"
    using table_wf_order [OF wf] table_wf_sorted [OF wf]
    by (subst set_ts_insert) (auto simp: set_ts_erase)
  show "ts_sorted ?s" using wf by (simp add: table_wf_sorted)
  show "tk_timestamp e < T + 1 \<and> getHashTblNbrFromKey (tk_key e) = h" if "e \<in> set ?s" for e
    using that old up table_wf_order [OF wf, of e] unfolding set by auto
  fix k' i assume i: "?m k' = Some i"
  show "getTimestampFromMap i < T + 1 \<and> getHashTblNbrFromKey k' = h"
    using i it' old up table_wf_map [OF wf, of k' i] by (auto split: if_splits)
  show "\<exists>e \<in> set ?s. tk_key e = k'"
  proof (cases "k' = k")
    case False
    with i obtain e where "e \<in> set s" "tk_key e = k'"
      using table_wf_evictable [OF wf, of k'] by auto
    then show ?thesis using False table_wf_own [OF wf it, of e] unfolding set by auto
  qed (simp add: set)
  show "tk_key e = k'" if e: "e \<in> set ?s" "tk_timestamp e = getTimestampFromMap i" for e
  proof (cases "k' = k")
    case True
    with i e it' show ?thesis using table_wf_order [OF wf, of e] unfolding set by auto
  next
    case False
    with i e show ?thesis
      using table_wf_own [OF wf, of k' i e] table_wf_map [OF wf, of k' i] unfolding set by auto
  qed
qed

section \<open>Eviction\<close>

text \<open>
  Eviction removes one entry of the order, at position 0 or 1: an entry whose key is gone, or an
  entry together with its value.
\<close>

lemma lru_section_cases:
  assumes "lru_section cur h w = Inr w'"
  obtains (gone) i where "i \<le> 1" "i < length (gTimestampToKeySet w h)"
      "gKeyToValueHashMap w h (tk_key (gTimestampToKeySet w h ! i)) = None"
      "w' = ts_update h (oset_erase_at i)
              (stored_sub (str_size (tk_key (gTimestampToKeySet w h ! i)) + sizeof_ulong) w)"
  | (evicted) i it where "i \<le> 1" "i < length (gTimestampToKeySet w h)"
      "gKeyToValueHashMap w h (tk_key (gTimestampToKeySet w h ! i)) = Some it"
      "w' = evict_entry h i (tk_key (gTimestampToKeySet w h ! i)) it w"
proof -
  let ?key = "\<lambda>i. tk_key (gTimestampToKeySet w h ! i)"
  let ?m = "gKeyToValueHashMap w h"
  have "(\<exists>i \<le> 1. i < length (gTimestampToKeySet w h) \<and> ?m (?key i) = None \<and>
           w' = ts_update h (oset_erase_at i) (stored_sub (str_size (?key i) + sizeof_ulong) w)) \<or>
        (\<exists>i \<le> 1. \<exists>it. i < length (gTimestampToKeySet w h) \<and> ?m (?key i) = Some it \<and>
           w' = evict_entry h i (?key i) it w)"
  proof (cases "gTimestampToKeySet w h")
    case Nil
    with assms show ?thesis by (simp add: lru_section_def Let_def)
  next
    case (Cons e es)
    show ?thesis
    proof (cases es)
      case Nil
      with Cons assms show ?thesis
        by (auto simp: lru_section_def Let_def split: option.splits if_splits)
    next
      case (Cons e2 es2)
      with \<open>gTimestampToKeySet w h = e # es\<close> assms show ?thesis
        by (auto simp: lru_section_def Let_def split: option.splits if_splits
            intro: exI [of _ "0::nat"] exI [of _ "1::nat"])
    qed
  qed
  then show ?thesis using gone evicted by blast
qed

lemma removeLRUElement_cases:
  assumes "removeLRUElement h w = Inr w'"
  obtains (gone) i where "i \<le> 1" "i < length (gTimestampToKeySet w h)"
      "gKeyToValueHashMap w h (tk_key (gTimestampToKeySet w h ! i)) = None"
      "w' = ts_update h (oset_erase_at i)
              (stored_sub (str_size (tk_key (gTimestampToKeySet w h ! i)) + sizeof_ulong) (tick w))"
  | (evicted) i it where "i \<le> 1" "i < length (gTimestampToKeySet w h)"
      "gKeyToValueHashMap w h (tk_key (gTimestampToKeySet w h ! i)) = Some it"
      "w' = evict_entry h i (tk_key (gTimestampToKeySet w h ! i)) it (tick w)"
proof (cases rule: lru_section_cases [OF assms [unfolded removeLRUElement_def]])
  case (1 i)
  then show ?thesis using gone [of i] by (simp add: tick_def)
next
  case (2 i it)
  then show ?thesis using evicted [of i it] by (simp add: tick_def)
qed

lemma shrinks_refl [simp]: "shrinks w w"
  by (simp add: shrinks_def)

lemma shrinks_trans: "shrinks a b \<Longrightarrow> shrinks b c \<Longrightarrow> shrinks a c"
  unfolding shrinks_def by (metis map_le_trans order_trans)

lemma map_le_erase [simp]: "m(k := None) \<subseteq>\<^sub>m m"
  by (simp add: map_le_def)

lemma removeLRUElement_shrinks: "removeLRUElement h w = Inr w' \<Longrightarrow> shrinks w w'"
  by (elim removeLRUElement_cases)
    (auto simp: shrinks_def evict_entry_def write_defs dest: set_oset_erase_at [THEN subsetD])

lemma db_wf_table:
  "db_wf_at T w \<Longrightarrow> table_wf T h (gTimestampToKeySet w h) (gKeyToValueHashMap w h)"
  by (simp add: db_wf_at_def)

lemma removeLRUElement_wf:
  assumes "removeLRUElement h w = Inr w'" and wf: "db_wf_at T w"
  shows "db_wf_at T w'"
  using assms(1)
proof (cases rule: removeLRUElement_cases)
  case (gone i)
  then have "table_wf T h (oset_erase_at i (gTimestampToKeySet w h)) (gKeyToValueHashMap w h)"
    using db_wf_table [OF wf] by (intro table_wf_erase_at)
  with wf gone show ?thesis by (simp add: db_wf_at_def write_defs)
next
  case (evicted i it)
  then have "table_wf T h (oset_erase_at i (gTimestampToKeySet w h))
      ((gKeyToValueHashMap w h)(tk_key (gTimestampToKeySet w h ! i) := None))"
    using db_wf_table [OF wf] by (intro table_wf_erase_at table_wf_erase_key) auto
  with wf evicted show ?thesis by (simp add: db_wf_at_def write_defs evict_entry_def)
qed

lemma removeLRUElement_order:
  assumes "removeLRUElement h w = Inr w'"
  shows "length (gTimestampToKeySet w h) = Suc (length (gTimestampToKeySet w' h))"
    and "h' \<noteq> h \<Longrightarrow> gTimestampToKeySet w' h' = gTimestampToKeySet w h'"
  using assms by (auto elim!: removeLRUElement_cases simp: evict_entry_def write_defs)

section \<open>The loops that make room\<close>

lemma mem_hash_tables: "h \<in> set hash_tables \<longleftrightarrow> h < DB_MAX_HASH_TABLES"
proof
  assume "h < DB_MAX_HASH_TABLES"
  then have "unat h \<in> set [0..<10]" by (simp add: DB_MAX_HASH_TABLES_def word_less_nat_alt)
  moreover have "set hash_tables = of_nat ` set [0..<10]" by (simp add: hash_tables_def upt_rec)
  moreover have "h = of_nat (unat h)" by simp
  ultimately show "h \<in> set hash_tables" by (metis imageI)
qed (auto simp: hash_tables_def DB_MAX_HASH_TABLES_def)

lemma hash_tables_distinct: "distinct hash_tables"
  by (simp add: hash_tables_def)

lemma getHashTblNbrFromKey_bound: "getHashTblNbrFromKey key < DB_MAX_HASH_TABLES"
  by (simp add: getHashTblNbrFromKey_def DB_MAX_HASH_TABLES_def Let_def word_mod_less_divisor)

lemma next_table_bound: "h < DB_MAX_HASH_TABLES \<Longrightarrow> next_table h < DB_MAX_HASH_TABLES"
proof -
  assume "h < DB_MAX_HASH_TABLES"
  then have "h \<in> set hash_tables" by (simp add: mem_hash_tables)
  then show ?thesis by (auto simp: hash_tables_def next_table_def DB_MAX_HASH_TABLES_def)
qed

text \<open>An eviction lowers the number of entries by one.\<close>

lemma sum_list_map_cong_update:
  fixes f g :: "uint \<Rightarrow> nat"
  assumes "distinct xs" and "x \<in> set xs" and "f x = Suc (g x)" and "\<And>y. y \<noteq> x \<Longrightarrow> f y = g y"
  shows "sum_list (map f xs) = Suc (sum_list (map g xs))"
  using assms(1,2)
proof (induction xs)
  case (Cons y ys)
  show ?case
  proof (cases "y = x")
    case True
    have "f z = g z" if "z \<in> set ys" for z
      using that True Cons.prems assms(4) [of z] by auto
    then have "sum_list (map f ys) = sum_list (map g ys)" by (simp cong: map_cong)
    with True assms(3) show ?thesis by simp
  next
    case False
    with Cons assms(4) show ?thesis by auto
  qed
qed simp

lemma removeLRUElement_entries:
  assumes "removeLRUElement h w = Inr w'" and "h < DB_MAX_HASH_TABLES"
  shows "order_entries w = Suc (order_entries w')"
  unfolding order_entries_def
  using removeLRUElement_order [OF assms(1)] assms(2) hash_tables_distinct
  by (intro sum_list_map_cong_update [where x = h]) (auto simp: mem_hash_tables)

text \<open>The number of moves from a table to the next that are left before the loop gives up.\<close>

definition table_dist :: "uint \<Rightarrow> uint \<Rightarrow> nat" where
  "table_dist orig h = (if h < orig then unat orig - unat h else 10 + unat orig - unat h)"

lemma table_dist_start: "table_dist h h = 10"
  by (simp add: table_dist_def)

lemma table_dist_next:
  assumes "orig < DB_MAX_HASH_TABLES" and "h < DB_MAX_HASH_TABLES" and "next_table h \<noteq> orig"
  shows "Suc (table_dist orig (next_table h)) = table_dist orig h"
proof -
  from assms(1,2) have "orig \<in> set hash_tables" "h \<in> set hash_tables" by (simp_all add: mem_hash_tables)
  with assms(3) show ?thesis
    by (auto simp: hash_tables_def next_table_def DB_MAX_HASH_TABLES_def table_dist_def)
qed

text \<open>Moving to the next table costs one unit of distance, evicting costs one entry.\<close>

lemma insertEvictLoop_fuel:
  assumes "orig < DB_MAX_HASH_TABLES" and "h < DB_MAX_HASH_TABLES"
    and "order_entries w + table_dist orig h < n"
  shows "insertEvictLoop n need orig h w \<noteq> Inl OutOfFuel"
  using assms
proof (induction n arbitrary: h w)
  case (Suc n)
  show ?case
  proof (cases "gTimestampToKeySet w h = []")
    case True
    show ?thesis
    proof (cases "orig = next_table h")
      case False
      with Suc.prems have "order_entries w + table_dist orig (next_table h) < n"
        using table_dist_next [of orig h] by auto
      with Suc True show ?thesis using next_table_bound by simp
    qed (use True in simp)
  next
    case False
    have step: "insertEvictLoop n need orig h w' \<noteq> Inl OutOfFuel"
      if "removeLRUElement h w = Inr w'" for w'
      using Suc.prems removeLRUElement_entries [OF that] by (intro Suc.IH) auto
    have "removeLRUElement h w \<noteq> Inl OutOfFuel"
      by (auto simp: removeLRUElement_def lru_section_def Let_def split: lru_scan.splits option.splits)
    with False step show ?thesis by (auto simp: rbind_eq_Inl)
  qed
qed simp

lemma addEvictLoop_fuel:
  assumes "orig < DB_MAX_HASH_TABLES" and "h < DB_MAX_HASH_TABLES" and "order_entries w < n"
  shows "addEvictLoop n need orig h w \<noteq> Inl OutOfFuel"
  using assms
proof (induction n arbitrary: h w)
  case (Suc n)
  let ?h = "if gTimestampToKeySet w h = [] then next_table h else h"
  have h: "?h < DB_MAX_HASH_TABLES" using Suc.prems next_table_bound by simp
  have step: "addEvictLoop n need orig ?h w' \<noteq> Inl OutOfFuel"
    if "removeLRUElement ?h w = Inr w'" for w'
    using Suc.prems removeLRUElement_entries [OF that h] h by (intro Suc.IH) auto
  have "removeLRUElement ?h w \<noteq> Inl OutOfFuel"
    by (auto simp: removeLRUElement_def lru_section_def Let_def split: lru_scan.splits option.splits)
  with step show ?case by (auto simp: rbind_eq_Inl Let_def)
qed simp

text \<open>Eviction as the operations see it: entries may be lost, the invariant is not.\<close>

definition evicts :: "db \<Rightarrow> db \<Rightarrow> bool" where
  "evicts w w' \<longleftrightarrow> shrinks w w' \<and> (\<forall>T. db_wf_at T w \<longrightarrow> db_wf_at T w')"

lemma evicts_refl [simp]: "evicts w w"
  by (simp add: evicts_def)

lemma evicts_step: "removeLRUElement h w = Inr a \<Longrightarrow> evicts a w' \<Longrightarrow> evicts w w'"
  unfolding evicts_def using removeLRUElement_shrinks removeLRUElement_wf shrinks_trans by blast

lemma insertEvictLoop_keeps:
  "insertEvictLoop n need orig h w = Inr (fits, w') \<Longrightarrow>
   evicts w w' \<and> (fits \<longrightarrow> gStoredSize w' + need < gServMemLimit w')"
proof (induction n arbitrary: h w)
  case (Suc n)
  then show ?case by (auto simp: rbind_eq_Inr split: if_splits intro: evicts_step)
qed simp

lemma addEvictLoop_keeps:
  "addEvictLoop n need orig h w = Inr (fits, w') \<Longrightarrow>
   evicts w w' \<and> (fits \<longrightarrow> gStoredSize w' + need < gServMemLimit w')"
proof (induction n arbitrary: h w)
  case (Suc n)
  then show ?case by (auto simp: rbind_eq_Inr Let_def split: if_splits intro: evicts_step)
qed simp

section \<open>Operations keep the invariant\<close>

lemma initial_db_wf: "db_wf (initial_db clk)"
  by (simp add: db_wf_def db_wf_at_def initial_db_def)

lemma dbSetFlushAll_wf: "db_wf w \<Longrightarrow> db_wf (dbSetFlushAll expiry w)"
  by (simp add: db_wf_def db_wf_at_def dbSetFlushAll_def tick_def)

lemma dbHandleFlushAll_wf: "db_wf w \<Longrightarrow> gTimestamp w \<noteq> - 1 \<Longrightarrow> db_wf (dbHandleFlushAll w)"
  using less_plus_one [of "gTimestamp w" "gTimestamp w"]
  by (auto simp: db_wf_def db_wf_at_def dbHandleFlushAll_def tick_def Let_def intro: table_wf_mono)

text \<open>A change of a stored value alone keeps its table well formed.\<close>

lemma table_wf_put:
  assumes wf: "table_wf T h s m" and it: "m k = Some it"
    and it': "getTimestampFromMap it' = getTimestampFromMap it"
  shows "table_wf T h s (m(k \<mapsto> it'))"
proof (rule table_wfI)
  fix k' i assume i: "(m(k \<mapsto> it')) k' = Some i"
  then obtain i0 where i0: "m k' = Some i0" "getTimestampFromMap i = getTimestampFromMap i0"
    using it it' by (cases "k' = k") auto
  with wf show "getTimestampFromMap i < T \<and> getHashTblNbrFromKey k' = h" "\<exists>e \<in> set s. tk_key e = k'"
    by (auto dest: table_wf_map table_wf_evictable)
  show "tk_key e = k'" if "e \<in> set s" "tk_timestamp e = getTimestampFromMap i" for e
    using table_wf_own [OF wf i0(1)] i0(2) that by simp
qed (use wf in \<open>auto dest: table_wf_sorted table_wf_order\<close>)

lemma dbDeleteElement_wf:
  assumes "db_wf w"
  shows "db_wf (snd (dbDeleteElement key expiry w))"
proof -
  let ?h = "getHashTblNbrFromKey key"
  have tab: "table_wf (gTimestamp w) ?h (gTimestampToKeySet w ?h) (gKeyToValueHashMap w ?h)"
    using assms by (auto simp: db_wf_def intro: db_wf_table)
  have erase: "db_wf (kv_erase ?h key (tick w))"
    using assms table_wf_erase_key [OF tab] by (simp add: db_wf_def db_wf_at_def write_defs)
  have put: "db_wf (kv_put ?h key (setExpiryToMap e it) (tick w))"
    if "gKeyToValueHashMap w ?h key = Some it" for e it
    using assms table_wf_put [OF tab that] by (simp add: db_wf_def db_wf_at_def write_defs set_defs get_defs)
  have "db_wf (tick w)" using assms by (simp add: db_wf_def db_wf_at_def tick_def)
  with erase put show ?thesis
    by (auto simp: dbDeleteElement_def Let_def split: option.splits)
qed

text \<open>An update of the table of one key under the next counter value.\<close>

lemma db_wf_update:
  assumes "db_wf_at T w" and "T \<noteq> - 1" and "gTimestamp w' = T + 1"
    and "gFlushAllTimestamp w' = gFlushAllTimestamp w" and "casGenerator w' = casGenerator w"
    and "\<And>h'. h' \<noteq> h \<Longrightarrow> gTimestampToKeySet w' h' = gTimestampToKeySet w h'"
    and "\<And>h'. h' \<noteq> h \<Longrightarrow> gKeyToValueHashMap w' h' = gKeyToValueHashMap w h'"
    and "table_wf (T + 1) h (gTimestampToKeySet w' h) (gKeyToValueHashMap w' h)"
  shows "db_wf w'"
proof -
  have "T \<le> T + 1" using less_plus_one [OF assms(2)] by (simp add: order.strict_implies_order)
  then have "table_wf (T + 1) h' (gTimestampToKeySet w' h') (gKeyToValueHashMap w' h')" for h'
    using assms(6-8) db_wf_table [OF assms(1), of h'] table_wf_mono by (cases "h' = h") auto
  with assms \<open>T \<le> T + 1\<close> show ?thesis by (auto simp: db_wf_def db_wf_at_def)
qed

lemma db_wf_at_mono: "db_wf_at T w \<Longrightarrow> T \<le> T' \<Longrightarrow> db_wf_at T' w"
  unfolding db_wf_at_def using table_wf_mono order_trans by blast

lemma dbGetElement_wf:
  assumes wf: "db_wf w" and T: "gTimestamp w \<noteq> - 1"
  shows "db_wf (snd (snd (dbGetElement key out w)))"
proof -
  let ?h = "getHashTblNbrFromKey key"
  let ?w = "(tick w)\<lparr>gTimestamp := gTimestamp w + 1\<rparr>"
  note wfT = wf [unfolded db_wf_def]
  show ?thesis
  proof (cases "gKeyToValueHashMap w ?h key")
    case None
    then have "dbGetElement key out w = (NOT_EXIST, out, ?w)"
      by (simp add: dbGetElement_def Let_def tick_def)
    then show ?thesis using less_plus_one [OF T]
      by (auto intro!: db_wf_update [OF wfT T, of _ ?h] table_wf_mono [OF db_wf_table [OF wfT]]
          simp: tick_def order.strict_implies_order)
  next
    case (Some it)
    have erased: "db_wf (kv_erase ?h key ?w)"
      using less_plus_one [OF T]
      by (auto intro!: db_wf_update [OF wfT T, of _ ?h] table_wf_erase_key
            table_wf_mono [OF db_wf_table [OF wfT]]
          simp: kv_erase_def tick_def order.strict_implies_order)
    have "table_wf (gTimestamp w + 1) ?h
       (ts_insert \<lparr>tk_timestamp = gTimestamp w, tk_key = key\<rparr>
         (ts_erase \<lparr>tk_timestamp = getTimestampFromMap it, tk_key = key\<rparr> (gTimestampToKeySet w ?h)))
       ((gKeyToValueHashMap w ?h)(key \<mapsto> setTimestampToMap (gTimestamp w) it))"
      using Some T by (intro table_wf_refresh [OF db_wf_table [OF wfT]]) (auto simp: set_defs get_defs)
    then have refreshed: "db_wf (ts_update ?h
       (\<lambda>s. ts_insert \<lparr>tk_timestamp = gTimestamp w, tk_key = key\<rparr>
         (ts_erase \<lparr>tk_timestamp = getTimestampFromMap it, tk_key = key\<rparr> s))
       (kv_put ?h key (setTimestampToMap (gTimestamp w) it) ?w))"
      by (auto intro!: db_wf_update [OF wfT T, of _ ?h] simp: write_defs)
    show ?thesis using Some erased refreshed
      by (auto simp: dbGetElement_def Let_def tick_def)
  qed
qed

lemma dbInsertCommit_wf:
  assumes wf: "db_wf_at T w" and T: "T \<noteq> - 1" and ts: "gTimestamp w = T + 1"
  shows "db_wf (snd (dbInsertCommit key casUniq expiry cur T vs w))"
proof -
  let ?h = "getHashTblNbrFromKey key"
  note tab = db_wf_table [OF wf, of ?h]
  have same: "db_wf w" using db_wf_at_mono [OF wf] less_plus_one [OF T, of T] ts
    by (simp add: db_wf_def order.strict_implies_order)
  show ?thesis
  proof (cases "gKeyToValueHashMap w ?h key")
    case None
    have "kv_erase ?h key (kv_put ?h key (vs, T) w) = w"
      using None by (simp add: write_defs fun_upd_idem)
    with None same show ?thesis
      by (auto simp: dbInsertCommit_def Let_def
          intro!: db_wf_update [OF wf T, of _ ?h] simp: write_defs ts table_wf_insert_new [OF tab _ T])
  next
    case (Some it)
    then show ?thesis using same ts
      by (auto simp: dbInsertCommit_def Let_def
          intro!: db_wf_update [OF wf T, of _ ?h] table_wf_refresh [OF tab Some T]
          simp: write_defs)
  qed
qed

lemma dbAddCommit_wf:
  assumes wf: "db_wf_at T w" and T: "T \<noteq> - 1" and ts: "gTimestamp w = T + 1"
  shows "db_wf (snd (dbAddCommit key expiry cur T vs w))"
proof -
  let ?h = "getHashTblNbrFromKey key"
  note tab = db_wf_table [OF wf, of ?h]
  have same: "db_wf w" using db_wf_at_mono [OF wf] less_plus_one [OF T, of T] ts
    by (simp add: db_wf_def order.strict_implies_order)
  show ?thesis
  proof (cases "gKeyToValueHashMap w ?h key")
    case None
    then show ?thesis
      by (auto simp: dbAddCommit_def Let_def
          intro!: db_wf_update [OF wf T, of _ ?h] simp: write_defs ts table_wf_insert_new [OF tab _ T])
  next
    case (Some it)
    then show ?thesis using same ts
      by (auto simp: dbAddCommit_def Let_def
          intro!: db_wf_update [OF wf T, of _ ?h] table_wf_refresh [OF tab Some T]
          simp: write_defs)
  qed
qed

text \<open>
  The state and the value a storing operation enters its eviction loop with: the clock is read,
  the timestamp counter advanced, and for \<open>dbInsertElement\<close> the CAS generator too.
\<close>

definition bump :: "db \<Rightarrow> db" where
  "bump w = (tick w)\<lparr>gTimestamp := gTimestamp w + 1\<rparr>"

definition insert_cas :: "db \<Rightarrow> string" where
  "insert_cas w = fst (insertCas (now w) (bump w))"

definition insert_start :: "db \<Rightarrow> db" where
  "insert_start w = snd (insertCas (now w) (bump w))"

definition new_value :: "db \<Rightarrow> string \<Rightarrow> string \<Rightarrow> ulong \<Rightarrow> string \<Rightarrow> ValueStruct" where
  "new_value w flags val expiry cas =
     \<lparr>vs_expiry = expiry_of (now w) expiry, vs_value = val, vs_flags = flags, vs_casUniq = cas\<rparr>"

lemma new_value_simps [simp]:
  "vs_expiry (new_value w flags val expiry cas) = expiry_of (now w) expiry"
  "vs_value (new_value w flags val expiry cas) = val"
  "vs_flags (new_value w flags val expiry cas) = flags"
  "vs_casUniq (new_value w flags val expiry cas) = cas"
  by (simp_all add: new_value_def)

lemma bump_simps [simp]:
  "gTimestamp (bump w) = gTimestamp w + 1" "gTimestampToKeySet (bump w) = gTimestampToKeySet w"
  "gKeyToValueHashMap (bump w) = gKeyToValueHashMap w" "gStoredSize (bump w) = gStoredSize w"
  "gFlushAllTimestamp (bump w) = gFlushAllTimestamp w" "casGenerator (bump w) = casGenerator w"
  "gServMemLimit (bump w) = gServMemLimit w" "badAlloc (bump w) = badAlloc w"
  "sysClock (bump w) = sysClock w" "clockReads (bump w) = Suc (clockReads w)"
  "gIsFlushAllSet (bump w) = gIsFlushAllSet w" "gFlushAllTime (bump w) = gFlushAllTime w"
  by (simp_all add: bump_def tick_def)

lemma insert_start_simps [simp]:
  "gTimestamp (insert_start w) = gTimestamp w + 1"
  "gTimestampToKeySet (insert_start w) = gTimestampToKeySet w"
  "gKeyToValueHashMap (insert_start w) = gKeyToValueHashMap w"
  "gStoredSize (insert_start w) = gStoredSize w"
  "gFlushAllTimestamp (insert_start w) = gFlushAllTimestamp w"
  "gServMemLimit (insert_start w) = gServMemLimit w" "badAlloc (insert_start w) = badAlloc w"
  "sysClock (insert_start w) = sysClock w" "clockReads (insert_start w) = Suc (clockReads w)"
  "gIsFlushAllSet (insert_start w) = gIsFlushAllSet w"
  "gFlushAllTime (insert_start w) = gFlushAllTime w"
  by (simp_all add: insert_start_def insertCas_def Let_def split: prod.splits)

lemma insert_start_wf: "db_wf w \<Longrightarrow> db_wf_at (gTimestamp w) (insert_start w)"
proof -
  assume wf: "db_wf w"
  have "mt_wf g" if "casGenerator (insert_start w) = Some g" for g
  proof -
    from that obtain g0 where "g = snd (mt_next g0)" "mt_wf g0"
      using wf mt_wf_seed by (auto simp: insert_start_def insertCas_def Let_def db_wf_def db_wf_at_def
          case_prod_beta split: option.splits)
    then show ?thesis by (simp add: mt_wf_next)
  qed
  with wf show ?thesis by (simp add: db_wf_def db_wf_at_def)
qed

lemma bump_wf: "db_wf w \<Longrightarrow> db_wf_at (gTimestamp w) (bump w)"
  by (simp add: db_wf_def db_wf_at_def)

lemma dbInsertElement_eq:
  "dbInsertElement key flags casUniq val expiry w =
     rbind (insertEvictLoop (evict_fuel (insert_start w))
              (insert_need key (new_value w flags val expiry (insert_cas w)))
              (getHashTblNbrFromKey key) (getHashTblNbrFromKey key) (insert_start w))
       (\<lambda>(fits, w4).
          if \<not> fits \<or> badAlloc w4 then Inr (MEMORY_FULL, w4)
          else Inr (dbInsertCommit key casUniq expiry (now w) (gTimestamp w)
                      (new_value w flags val expiry (insert_cas w)) w4))"
  by (simp add: dbInsertElement_def insert_start_def insert_cas_def bump_def new_value_def Let_def
      tick_def case_prod_beta cong: if_cong)

lemma dbAddElement_eq:
  "dbAddElement key flags casUniq val expiry w =
     rbind (addEvictLoop (evict_fuel (bump w))
              (add_need key (new_value w flags val expiry (addCas (now w))))
              (getHashTblNbrFromKey key) (getHashTblNbrFromKey key) (bump w))
       (\<lambda>(fits, w4).
          if \<not> fits \<or> badAlloc w4 then Inr (MEMORY_FULL, w4)
          else Inr (dbAddCommit key expiry (now w) (gTimestamp w)
                      (new_value w flags val expiry (addCas (now w))) w4))"
  by (simp add: dbAddElement_def bump_def new_value_def Let_def tick_def cong: if_cong)

lemma dbInsertElement_cases:
  assumes "dbInsertElement key flags casUniq val expiry w = Inr (st, w')"
  obtains (full) "st = MEMORY_FULL" "evicts (insert_start w) w'"
      "badAlloc w' \<or> insertEvictLoop (evict_fuel (insert_start w))
         (insert_need key (new_value w flags val expiry (insert_cas w)))
         (getHashTblNbrFromKey key) (getHashTblNbrFromKey key) (insert_start w) = Inr (False, w')"
  | (commit) w4 where "evicts (insert_start w) w4" "\<not> badAlloc w4"
      "gStoredSize w4 + insert_need key (new_value w flags val expiry (insert_cas w)) < gServMemLimit w4"
      "dbInsertCommit key casUniq expiry (now w) (gTimestamp w)
         (new_value w flags val expiry (insert_cas w)) w4 = (st, w')"
proof -
  obtain fits w4 where loop: "insertEvictLoop (evict_fuel (insert_start w))
         (insert_need key (new_value w flags val expiry (insert_cas w)))
         (getHashTblNbrFromKey key) (getHashTblNbrFromKey key) (insert_start w) = Inr (fits, w4)"
    using assms unfolding dbInsertElement_eq rbind_eq_Inr by force
  with assms full commit insertEvictLoop_keeps [OF loop] show ?thesis
    by (auto simp: dbInsertElement_eq split: if_splits)
qed

lemma dbAddElement_cases:
  assumes "dbAddElement key flags casUniq val expiry w = Inr (st, w')"
  obtains (full) "st = MEMORY_FULL" "evicts (bump w) w'"
  | (commit) w4 where "evicts (bump w) w4" "\<not> badAlloc w4"
      "gStoredSize w4 + add_need key (new_value w flags val expiry (addCas (now w))) < gServMemLimit w4"
      "dbAddCommit key expiry (now w) (gTimestamp w)
         (new_value w flags val expiry (addCas (now w))) w4 = (st, w')"
  using assms
  by (auto simp: dbAddElement_eq rbind_eq_Inr dest!: addEvictLoop_keeps split: if_splits)

lemma evicts_timestamp: "evicts w w' \<Longrightarrow> gTimestamp w' = gTimestamp w"
  by (simp add: evicts_def shrinks_def)

lemma evicts_wf: "evicts w w' \<Longrightarrow> db_wf_at T w \<Longrightarrow> db_wf_at T w'"
  by (simp add: evicts_def)

lemma db_wf_next: "db_wf_at T w \<Longrightarrow> T \<noteq> - 1 \<Longrightarrow> gTimestamp w = T + 1 \<Longrightarrow> db_wf w"
  using db_wf_at_mono less_plus_one [of T T] by (simp add: db_wf_def order.strict_implies_order)

lemma dbInsertElement_wf:
  assumes "dbInsertElement key flags casUniq val expiry w = Inr (st, w')"
    and "db_wf w" and T: "gTimestamp w \<noteq> - 1"
  shows "db_wf w'"
  using assms(1)
proof (cases rule: dbInsertElement_cases)
  case full
  then show ?thesis using evicts_wf insert_start_wf [OF assms(2)] evicts_timestamp db_wf_next [OF _ T]
    by fastforce
next
  case (commit w4)
  then show ?thesis
    using dbInsertCommit_wf [OF evicts_wf [OF commit(1) insert_start_wf [OF assms(2)]] T]
      evicts_timestamp [OF commit(1)] by (metis insert_start_simps(1) snd_conv)
qed

lemma dbAddElement_wf:
  assumes "dbAddElement key flags casUniq val expiry w = Inr (st, w')"
    and "db_wf w" and T: "gTimestamp w \<noteq> - 1"
  shows "db_wf w'"
  using assms(1)
proof (cases rule: dbAddElement_cases)
  case full
  then show ?thesis using evicts_wf bump_wf [OF assms(2)] evicts_timestamp db_wf_next [OF _ T]
    by fastforce
next
  case (commit w4)
  then show ?thesis
    using dbAddCommit_wf [OF evicts_wf [OF commit(1) bump_wf [OF assms(2)]] T]
      evicts_timestamp [OF commit(1)] by (metis bump_simps(1) snd_conv)
qed

end
