(* ===== verification/DbLruSpec.thy ===== *)
theory DbLruSpec
  imports DbLruInv
begin

text \<open>
  What the storage promises, stated over an abstract view: the partial map from keys to the
  values a look-up at a given second would return. Look-ups and deletions refine the map
  operations exactly; insertions do so where the key is new; the theorems on existing keys say
  what the code really does there.
\<close>

definition db_view :: "ulong \<Rightarrow> db \<Rightarrow> string \<rightharpoonup> ValueStruct" where
  "db_view t w key =
     (case gKeyToValueHashMap w (getHashTblNbrFromKey key) key of
        None \<Rightarrow> None
      | Some it \<Rightarrow> if entry_dead t w it then None else Some (fst it))"

text \<open>Enough memory for an element without evicting anything, whatever CAS identifier it gets.\<close>

definition room :: "db \<Rightarrow> string \<Rightarrow> string \<Rightarrow> string \<Rightarrow> bool" where
  "room w key flags val \<longleftrightarrow>
     unat (gStoredSize w) + 2 * length key + length flags + length val + 32 < unat (gServMemLimit w)"

section \<open>Enough memory\<close>

lemma length_insert_cas: "length (insert_cas w) \<le> 20"
  using length_to_string64 by (auto simp: insert_cas_def insertCas_def Let_def split: prod.splits)

lemma length_addCas: "length (addCas cur) \<le> 20"
  using length_to_string64 by (simp add: addCas_def)

lemma insert_need_nat:
  "insert_need key vs = of_nat (2 * length key + length (vs_flags vs) + length (vs_casUniq vs) +
     length (vs_value vs) + 12)"
  by (simp add: insert_need_def str_size_def sizeof_ulong_def)

lemma add_need_nat: "add_need key vs = of_nat (2 * length key + length (vs_value vs) + 12)"
  by (simp add: add_need_def str_size_def sizeof_ulong_def)

lemma stored_plus_less:
  assumes "unat (s :: ulong) + n < unat (l :: ulong)"
  shows "s + of_nat n < l" and "unat (s + of_nat n) = unat s + n"
proof -
  have n: "unat (of_nat n :: ulong) = n" using assms unat_lt32 [of l] by (intro unat_of_nat32) linarith
  have "unat s + unat (of_nat n :: ulong) < 2 ^ 32" using assms unat_lt32 [of l] n by linarith
  from unat_add32 [OF this] n show "unat (s + of_nat n) = unat s + n" by simp
  with assms show "s + of_nat n < l" by (simp add: word_less_nat_alt)
qed

lemma room_insert:
  assumes "room w key flags val"
  shows "gStoredSize w + insert_need key (new_value w flags val expiry (insert_cas w)) < gServMemLimit w"
  unfolding insert_need_nat using assms length_insert_cas [of w]
  by (intro stored_plus_less) (simp add: room_def)

lemma room_add:
  assumes "room w key flags val"
  shows "gStoredSize w + add_need key (new_value w flags val expiry cas) < gServMemLimit w"
  unfolding add_need_nat using assms by (intro stored_plus_less) (simp add: room_def)

lemma evict_fuel_pos: "0 < evict_fuel w"
  by (simp add: evict_fuel_def)

lemma insertEvictLoop_fits:
  "gStoredSize w + need < gServMemLimit w \<Longrightarrow> 0 < n \<Longrightarrow> insertEvictLoop n need orig h w = Inr (True, w)"
  by (cases n) simp_all

lemma addEvictLoop_fits:
  "gStoredSize w + need < gServMemLimit w \<Longrightarrow> 0 < n \<Longrightarrow> addEvictLoop n need orig h w = Inr (True, w)"
  by (cases n) simp_all

lemma dbInsertElement_room:
  assumes "room w key flags val" and "\<not> badAlloc w"
  shows "dbInsertElement key flags casUniq val expiry w =
     Inr (dbInsertCommit key casUniq expiry (now w) (gTimestamp w)
            (new_value w flags val expiry (insert_cas w)) (insert_start w))"
  using room_insert [OF assms(1), of expiry] assms(2)
  by (simp add: dbInsertElement_eq insertEvictLoop_fits evict_fuel_pos)

lemma dbAddElement_room:
  assumes "gStoredSize w + add_need key (new_value w flags val expiry (addCas (now w))) < gServMemLimit w"
    and "\<not> badAlloc w"
  shows "dbAddElement key flags casUniq val expiry w =
     Inr (dbAddCommit key expiry (now w) (gTimestamp w)
            (new_value w flags val expiry (addCas (now w))) (bump w))"
  using assms by (simp add: dbAddElement_eq addEvictLoop_fits evict_fuel_pos)

section \<open>The view after a write\<close>

lemma entry_dead_cong: "gFlushAllTimestamp w = gFlushAllTimestamp w' \<Longrightarrow> entry_dead t w = entry_dead t w'"
  by (simp add: entry_dead_def fun_eq_iff)

lemma entry_dead_start [simp]:
  "entry_dead t (bump w) = entry_dead t w" "entry_dead t (insert_start w) = entry_dead t w"
  "entry_dead t (tick w) = entry_dead t w"
  by (simp_all add: entry_dead_def fun_eq_iff tick_def)

lemma db_view_cong:
  "gKeyToValueHashMap w (getHashTblNbrFromKey key) key = gKeyToValueHashMap w' (getHashTblNbrFromKey key) key \<Longrightarrow>
   gFlushAllTimestamp w = gFlushAllTimestamp w' \<Longrightarrow> db_view t w key = db_view t w' key"
  using entry_dead_cong [of w w'] by (simp add: db_view_def split: option.split)

lemma db_view_tick [simp]: "db_view t (tick w) = db_view t w"
  by (rule ext, rule db_view_cong) simp_all

lemma db_view_bump [simp]: "db_view t (bump w) = db_view t w"
  by (rule ext, rule db_view_cong) simp_all

lemma db_view_insert_start [simp]: "db_view t (insert_start w) = db_view t w"
  by (rule ext, rule db_view_cong) simp_all

lemma db_view_stored [simp]:
  "db_view t (stored_sub n w) = db_view t w" "db_view t (stored_add n w) = db_view t w"
  by (rule ext, rule db_view_cong, simp_all)+

lemma db_view_ts_update [simp]: "db_view t (ts_update h f w) = db_view t w"
  by (rule ext, rule db_view_cong) simp_all

lemma db_view_kv_erase [simp]:
  "db_view t (kv_erase (getHashTblNbrFromKey key) key w) = (db_view t w)(key := None)"
  by (rule ext) (auto simp: db_view_def entry_dead_def write_defs split: option.split)

lemma db_view_kv_put [simp]:
  "db_view t (kv_put (getHashTblNbrFromKey key) key it w) =
     (db_view t w)(key := if entry_dead t w it then None else Some (fst it))"
  by (rule ext) (auto simp: db_view_def entry_dead_def write_defs split: option.split)

lemma entry_dead_mono: "entry_dead t w it \<Longrightarrow> t \<le> t' \<Longrightarrow> entry_dead t' w it"
  by (auto simp: entry_dead_def)

lemma db_view_None_mono: "db_view t w key = None \<Longrightarrow> t \<le> t' \<Longrightarrow> db_view t' w key = None"
  using entry_dead_mono by (auto simp: db_view_def split: option.splits if_splits)

lemma evicts_map_None:
  "evicts w w' \<Longrightarrow> gKeyToValueHashMap w h k = None \<Longrightarrow> gKeyToValueHashMap w' h k = None"
  unfolding evicts_def shrinks_def by (metis domIff map_le_def)

lemma evicts_view: "evicts w w' \<Longrightarrow> db_view t w' \<subseteq>\<^sub>m db_view t w"
proof -
  assume ev: "evicts w w'"
  have "db_view t w' k = db_view t w k" if v: "db_view t w' k = Some v" for k v
  proof -
    let ?h = "getHashTblNbrFromKey k"
    obtain it where it: "gKeyToValueHashMap w' ?h k = Some it"
      using v by (cases "gKeyToValueHashMap w' ?h k") (auto simp: db_view_def)
    have "gKeyToValueHashMap w' ?h \<subseteq>\<^sub>m gKeyToValueHashMap w ?h"
      and "gFlushAllTimestamp w' = gFlushAllTimestamp w"
      using ev by (simp_all add: evicts_def shrinks_def)
    moreover from this(1) it have "gKeyToValueHashMap w ?h k = Some it"
      by (metis domI map_le_def)
    ultimately show ?thesis using it by (simp add: db_view_def entry_dead_def)
  qed
  then show ?thesis by (auto simp: map_le_def)
qed

lemma evicts_view_or: "evicts w w' \<Longrightarrow> db_view t w' k = db_view t w k \<or> db_view t w' k = None"
  using evicts_view by (metis domIff map_le_def)

section \<open>Look-up\<close>

lemma dbGetElement_result:
  assumes "dbGetElement key out w = (st, out', w')"
  shows "(st, out') = (case db_view (now w) w key of
            None \<Rightarrow> (NOT_EXIST, out)
          | Some v \<Rightarrow> (SUCCESS, \<lparr>go_flags = vs_flags v, go_cas = vs_casUniq v, go_value = vs_value v,
                                 go_expiry = vs_expiry v - now w\<rparr>))"
proof -
  have w: "(tick w)\<lparr>gTimestamp := gTimestamp (tick w) + 1\<rparr> = bump w" by (simp add: bump_def tick_def)
  show ?thesis using assms [unfolded dbGetElement_def Let_def w, symmetric]
    by (auto simp: db_view_def entry_dead_def get_defs split: option.splits if_splits)
qed

lemma dbGetElement_view:
  assumes "db_wf w" and "dbGetElement key out w = (st, out', w')" and t: "now w \<le> t"
  shows "db_view t w' = db_view t w"
proof -
  have w: "(tick w)\<lparr>gTimestamp := gTimestamp (tick w) + 1\<rparr> = bump w" by (simp add: bump_def tick_def)
  note eq = assms(2) [unfolded dbGetElement_def Let_def w, symmetric]
  show ?thesis
  proof (cases "gKeyToValueHashMap w (getHashTblNbrFromKey key) key")
    case None
    with eq show ?thesis by simp
  next
    case (Some it)
    show ?thesis
    proof (cases "entry_dead (now w) w it")
      case True
      with Some have "db_view t w key = None"
        using entry_dead_mono [OF True t] by (simp add: db_view_def)
      with Some eq True show ?thesis by (simp add: fun_upd_idem)
    next
      case False
      then have "entry_dead t w (setTimestampToMap (gTimestamp w) it) = entry_dead t w it"
        using assms(1) by (auto simp: entry_dead_def db_wf_def db_wf_at_def)
      moreover have "db_view t w key = (if entry_dead t w it then None else Some (fst it))"
        using Some by (simp add: db_view_def)
      moreover have "fst (setTimestampToMap T it) = fst it" for T by (simp add: setTimestampToMap_def)
      ultimately show ?thesis using Some eq False by (simp add: fun_upd_idem)
    qed
  qed
qed

text \<open>
  C5. A look-up returns exactly what the view holds at the second it reads from the clock,
  assigns its reference parameters only on success, and changes the view at no later second.
\<close>

theorem dbGetElement_refines:
  assumes "db_wf w" and "dbGetElement key out w = (st, out', w')"
  shows "(st, out') = (case db_view (now w) w key of
            None \<Rightarrow> (NOT_EXIST, out)
          | Some v \<Rightarrow> (SUCCESS, \<lparr>go_flags = vs_flags v, go_cas = vs_casUniq v, go_value = vs_value v,
                                 go_expiry = vs_expiry v - now w\<rparr>)) \<and>
         (\<forall>t. now w \<le> t \<longrightarrow> db_view t w' = db_view t w)"
  using dbGetElement_result [OF assms(2)] dbGetElement_view [OF assms] by blast

section \<open>Deletion\<close>

text \<open>
  C17. A deletion succeeds exactly when the key is visible, and from that second on the view
  lacks the key and is otherwise unchanged. The stored size and the eviction order are not
  touched, so the memory of the value is not given back.
\<close>

theorem dbDeleteElement_refines:
  assumes "dbDeleteElement key 0 w = (st, w')"
  shows "st = (case db_view (now w) w key of None \<Rightarrow> NOT_EXIST | Some _ \<Rightarrow> SUCCESS) \<and>
         (\<forall>t. now w \<le> t \<longrightarrow> db_view t w' = (db_view t w)(key := None)) \<and>
         gStoredSize w' = gStoredSize w \<and> gTimestampToKeySet w' = gTimestampToKeySet w"
proof (cases "gKeyToValueHashMap w (getHashTblNbrFromKey key) key")
  case None
  then have "db_view t w key = None" for t by (simp add: db_view_def)
  with None assms show ?thesis
    by (auto simp: dbDeleteElement_def Let_def fun_upd_idem)
next
  case (Some it)
  have view: "db_view t w key = (if entry_dead t w it then None else Some (fst it))" for t
    using Some by (simp add: db_view_def)
  show ?thesis
  proof (cases "entry_dead (now w) w it")
    case True
    with Some assms have "st = NOT_EXIST" "w' = tick w"
      by (auto simp: dbDeleteElement_def Let_def)
    with True view show ?thesis
      using entry_dead_mono [OF True] by (auto simp: fun_upd_idem)
  next
    case False
    with Some assms have "st = SUCCESS" "w' = kv_erase (getHashTblNbrFromKey key) key (tick w)"
      by (auto simp: dbDeleteElement_def Let_def)
    with False view show ?thesis by simp
  qed
qed

section \<open>Insertion\<close>

text \<open>
  C10. Storing a key that is in no table: when the insertion reports success, the new value is
  what every look-up up to its expiry finds, every other key keeps its value or was evicted, and
  the stored size lies below the memory limit.
\<close>

theorem dbInsertElement_new_key:
  assumes "db_wf w" and "gKeyToValueHashMap w (getHashTblNbrFromKey key) key = None"
    and "dbInsertElement key flags [] val expiry w = Inr (SUCCESS, w')"
  shows "(\<forall>t \<le> expiry_of (now w) expiry.
            db_view t w' key = Some (new_value w flags val expiry (insert_cas w))) \<and>
         (\<forall>t k. k \<noteq> key \<longrightarrow> db_view t w' k = db_view t w k \<or> db_view t w' k = None) \<and>
         gStoredSize w' < gServMemLimit w'"
  using assms(3)
proof (cases rule: dbInsertElement_cases)
  case (commit w4)
  let ?h = "getHashTblNbrFromKey key"
  let ?vs = "new_value w flags val expiry (insert_cas w)"
  have none: "gKeyToValueHashMap w4 ?h key = None"
    using evicts_map_None [OF commit(1)] assms(2) by simp
  have w': "w' = ts_update ?h (ts_insert \<lparr>tk_timestamp = gTimestamp w, tk_key = key\<rparr>)
      (stored_add (insert_need key ?vs) (kv_put ?h key (?vs, gTimestamp w) w4))"
    using commit(4) none by (simp add: dbInsertCommit_def Let_def)
  have "gFlushAllTimestamp w4 \<le> gTimestamp w"
    using evicts_wf [OF commit(1) insert_start_wf [OF assms(1)]] by (simp add: db_wf_at_def)
  then have live: "\<not> entry_dead t w4 (?vs, gTimestamp w)" if "t \<le> expiry_of (now w) expiry" for t
    using that by (auto simp: entry_dead_def get_defs)
  have other: "db_view t w4 k = db_view t w k \<or> db_view t w4 k = None" for t k
    using evicts_view_or [OF commit(1), of t k] by simp
  have "gStoredSize w' < gServMemLimit w'"
    using commit(3) unfolding w' by simp
  with live other show ?thesis unfolding w' by simp
qed simp

lemma fst_overwrite_entry: "fst (overwrite_entry e vs it) = vs\<lparr>vs_expiry := e\<rparr>"
  by (simp add: overwrite_entry_def set_defs)

text \<open>
  C19. Storing a key that has an entry, with enough memory: the entry takes the new value but
  keeps the timestamp it had, and its expiry becomes the current second plus the requested time,
  even when that time is zero. So the new value is visible only if the old entry was newer than
  the last flush, and only up to that second.
\<close>

theorem dbInsertElement_existing_key:
  assumes "room w key flags val" and "\<not> badAlloc w"
    and "gKeyToValueHashMap w (getHashTblNbrFromKey key) key = Some it"
    and "casUniq = [] \<or> casUniq = getCasFromMap it"
  shows "\<exists>w'. dbInsertElement key flags casUniq val expiry w = Inr (SUCCESS, w') \<and>
     db_view t w' = (db_view t w)(key :=
       if now w + expiry < t \<or> getTimestampFromMap it < gFlushAllTimestamp w then None
       else Some ((new_value w flags val expiry (insert_cas w))\<lparr>vs_expiry := now w + expiry\<rparr>))"
  using assms
  by (simp add: dbInsertElement_room dbInsertCommit_def Let_def entry_dead_def fst_overwrite_entry)
    auto

text \<open>
  C15. A compare-and-swap, with enough memory: it fails with \<open>NOT_EXIST\<close> when the key has no
  entry and with \<open>EXIST\<close> when the entry has another identifier, leaving the view as it was, and
  succeeds when the identifiers agree.
\<close>

theorem dbInsertElement_cas:
  assumes "room w key flags val" and "\<not> badAlloc w" and "casUniq \<noteq> []"
  shows "\<exists>st w'. dbInsertElement key flags casUniq val expiry w = Inr (st, w') \<and>
     st = (case gKeyToValueHashMap w (getHashTblNbrFromKey key) key of
             None \<Rightarrow> NOT_EXIST
           | Some it \<Rightarrow> if getCasFromMap it = casUniq then SUCCESS else EXIST) \<and>
     (st \<noteq> SUCCESS \<longrightarrow> db_view t w' = db_view t w \<and> gStoredSize w' = gStoredSize w)"
proof (cases "gKeyToValueHashMap w (getHashTblNbrFromKey key) key")
  case None
  then have "db_view t w key = None" by (simp add: db_view_def)
  with None assms show ?thesis
    by (simp add: dbInsertElement_room dbInsertCommit_def Let_def fun_upd_idem)
next
  case (Some it)
  with assms show ?thesis
    by (cases "getCasFromMap it = casUniq") (simp_all add: dbInsertElement_room dbInsertCommit_def Let_def)
qed

section \<open>Adding\<close>

text \<open>
  C16. An addition, with enough memory, is refused exactly when the key is visible, and then
  leaves the view as it was; a key that has no entry becomes visible with its new value.
\<close>

theorem dbAddElement_refines:
  assumes "db_wf w" and "room w key flags val" and "\<not> badAlloc w"
  shows "\<exists>st w'. dbAddElement key flags casUniq val expiry w = Inr (st, w') \<and>
     st = (if db_view (now w) w key = None then SUCCESS else EXIST) \<and>
     (st = EXIST \<longrightarrow> db_view t w' = db_view t w) \<and>
     (gKeyToValueHashMap w (getHashTblNbrFromKey key) key = None \<longrightarrow> t \<le> expiry_of (now w) expiry \<longrightarrow>
        db_view t w' = (db_view t w)(key \<mapsto> new_value w flags val expiry (addCas (now w))))"
proof (cases "gKeyToValueHashMap w (getHashTblNbrFromKey key) key")
  case None
  then have "db_view (now w) w key = None" by (simp add: db_view_def)
  moreover have "\<not> entry_dead t w (new_value w flags val expiry (addCas (now w)), gTimestamp w)"
    if "t \<le> expiry_of (now w) expiry"
    using that assms(1) by (auto simp: entry_dead_def get_defs db_wf_def db_wf_at_def)
  ultimately show ?thesis using None assms room_add [OF assms(2)]
    by (auto simp: dbAddElement_room dbAddCommit_def Let_def)
next
  case (Some it)
  then have "db_view (now w) w key = None \<longleftrightarrow> entry_dead (now w) w it" by (simp add: db_view_def)
  with Some assms room_add [OF assms(2)] show ?thesis
    by (auto simp: dbAddElement_room dbAddCommit_def Let_def)
qed

text \<open>
  The memory test of an addition leaves out the flags and the CAS identifier, but both are
  counted once the element is stored: an addition can take the stored size to the limit or beyond.
\<close>

lemma dbAddElement_overcommits:
  assumes "gKeyToValueHashMap w (getHashTblNbrFromKey key) key = None" and "\<not> badAlloc w"
    and "unat (gStoredSize w) + 2 * length key + length val + 12 < unat (gServMemLimit w)"
    and "unat (gServMemLimit w) \<le> unat (gStoredSize w) + 2 * length key + length val + 12 + length flags"
    and "unat (gServMemLimit w) + length flags + 20 < 2 ^ 32"
  shows "\<exists>w'. dbAddElement key flags casUniq val expiry w = Inr (SUCCESS, w') \<and>
     \<not> gStoredSize w' < gServMemLimit w'"
proof -
  let ?vs = "new_value w flags val expiry (addCas (now w))"
  have fits: "gStoredSize w + add_need key ?vs < gServMemLimit w"
    unfolding add_need_nat using assms(3) by (intro stored_plus_less) simp
  let ?n = "2 * length key + length flags + length (addCas (now w)) + length val + 12"
  have n: "unat (gStoredSize w) + ?n < 2 ^ 32" using assms(3,5) length_addCas [of "now w"] by simp
  then have "unat (of_nat ?n :: ulong) = ?n" by (intro unat_of_nat32) simp
  with n have "unat (gStoredSize w + of_nat ?n) = unat (gStoredSize w) + ?n"
    using unat_add32 [of "gStoredSize w" "of_nat ?n"] by simp
  then have "\<not> gStoredSize w + insert_need key ?vs < gServMemLimit w"
    using assms(4) unfolding insert_need_nat by (simp add: word_less_nat_alt)
  with fits assms(1,2) show ?thesis
    by (simp add: dbAddElement_room dbAddCommit_def Let_def)
qed

section \<open>Flushing\<close>

text \<open>
  C18. When a flush is due, nothing stored before it is visible afterwards, at any second; when it
  is not due, or none was requested, the view stays as it was.
\<close>

theorem dbHandleFlushAll_view:
  assumes "db_wf w" and "gTimestamp w \<noteq> - 1"
  shows "db_view t (dbHandleFlushAll w) =
     (if gIsFlushAllSet w \<and> gFlushAllTime w \<le> now w then Map.empty else db_view t w)"
proof (cases "gIsFlushAllSet w \<and> gFlushAllTime w \<le> now w")
  case True
  then have fl: "gFlushAllTimestamp (dbHandleFlushAll w) = gTimestamp w + 1"
    and map: "gKeyToValueHashMap (dbHandleFlushAll w) = gKeyToValueHashMap w"
    by (simp_all add: dbHandleFlushAll_def Let_def)
  have "getTimestampFromMap it < gTimestamp w + 1"
    if "gKeyToValueHashMap w (getHashTblNbrFromKey k) k = Some it" for k it
    using table_wf_map [OF db_wf_table [OF assms(1) [unfolded db_wf_def]] that]
      less_plus_one [OF assms(2), of "getTimestampFromMap it"] by simp
  then have "db_view t (dbHandleFlushAll w) k = None" for k
    by (simp add: db_view_def entry_dead_def fl map split: option.split)
  with True show ?thesis by auto
next
  case False
  then show ?thesis by (auto simp: dbHandleFlushAll_def Let_def)
qed

end
