(* ===== verification/DbLruEvict.thy ===== *)
theory DbLruEvict
  imports DbLruSpec
begin

text \<open>
  Eviction and its bookkeeping: which entry goes, when the storing loops end, what a full memory
  means, and how the counter of stored bytes drifts away from what is stored.
\<close>

section \<open>The victim\<close>

lemma removeLRUElement_two_live:
  assumes "gTimestampToKeySet w h = e1 # e2 # es"
    and "gKeyToValueHashMap w h (tk_key e1) = Some v1" and "\<not> entry_dead (now w) w v1"
    and "gKeyToValueHashMap w h (tk_key e2) = Some v2" and "\<not> entry_dead (now w) w v2"
  shows "removeLRUElement h w =
     (if str_size (getValueFromMap v1) < str_size (getValueFromMap v2)
      then Inr (evict_entry h 1 (tk_key e2) v2 (tick w))
      else Inr (evict_entry h 0 (tk_key e1) v1 (tick w)))"
  using assms by (simp add: removeLRUElement_def lru_section_def Let_def)

text \<open>
  C13. When the two least recently used entries of a table belong to two live keys, eviction
  removes the one with the larger value, the older one if the sizes agree, and keeps the other;
  every entry it did not consider has a later timestamp than both.
\<close>

theorem removeLRUElement_larger_of_two:
  assumes "db_wf w" and "gTimestampToKeySet w h = e1 # e2 # es" and "tk_key e1 \<noteq> tk_key e2"
    and "gKeyToValueHashMap w h (tk_key e1) = Some v1" and "\<not> entry_dead (now w) w v1"
    and "gKeyToValueHashMap w h (tk_key e2) = Some v2" and "\<not> entry_dead (now w) w v2"
    and "(victim, v, survivor, u) =
      (if str_size (getValueFromMap v1) < str_size (getValueFromMap v2) then (e2, v2, e1, v1)
       else (e1, v1, e2, v2))"
  shows "\<exists>w'. removeLRUElement h w = Inr w' \<and> gTimestampToKeySet w' h = survivor # es \<and>
     gKeyToValueHashMap w' h = (gKeyToValueHashMap w h)(tk_key victim := None) \<and>
     gKeyToValueHashMap w' h (tk_key survivor) = Some u \<and>
     str_size (getValueFromMap u) \<le> str_size (getValueFromMap v) \<and>
     gStoredSize w' = gStoredSize w - evicted_size (tk_key victim) v \<and>
     (\<forall>e \<in> set es. tk_timestamp e1 < tk_timestamp e \<and> tk_timestamp e2 < tk_timestamp e)"
proof -
  have "ts_sorted (e1 # e2 # es)"
    using table_wf_sorted [OF db_wf_table [OF assms(1) [unfolded db_wf_def]], of h] assms(2) by simp
  then have later: "\<forall>e \<in> set es. tk_timestamp e1 < tk_timestamp e \<and> tk_timestamp e2 < tk_timestamp e"
    by (auto simp: ts_sorted_def timestampToKeyCompare_def)
  show ?thesis
  proof (cases "str_size (getValueFromMap v1) < str_size (getValueFromMap v2)")
    case True
    with assms(8) have "victim = e2" "v = v2" "survivor = e1" "u = v1" by simp_all
    with True later assms(2-7) show ?thesis
      by (simp add: removeLRUElement_two_live evict_entry_def oset_erase_at_def order.strict_implies_order)
  next
    case False
    with assms(8) have "victim = e1" "v = v1" "survivor = e2" "u = v2" by simp_all
    with False later assms(2-7) show ?thesis
      by (simp add: removeLRUElement_two_live evict_entry_def oset_erase_at_def)
  qed
qed


section \<open>The storing loops end\<close>

lemma removeLRUElement_fault: "removeLRUElement h w = Inl e \<Longrightarrow> e = SingularIterator"
  by (auto simp: removeLRUElement_def lru_section_def Let_def split: lru_scan.splits option.splits if_splits)

lemma insertEvictLoop_fault:
  "insertEvictLoop n need orig h w = Inl e \<Longrightarrow> e = SingularIterator \<or> e = OutOfFuel"
  by (induction n arbitrary: h w) (auto simp: rbind_eq_Inl dest: removeLRUElement_fault split: if_splits)

lemma addEvictLoop_fault:
  "addEvictLoop n need orig h w = Inl e \<Longrightarrow> e = SingularIterator \<or> e = OutOfFuel"
  by (induction n arbitrary: h w)
    (auto simp: rbind_eq_Inl Let_def dest: removeLRUElement_fault split: if_splits)

lemma insertEvictLoop_enough:
  "insertEvictLoop (evict_fuel w) need (getHashTblNbrFromKey key) (getHashTblNbrFromKey key) w \<noteq> Inl OutOfFuel"
  using getHashTblNbrFromKey_bound [of key]
  by (intro insertEvictLoop_fuel) (auto simp: evict_fuel_def table_dist_start)

lemma addEvictLoop_enough:
  "addEvictLoop (evict_fuel w) need (getHashTblNbrFromKey key) (getHashTblNbrFromKey key) w \<noteq> Inl OutOfFuel"
  using getHashTblNbrFromKey_bound [of key] by (intro addEvictLoop_fuel) (auto simp: evict_fuel_def)

lemma storing_fault:
  "dbInsertElement key flags casUniq val expiry w = Inl e \<Longrightarrow> e = SingularIterator"
  "dbAddElement key flags casUniq val expiry w = Inl e \<Longrightarrow> e = SingularIterator"
proof -
  have "e = SingularIterator" if "insertEvictLoop (evict_fuel v) need (getHashTblNbrFromKey key)
      (getHashTblNbrFromKey key) v = Inl e" for need v
    using insertEvictLoop_fault [OF that] that insertEvictLoop_enough by metis
  then show "dbInsertElement key flags casUniq val expiry w = Inl e \<Longrightarrow> e = SingularIterator"
    by (auto simp: dbInsertElement_eq rbind_eq_Inl split: if_splits)
  have "e = SingularIterator" if "addEvictLoop (evict_fuel v) need (getHashTblNbrFromKey key)
      (getHashTblNbrFromKey key) v = Inl e" for need v
    using addEvictLoop_fault [OF that] that addEvictLoop_enough by metis
  then show "dbAddElement key flags casUniq val expiry w = Inl e \<Longrightarrow> e = SingularIterator"
    by (auto simp: dbAddElement_eq rbind_eq_Inl split: if_splits)
qed

text \<open>
  C11. The loops that make room always end: neither \<open>dbInsertElement\<close> nor \<open>dbAddElement\<close> runs
  out of the fuel the model gives them, one unit per entry of the eviction orders and eleven more.
  The only way not to return is the undefined behaviour of an eviction.
\<close>

theorem storing_terminates:
  "(dbInsertElement key flags casUniq val expiry w = Inl e \<longrightarrow> e = SingularIterator) \<and>
   (dbAddElement key flags casUniq val expiry w = Inl e \<longrightarrow> e = SingularIterator)"
  using storing_fault by blast

section \<open>A full memory\<close>

lemma table_dist_inj:
  "orig < DB_MAX_HASH_TABLES \<Longrightarrow> x < DB_MAX_HASH_TABLES \<Longrightarrow> h < DB_MAX_HASH_TABLES \<Longrightarrow>
   table_dist orig x = table_dist orig h \<Longrightarrow> x = h"
  by (auto simp: table_dist_def DB_MAX_HASH_TABLES_def word_less_nat_alt word_unat_eq_iff split: if_splits)

lemma table_dist_last:
  assumes "orig < DB_MAX_HASH_TABLES" and "h < DB_MAX_HASH_TABLES" and "next_table h = orig"
  shows "table_dist orig h = 1"
proof -
  from assms(1,2) have "orig \<in> set hash_tables" "h \<in> set hash_tables" by (simp_all add: mem_hash_tables)
  with assms(3) show ?thesis
    by (auto simp: hash_tables_def next_table_def DB_MAX_HASH_TABLES_def table_dist_def)
qed

lemma table_dist_pos: "orig < DB_MAX_HASH_TABLES \<Longrightarrow> h < DB_MAX_HASH_TABLES \<Longrightarrow> 1 \<le> table_dist orig h"
  by (auto simp: table_dist_def DB_MAX_HASH_TABLES_def word_less_nat_alt)

text \<open>The tables the loop has left behind are empty.\<close>

lemma insertEvictLoop_full:
  assumes "insertEvictLoop n need orig h w = Inr (False, w')"
    and "orig < DB_MAX_HASH_TABLES" and "h < DB_MAX_HASH_TABLES"
    and "\<And>x. x < DB_MAX_HASH_TABLES \<Longrightarrow> table_dist orig h < table_dist orig x \<Longrightarrow> gTimestampToKeySet w x = []"
    and "x < DB_MAX_HASH_TABLES"
  shows "gTimestampToKeySet w' x = []"
  using assms(1,3,4)
proof (induction n arbitrary: h w)
  case (Suc n)
  show ?case
  proof (cases "gTimestampToKeySet w h = []")
    case True
    have behind: "gTimestampToKeySet w y = []"
      if "y < DB_MAX_HASH_TABLES" "table_dist orig h \<le> table_dist orig y" for y
      using that True Suc.prems(2,3) table_dist_inj [OF assms(2), of y h] by fastforce
    show ?thesis
    proof (cases "orig = next_table h")
      case True
      with Suc.prems \<open>gTimestampToKeySet w h = []\<close> have "w' = w" by (auto split: if_splits)
      then show ?thesis
        using behind [OF assms(5)] table_dist_last [OF assms(2) Suc.prems(2)] True
          table_dist_pos [OF assms(2,5)] by simp
    next
      case False
      then have "Suc (table_dist orig (next_table h)) = table_dist orig h"
        using table_dist_next [OF assms(2) Suc.prems(2)] by metis
      then show ?thesis
        using Suc.prems True False behind next_table_bound [OF Suc.prems(2)]
        by (intro Suc.IH [of "next_table h" w]) (auto split: if_splits)
    qed
  next
    case False
    with Suc.prems obtain a where a: "removeLRUElement h w = Inr a"
      and rest: "insertEvictLoop n need orig h a = Inr (False, w')"
      by (auto simp: rbind_eq_Inr split: if_splits)
    show ?thesis
      using removeLRUElement_order(2) [OF a] Suc.prems(2,3)
      by (intro Suc.IH [OF rest]) (metis less_irrefl)+
  qed
qed simp

text \<open>With nothing to evict and no room, the loop visits the tables once and gives up.\<close>

lemma insertEvictLoop_empty:
  assumes "\<not> gStoredSize w + need < gServMemLimit w" and "\<And>x. gTimestampToKeySet w x = []"
    and "orig < DB_MAX_HASH_TABLES" and "h < DB_MAX_HASH_TABLES" and "table_dist orig h \<le> n"
  shows "insertEvictLoop n need orig h w = Inr (False, w)"
  using assms(4,5)
proof (induction n arbitrary: h)
  case 0
  then show ?case using table_dist_pos [OF assms(3)] by fastforce
next
  case (Suc n)
  show ?case
  proof (cases "orig = next_table h")
    case False
    with Suc show ?thesis
      using assms(1,2) table_dist_next [OF assms(3) Suc.prems(1)] next_table_bound by fastforce
  qed (use assms(1,2) in simp)
qed

text \<open>
  \<open>dbInsertElement\<close> reports a full memory only when \<open>emplace\<close> cannot allocate or when
  the eviction orders of all ten tables are empty: nothing was left to evict.
\<close>

lemma dbInsertElement_full:
  assumes "dbInsertElement key flags casUniq val expiry w = Inr (MEMORY_FULL, w')"
    and "\<not> badAlloc w" and "h < DB_MAX_HASH_TABLES"
  shows "gTimestampToKeySet w' h = []"
proof -
  let ?h = "getHashTblNbrFromKey key"
  have dist: "table_dist ?h x \<le> 10" if "x < DB_MAX_HASH_TABLES" for x
    using that getHashTblNbrFromKey_bound [of key]
    by (auto simp: table_dist_def DB_MAX_HASH_TABLES_def word_less_nat_alt)
  have not_full: "fst (dbInsertCommit key casUniq expiry cur T vs v) \<noteq> MEMORY_FULL" for cur T vs v
    by (auto simp: dbInsertCommit_def Let_def split: option.splits)
  from assms(1) show ?thesis
  proof (cases rule: dbInsertElement_cases)
    case full
    then have "\<not> badAlloc w'" using assms(2) by (simp add: evicts_def shrinks_def)
    with full(3) dist show ?thesis
      using insertEvictLoop_full [OF _ getHashTblNbrFromKey_bound getHashTblNbrFromKey_bound _ assms(3)]
        table_dist_start [of ?h] by (metis not_less)
  next
    case (commit w4)
    with not_full show ?thesis by (metis fst_conv)
  qed
qed

section \<open>The counter of stored bytes\<close>

text \<open>
  C24. Storing a new key and later evicting its entry leaves the counter four bytes higher: the
  size of the expiry is added but never given back.
\<close>

theorem stored_size_leak:
  assumes "room w key flags val" and "\<not> badAlloc w"
    and "gKeyToValueHashMap w (getHashTblNbrFromKey key) key = None"
  shows "\<exists>w'. \<exists>it. dbInsertElement key flags [] val expiry w = Inr (SUCCESS, w') \<and>
     gKeyToValueHashMap w' (getHashTblNbrFromKey key) key = Some it \<and>
     gStoredSize (evict_entry (getHashTblNbrFromKey key) i key it w') = gStoredSize w + 4"
  using assms
  by (simp add: dbInsertElement_room dbInsertCommit_def Let_def evict_entry_def insert_need_def
      evicted_size_def get_defs sizeof_ulong_def)

section \<open>Recency\<close>

lemma ts_insert_last:
  "\<forall>y \<in> set xs. tk_timestamp y < tk_timestamp e \<Longrightarrow> ts_insert e xs = xs @ [e]"
  unfolding ts_insert_def by (induction xs) (auto simp: timestampToKeyCompare_def)

text \<open>
  A successful look-up makes its key the most recently used one of its table: its entry is
  the last of the eviction order, and no entry is left under the timestamp it had.
\<close>

lemma dbGetElement_most_recent:
  assumes "db_wf w" and "dbGetElement key out w = (SUCCESS, out', w')"
    and "gKeyToValueHashMap w (getHashTblNbrFromKey key) key = Some it"
  shows "last (gTimestampToKeySet w' (getHashTblNbrFromKey key)) = \<lparr>tk_timestamp = gTimestamp w, tk_key = key\<rparr> \<and>
     (\<forall>e \<in> set (gTimestampToKeySet w' (getHashTblNbrFromKey key)).
        tk_timestamp e \<noteq> getTimestampFromMap it) \<and>
     (\<exists>it'. gKeyToValueHashMap w' (getHashTblNbrFromKey key) key = Some it' \<and>
            getTimestampFromMap it' = gTimestamp w)"
proof -
  let ?h = "getHashTblNbrFromKey key"
  let ?s = "ts_erase \<lparr>tk_timestamp = getTimestampFromMap it, tk_key = key\<rparr> (gTimestampToKeySet w ?h)"
  note tab = db_wf_table [OF assms(1) [unfolded db_wf_def], of ?h]
  have sub: "set ?s = {y \<in> set (gTimestampToKeySet w ?h). tk_timestamp y \<noteq> getTimestampFromMap it}"
    using table_wf_sorted [OF tab] by (simp add: set_ts_erase)
  then have order: "ts_insert \<lparr>tk_timestamp = gTimestamp w, tk_key = key\<rparr> ?s =
      ?s @ [\<lparr>tk_timestamp = gTimestamp w, tk_key = key\<rparr>]"
    using table_wf_order [OF tab] by (intro ts_insert_last) auto
  have old: "getTimestampFromMap it < gTimestamp w" using table_wf_map [OF tab assms(3)] by simp
  have "gTimestampToKeySet w' ?h = ts_insert \<lparr>tk_timestamp = gTimestamp w, tk_key = key\<rparr> ?s"
    and "gKeyToValueHashMap w' ?h key = Some (setTimestampToMap (gTimestamp w) it)"
    using assms(2,3) by (auto simp: dbGetElement_def Let_def split: if_splits)
  with order sub old show ?thesis by auto
qed

section \<open>The table of a key\<close>

text \<open>
  The table index is always below the number of tables, and only the last five characters of
  a key decide it.
\<close>

lemma getHashTblNbrFromKey_suffix:
  assumes "length s = 5" and "length (p @ s) < 2 ^ 32"
  shows "getHashTblNbrFromKey (p @ s) < DB_MAX_HASH_TABLES \<and>
     getHashTblNbrFromKey (p @ s) = getHashTblNbrFromKey s"
proof -
  have "\<not> (of_nat (length (p @ s)) :: uint) < 5"
    using assms of_nat_less32 [of "length (p @ s)" 5] by simp
  moreover have "(of_nat (length (p @ s)) :: uint) - 5 = of_nat (length p)" using assms(1) by simp
  ultimately show ?thesis using assms getHashTblNbrFromKey_bound [of "p @ s"]
    by (simp add: getHashTblNbrFromKey_def str_size_def Let_def unat_of_nat32 del: of_nat_add)
qed

end
