(* ===== verification/DbLruExamples.thy ===== *)
theory DbLruExamples
  imports DbLruEvict
begin

text \<open>
  Concrete storages, and the theorems on the storage applied to them: one key, two keys in the
  same table, a table about to overflow.
\<close>

definition ex_clock :: "nat \<Rightarrow> ulong" where
  "ex_clock n = 100"

definition ex_value :: "string \<Rightarrow> ValueStruct" where
  "ex_value v = \<lparr>vs_expiry = ULONG_MAX, vs_value = v, vs_flags = ''0'', vs_casUniq = ''7''\<rparr>"

definition ex_one :: db where
  "ex_one = (initial_db ex_clock)
     \<lparr>gTimestampToKeySet := (\<lambda>_. [])(7 := [\<lparr>tk_timestamp = 0, tk_key = ''a''\<rparr>]),
      gKeyToValueHashMap := (\<lambda>_. Map.empty)(7 := [''a'' \<mapsto> (ex_value ''xy'', 0)]),
      gStoredSize := 18, gTimestamp := 1\<rparr>"

definition ex_two :: db where
  "ex_two = (initial_db ex_clock)
     \<lparr>gTimestampToKeySet := (\<lambda>_. [])(7 := [\<lparr>tk_timestamp = 0, tk_key = ''a''\<rparr>,
                                           \<lparr>tk_timestamp = 1, tk_key = ''k''\<rparr>]),
      gKeyToValueHashMap := (\<lambda>_. Map.empty)(7 := [''a'' \<mapsto> (ex_value ''xy'', 0), ''k'' \<mapsto> (ex_value ''xyz'', 1)]),
      gStoredSize := 37, gTimestamp := 2\<rparr>"

lemma ex_hash [simp]: "getHashTblNbrFromKey ''a'' = 7" "getHashTblNbrFromKey ''k'' = 7"
    "getHashTblNbrFromKey ''b'' = 8"
  by code_simp+

lemma ex_one_simps [simp]:
  "gTimestampToKeySet ex_one = (\<lambda>_. [])(7 := [\<lparr>tk_timestamp = 0, tk_key = ''a''\<rparr>])"
  "gKeyToValueHashMap ex_one = (\<lambda>_. Map.empty)(7 := [''a'' \<mapsto> (ex_value ''xy'', 0)])"
  "gStoredSize ex_one = 18" "gTimestamp ex_one = 1" "gServMemLimit ex_one = 7000"
  "badAlloc ex_one = False" "gFlushAllTimestamp ex_one = 0" "casGenerator ex_one = None"
  "now ex_one = 100" "gIsFlushAllSet ex_one = False"
  by (simp_all add: ex_one_def initial_db_def SERV_DEF_MEM_LIMIT_def now_def ex_clock_def)

lemma ex_two_simps [simp]:
  "gTimestampToKeySet ex_two = (\<lambda>_. [])(7 := [\<lparr>tk_timestamp = 0, tk_key = ''a''\<rparr>,
     \<lparr>tk_timestamp = 1, tk_key = ''k''\<rparr>])"
  "gKeyToValueHashMap ex_two = (\<lambda>_. Map.empty)(7 := [''a'' \<mapsto> (ex_value ''xy'', 0), ''k'' \<mapsto> (ex_value ''xyz'', 1)])"
  "gTimestamp ex_two = 2" "gFlushAllTimestamp ex_two = 0" "casGenerator ex_two = None" "now ex_two = 100"
  by (simp_all add: ex_two_def initial_db_def now_def ex_clock_def)

lemma ex_value_simps [simp]:
  "vs_expiry (ex_value v) = - 1" "vs_value (ex_value v) = v" "vs_flags (ex_value v) = ''0''"
  "vs_casUniq (ex_value v) = ''7''"
  by (simp_all add: ex_value_def ULONG_MAX_def)

lemma ex_one_wf: "db_wf ex_one"
  unfolding db_wf_def db_wf_at_def
  by (auto intro!: table_wfI simp: ts_sorted_def getTimestampFromMap_def split: if_splits)

lemma ex_two_wf: "db_wf ex_two"
  unfolding db_wf_def db_wf_at_def
  by (auto intro!: table_wfI simp: ts_sorted_def timestampToKeyCompare_def getTimestampFromMap_def
      split: if_splits)

lemma ex_one_view: "db_view t ex_one = [''a'' \<mapsto> ex_value ''xy'']"
  by (auto simp: fun_eq_iff db_view_def entry_dead_def get_defs)

lemma ex_one_room: "room ex_one ''a'' ''0'' ''zz''" "room ex_one ''b'' ''0'' ''zz''"
  by (simp_all add: room_def)

text \<open>A look-up of a stored key.\<close>

theorem dbGetElement_refines_witness:
  "\<exists>st out' w'. dbGetElement ''a'' \<lparr>go_flags = [], go_cas = [], go_value = [], go_expiry = 0\<rparr> ex_one = (st, out', w') \<and>
     st = SUCCESS \<and> go_value out' = ''xy'' \<and> go_flags out' = ''0'' \<and> db_view 100 w' = db_view 100 ex_one"
proof -
  obtain st out' w' where g: "dbGetElement ''a'' \<lparr>go_flags = [], go_cas = [], go_value = [], go_expiry = 0\<rparr>
      ex_one = (st, out', w')" by (metis prod_cases3)
  from dbGetElement_refines [OF ex_one_wf this] have "st = SUCCESS \<and> go_value out' = ''xy'' \<and>
      go_flags out' = ''0'' \<and> db_view 100 w' = db_view 100 ex_one"
    by (simp add: ex_one_view)
  with g show ?thesis by blast
qed

text \<open>A deletion of a stored key.\<close>

theorem dbDeleteElement_refines_witness:
  "\<exists>w'. dbDeleteElement ''a'' 0 ex_one = (SUCCESS, w') \<and> db_view 200 w' = Map.empty \<and> gStoredSize w' = 18"
proof -
  obtain st w' where d: "dbDeleteElement ''a'' 0 ex_one = (st, w')" by (metis prod.exhaust)
  from dbDeleteElement_refines [OF d] have "st = SUCCESS" "db_view 200 w' = (db_view 200 ex_one)(''a'' := None)"
    "gStoredSize w' = 18" by (simp_all add: ex_one_view)
  with d show ?thesis by (simp add: ex_one_view)
qed

text \<open>The first key of an empty storage.\<close>

theorem dbInsertElement_new_key_witness:
  "\<exists>w'. dbInsertElement ''a'' ''0'' [] ''xy'' 0 (initial_db ex_clock) = Inr (SUCCESS, w') \<and>
     map_option vs_value (db_view 5000 w' ''a'') = Some ''xy''"
proof -
  let ?w = "initial_db ex_clock"
  have r: "room ?w ''a'' ''0'' ''xy''" "\<not> badAlloc ?w"
    by (simp_all add: room_def initial_db_def SERV_DEF_MEM_LIMIT_def)
  obtain w' where i: "dbInsertElement ''a'' ''0'' [] ''xy'' 0 ?w = Inr (SUCCESS, w')"
    using dbInsertElement_room [OF r, of "[]" 0]
    by (simp add: dbInsertCommit_def Let_def initial_db_def)
  from dbInsertElement_new_key [OF initial_db_wf _ i]
  have "db_view 5000 w' ''a'' = Some (new_value ?w ''0'' ''xy'' 0 (insert_cas ?w))"
    by (simp add: initial_db_def expiry_of_def ULONG_MAX_def)
  with i show ?thesis by simp
qed

text \<open>A second store of a key, with no expiry: gone a second later.\<close>

theorem dbInsertElement_existing_key_witness:
  "\<exists>w'. dbInsertElement ''a'' ''0'' [] ''zz'' 0 ex_one = Inr (SUCCESS, w') \<and> db_view 101 w' ''a'' = None"
  using dbInsertElement_existing_key [OF ex_one_room(1), of "(ex_value ''xy'', 0)" "[]" 0 101] by auto

theorem dbInsertElement_cas_witness:
  "\<exists>w'. dbInsertElement ''a'' ''0'' ''8'' ''zz'' 0 ex_one = Inr (EXIST, w') \<and>
     db_view 100 w' = [''a'' \<mapsto> ex_value ''xy'']"
  using dbInsertElement_cas [OF ex_one_room(1), of "''8''" 0 100] by (auto simp: get_defs ex_one_view)

theorem dbAddElement_refines_witness:
  "(\<exists>w'. dbAddElement ''a'' ''0'' [] ''zz'' 0 ex_one = Inr (EXIST, w') \<and> db_view 100 w' = db_view 100 ex_one) \<and>
   (\<exists>w'. dbAddElement ''b'' ''0'' [] ''zz'' 0 ex_one = Inr (SUCCESS, w') \<and> db_view 100 w' ''b'' \<noteq> None)"
  using dbAddElement_refines [OF ex_one_wf ex_one_room(1), of "[]" 0 100]
    dbAddElement_refines [OF ex_one_wf ex_one_room(2), of "[]" 0 100]
  by (auto simp: ex_one_view expiry_of_def ULONG_MAX_def)

text \<open>An addition that takes the stored size to its limit of 40 bytes.\<close>

theorem dbAddElement_overcommits_witness:
  "\<exists>w'. dbAddElement ''b'' ''0123456789'' [] ''zz'' 0 (ex_one\<lparr>gServMemLimit := 40\<rparr>) = Inr (SUCCESS, w') \<and>
     \<not> gStoredSize w' < gServMemLimit w'"
  by (rule dbAddElement_overcommits) simp_all

theorem dbHandleFlushAll_view_witness:
  "db_view 100 (dbHandleFlushAll (ex_one\<lparr>gIsFlushAllSet := True, gFlushAllTime := 99\<rparr>)) = Map.empty"
proof -
  have "db_wf (ex_one\<lparr>gIsFlushAllSet := True, gFlushAllTime := 99\<rparr>)"
    using ex_one_wf by (simp add: db_wf_def db_wf_at_def)
  from dbHandleFlushAll_view [OF this, of 100] show ?thesis by (simp add: now_def ex_one_def initial_db_def ex_clock_def)
qed

theorem removeLRUElement_larger_of_two_witness:
  "\<exists>w'. removeLRUElement 7 ex_two = Inr w' \<and>
     gTimestampToKeySet w' 7 = [\<lparr>tk_timestamp = 0, tk_key = ''a''\<rparr>] \<and> gKeyToValueHashMap w' 7 ''k'' = None"
  using removeLRUElement_larger_of_two [OF ex_two_wf, of 7 "\<lparr>tk_timestamp = 0, tk_key = ''a''\<rparr>"
      "\<lparr>tk_timestamp = 1, tk_key = ''k''\<rparr>" "[]" "(ex_value ''xy'', 0)" "(ex_value ''xyz'', 1)"
      "\<lparr>tk_timestamp = 1, tk_key = ''k''\<rparr>" "(ex_value ''xyz'', 1)"
      "\<lparr>tk_timestamp = 0, tk_key = ''a''\<rparr>" "(ex_value ''xy'', 0)"]
  by (auto simp: entry_dead_def get_defs str_size_def)


text \<open>A storing operation that the undefined behaviour reaches.\<close>

lemma ex_one_insert_fault:
  "dbInsertElement ''a'' ''0'' [] ''zz'' 0 (ex_one\<lparr>gServMemLimit := 19\<rparr>) = Inl SingularIterator" (is "dbInsertElement _ _ _ _ _ ?w = _")
proof -
  have "\<not> gStoredSize ?w + insert_need ''a'' (new_value ?w ''0'' ''zz'' 0 (insert_cas ?w)) < gServMemLimit ?w"
  proof -
    let ?n = "2 * length ''a'' + length ''0'' + length (insert_cas ?w) + length ''zz'' + 12"
    have "unat (of_nat ?n :: ulong) = ?n" using length_insert_cas [of ?w] by (intro unat_of_nat32) simp
    moreover from this have "unat (18 + of_nat ?n :: ulong) = 18 + ?n"
      using unat_add32 [of 18 "of_nat ?n"] length_insert_cas [of ?w] by simp
    ultimately show ?thesis unfolding insert_need_nat by (simp add: word_less_nat_alt)
  qed
  moreover have "\<exists>n. evict_fuel (insert_start ?w) = Suc n" using evict_fuel_pos not0_implies_Suc by blast
  moreover have "removeLRUElement 7 (insert_start ?w) = Inl SingularIterator"
    by (simp add: removeLRUElement_def lru_section_def Let_def entry_dead_def get_defs now_def ex_one_def initial_db_def ex_clock_def)
  ultimately show ?thesis by (auto simp: dbInsertElement_eq)
qed

theorem storing_terminates_witness:
  "dbInsertElement ''a'' ''0'' [] ''zz'' 0 (ex_one\<lparr>gServMemLimit := 19\<rparr>) = Inl SingularIterator \<and>
   dbInsertElement ''a'' ''0'' [] ''zz'' 0 (ex_one\<lparr>gServMemLimit := 19\<rparr>) \<noteq> Inl OutOfFuel"
  using storing_terminates [of "''a''" "''0''" "[]" "''zz''" 0 "ex_one\<lparr>gServMemLimit := 19\<rparr>" OutOfFuel]
    ex_one_insert_fault by auto

theorem dbInsertElement_full_witness:
  "\<exists>w'. dbInsertElement ''a'' ''0'' [] ''xy'' 0 ((initial_db ex_clock)\<lparr>gServMemLimit := 0\<rparr>) = Inr (MEMORY_FULL, w') \<and>
     gTimestampToKeySet w' 3 = []"
proof -
  let ?w = "(initial_db ex_clock)\<lparr>gServMemLimit := 0\<rparr>"
  have "insertEvictLoop (evict_fuel (insert_start ?w)) need 7 7 (insert_start ?w) = Inr (False, insert_start ?w)"
    for need
    by (rule insertEvictLoop_empty)
      (simp_all add: initial_db_def DB_MAX_HASH_TABLES_def table_dist_start evict_fuel_def)
  then have full: "dbInsertElement ''a'' ''0'' [] ''xy'' 0 ?w = Inr (MEMORY_FULL, insert_start ?w)"
    by (simp add: dbInsertElement_eq)
  moreover have "\<not> badAlloc ?w" by (simp add: initial_db_def)
  ultimately show ?thesis using dbInsertElement_full [OF full, of 3]
    by (auto simp: DB_MAX_HASH_TABLES_def)
qed

theorem stored_size_leak_witness:
  "\<exists>w' it. dbInsertElement ''b'' ''0'' [] ''zz'' 0 ex_one = Inr (SUCCESS, w') \<and>
     gStoredSize (evict_entry 8 0 ''b'' it w') = 22"
  using stored_size_leak [OF ex_one_room(2), of 0 0] by auto

theorem dbGetElement_most_recent_witness:
  "\<exists>out' w'. dbGetElement ''a'' \<lparr>go_flags = [], go_cas = [], go_value = [], go_expiry = 0\<rparr> ex_two =
       (SUCCESS, out', w') \<and> tk_key (last (gTimestampToKeySet w' 7)) = ''a''"
proof -
  obtain out' w' where g: "dbGetElement ''a'' \<lparr>go_flags = [], go_cas = [], go_value = [], go_expiry = 0\<rparr>
      ex_two = (SUCCESS, out', w')"
    by (simp add: dbGetElement_def Let_def entry_dead_def get_defs)
  from dbGetElement_most_recent [OF ex_two_wf g, of "(ex_value ''xy'', 0)"] g show ?thesis by auto
qed

theorem getHashTblNbrFromKey_suffix_witness:
  "getHashTblNbrFromKey ''prefix-abcde'' = getHashTblNbrFromKey ''abcde'' \<and> getHashTblNbrFromKey ''prefix-abcde'' = 5"
proof -
  have "getHashTblNbrFromKey (''prefix-'' @ ''abcde'') = getHashTblNbrFromKey ''abcde''"
    using getHashTblNbrFromKey_suffix [of "''abcde''" "''prefix-''"] by simp
  moreover have "getHashTblNbrFromKey ''abcde'' = 5" by code_simp
  ultimately show ?thesis by simp
qed

end
