(* ===== verification/CmdParse.thy ===== *)
theory CmdParse
  imports Cmd DbLruExamples
begin

text \<open>
  The parser of the storage commands undoes the printing of a request: for every command line
  built from fields without spaces and line ends, \<open>cmdProcessCommon\<close> returns the fields, and
  when the data block is cut short it asks for exactly the bytes that are missing.
\<close>

definition token :: "string \<Rightarrow> bool" where
  "token s \<longleftrightarrow> CHR '' '' \<notin> set s \<and> CHR 0x0D \<notin> set s"

text \<open>Fields with single spaces between them.\<close>

fun spaced :: "string list \<Rightarrow> string" where
  "spaced [] = []"
| "spaced [f] = f"
| "spaced (f # fs) = f @ '' '' @ spaced fs"

text \<open>The command line of a storage command, without the line end.\<close>

definition storage_line :: "string \<Rightarrow> string \<Rightarrow> string \<Rightarrow> nat \<Rightarrow> nat \<Rightarrow> bool \<Rightarrow> string" where
  "storage_line verb key flags exptime bytes noreply =
     verb @ '' '' @ key @ '' '' @ flags @ '' '' @ decimal exptime @ '' '' @ decimal bytes @
     (if noreply then '' noreply'' else [])"

text \<open>A complete request: the command line, the data block, and their line ends.\<close>

definition request :: "string \<Rightarrow> string \<Rightarrow> string \<Rightarrow> nat \<Rightarrow> bool \<Rightarrow> string \<Rightarrow> string" where
  "request verb key flags exptime noreply data =
     storage_line verb key flags exptime (length data) noreply @ crlf @ data @ crlf"

section \<open>Fields\<close>

lemma token_decimal [simp]: "token (decimal n)"
  unfolding token_def using decimal_digits is_digit_not_special by metis

lemma find_space_field:
  assumes "input = pre @ tok @ '' '' @ rest" and "CHR '' '' \<notin> set tok" and "length input < 2 ^ 32 - 1"
  shows "find_space input (of_nat (length pre)) = of_nat (length pre + length tok)"
  unfolding find_space_def
  by (rule str_find_char [of _ pre tok "CHR '' ''" rest]) (use assms in simp_all)

text \<open>Behind the last field of the line, a search for a space leaves the line.\<close>

lemma find_space_last:
  assumes "input = pre @ tok @ crlf @ rest" and "CHR '' '' \<notin> set tok" and "length input < 2 ^ 32 - 1"
  shows "of_nat (length pre + length tok) < find_space input (of_nat (length pre))"
  using assms(3)
proof (cases rule: str_find_cases [of input "'' ''" "of_nat (length pre)"])
  case none
  then show ?thesis using assms less_minus_one32 [of "length pre + length tok"]
    by (simp add: npos_def find_space_def)
next
  case (hit i)
  have "length pre \<le> i" using hit(2) assms by (simp add: unat_of_nat32)
  have "CHR '' '' = input ! i"
    using hit(3,4) by (cases "drop i input") (auto simp: drop_eq_nths nth_via_drop)
  moreover have "input ! j \<noteq> CHR '' ''" if "length pre \<le> j" "j \<le> length pre + length tok" for j
    using that assms(1,2) by (auto simp: nth_append crlf_def nth_Cons' in_set_conv_nth)
  ultimately have "length pre + length tok < i" using \<open>length pre \<le> i\<close> by fastforce
  then show ?thesis using hit(1,3) assms(3) by (simp add: of_nat_less32 find_space_def del: of_nat_add)
qed

lemma substr_field:
  assumes "input = pre @ tok @ rest" and "length input < 2 ^ 32 - 1"
  shows "substr input (of_nat (length pre)) (of_nat (length pre + length tok) - of_nat (length pre)) = Inr tok"
  by (rule substr_slice [of _ pre tok rest]) (use assms in simp_all)

lemma on_line: "m \<le> n \<Longrightarrow> n < 2 ^ 32 - 1 \<Longrightarrow> \<not> past_line (of_nat m) (of_nat n)"
  using not_minus_one32 [of m] of_nat_less32 [of n m] by (auto simp: past_line_def npos_def)

lemma off_line: "of_nat n < p \<Longrightarrow> past_line p (of_nat n)"
  by (simp add: past_line_def)

lemma find_line_end:
  assumes "input = hdr @ crlf @ rest" and "CHR 0x0D \<notin> set hdr" and "length input < 2 ^ 32 - 1"
  shows "str_find input crlf 0 = of_nat (length hdr)"
  using str_find_crlf [of input "[]" hdr rest 0] assms by simp

section \<open>The blocks of the parser\<close>

lemma step_bind_simps [simp]:
  "step_bind (Throw e) f = Throw e" "step_bind (Return r out s w) f = Return r out s w"
  "step_bind (Continue a) f = f a"
  by (simp_all add: step_bind_def)

lemma lift_simps [simp]: "lift (Inl e) = Throw e" "lift (Inr a) = Continue a"
  by (simp_all add: lift_def)

lemma commonKey_field:
  assumes "input = verb @ '' '' @ key @ '' '' @ rest" and "token verb" and "token key"
    and "length input < 2 ^ 32 - 1" and "length verb + length key + 1 \<le> n" and "n < 2 ^ 32 - 1"
  shows "commonKey input (of_nat n) store w =
     Continue (of_nat (length (verb @ '' '' @ key @ '' '')), store\<lparr>st_key := key\<rparr>)"
proof -
  have sp: "find_space input 0 = of_nat (length verb)"
    using find_space_field [of input "[]" verb "key @ '' '' @ rest"] assms by (simp add: token_def)
  have start: "(of_nat (length verb) + 1 :: uint) = of_nat (length (verb @ '' ''))" by simp
  have t: "find_space input (of_nat (length (verb @ '' ''))) = of_nat (length (verb @ '' '') + length key)"
    by (rule find_space_field [of _ _ _ rest]) (use assms in \<open>simp_all add: token_def\<close>)
  have s: "substr input (of_nat (length (verb @ '' ''))) (of_nat (length (verb @ '' '') + length key) -
      of_nat (length (verb @ '' ''))) = Inr key"
    by (rule substr_field [of _ _ _ "'' '' @ rest"]) (use assms in simp_all)
  have "\<not> past_line (of_nat (length verb)) (of_nat n)"
    "\<not> past_line (of_nat (length (verb @ '' '') + length key)) (of_nat n)"
    by (rule on_line; use assms(5,6) in simp)+
  then show ?thesis unfolding commonKey_def Let_def sp start t s by (simp add: ac_simps)
qed

text \<open>A field and the space behind it, read from the position of the field.\<close>

lemma read_field:
  assumes "input = pre @ tok @ '' '' @ rest" and "token tok" and "length input < 2 ^ 32 - 1"
    and "p = of_nat (length pre)" and "length pre + length tok \<le> n" and "n < 2 ^ 32 - 1"
  shows "find_space input p = of_nat (length pre + length tok)"
    and "substr input p (find_space input p - p) = Inr tok"
    and "\<not> past_line (find_space input p) (of_nat n)"
    and "find_space input p \<noteq> npos"
    and "\<not> of_nat n < find_space input p"
proof -
  show f: "find_space input p = of_nat (length pre + length tok)"
    using find_space_field [of input pre tok rest] assms by (simp add: token_def)
  show "substr input p (find_space input p - p) = Inr tok"
    unfolding f unfolding assms(4) by (rule substr_field [of _ _ _ "'' '' @ rest"]) (use assms in simp_all)
  show l: "\<not> past_line (find_space input p) (of_nat n)"
    unfolding f by (rule on_line) (use assms(5,6) in simp_all)
  then show "find_space input p \<noteq> npos" "\<not> of_nat n < find_space input p"
    by (simp_all add: past_line_def)
qed

definition store_expiry :: "ulong \<Rightarrow> db \<Rightarrow> ulong" where
  "store_expiry v w = (if EXPIRY_THRESHOLD < v then v - now w else v)"

definition expiry_tick :: "ulong \<Rightarrow> db \<Rightarrow> db" where
  "expiry_tick v w = (if EXPIRY_THRESHOLD < v then tick w else w)"

lemma commonExpiry_eq: "commonExpiry v store w = (store\<lparr>st_expTime := store_expiry v w\<rparr>, expiry_tick v w)"
  by (simp add: commonExpiry_def store_expiry_def expiry_tick_def)

lemma commonFlags_fields:
  assumes input: "input = pre @ flags @ '' '' @ expS @ '' '' @ rest" and "token flags" and "token expS"
    and len: "length input < 2 ^ 32 - 1"
    and n: "length pre + length flags + length expS + 1 \<le> n" "n < 2 ^ 32 - 1"
    and v: "stoul expS = Inr v"
  shows "commonFlags input (of_nat n) (of_nat (length pre)) store w =
     Continue (of_nat (length (pre @ flags @ '' '' @ expS)),
       store\<lparr>st_flags := flags, st_expTime := store_expiry v w\<rparr>, expiry_tick v w)"
proof -
  note f1 = read_field [of input pre flags "expS @ '' '' @ rest" "of_nat (length pre)" n]
  note f2 = read_field [of input "pre @ flags @ '' ''" expS rest "of_nat (length (pre @ flags @ '' ''))" n]
  have start: "(of_nat (length pre + length flags) + 1 :: uint) = of_nat (length (pre @ flags @ '' ''))"
    by simp
  have "find_space input (of_nat (length pre)) = of_nat (length pre + length flags)"
    "substr input (of_nat (length pre)) (find_space input (of_nat (length pre)) - of_nat (length pre)) = Inr flags"
    "\<not> past_line (find_space input (of_nat (length pre))) (of_nat n)"
    using f1 assms by simp_all
  moreover have "find_space input (of_nat (length (pre @ flags @ '' ''))) =
      of_nat (length (pre @ flags @ '' '') + length expS)"
    "substr input (of_nat (length (pre @ flags @ '' '')))
       (find_space input (of_nat (length (pre @ flags @ '' ''))) - of_nat (length (pre @ flags @ '' ''))) = Inr expS"
    "\<not> past_line (find_space input (of_nat (length (pre @ flags @ '' '')))) (of_nat n)"
    using f2 assms by simp_all
  moreover have "length (pre @ flags @ '' '' @ expS) = length (pre @ flags @ '' '') + length expS" by simp
  ultimately show ?thesis
    unfolding commonFlags_def Let_def start
    by (simp only: v commonExpiry_eq start step_bind_simps lift_simps sum.case prod.case if_False)
qed

lemma commonBytes_last:
  assumes input: "input = pre @ tok @ crlf @ rest" and "token tok" and len: "length input < 2 ^ 32 - 1"
    and n: "n = length pre + length tok"
  shows "\<exists>b t. commonBytes input (of_nat n) False (of_nat (length pre)) store w =
      Continue (b, of_nat (length pre), t, store) \<and> of_nat n < t"
proof -
  have "of_nat n < find_space input (of_nat (length pre))"
    using find_space_last [of input pre tok rest] assms by (simp add: token_def)
  moreover obtain b where "substr input (of_nat (length pre))
      (find_space input (of_nat (length pre)) - of_nat (length pre)) = Inr b"
    using len input by (simp add: substr_def unat_of_nat32)
  ultimately show ?thesis by (simp add: commonBytes_def Let_def)
qed

lemma commonNoreply_last:
  assumes input: "input = pre @ tok @ crlf @ rest" and "token tok" and "CHR 0x0D \<notin> set pre"
    and len: "length input < 2 ^ 32 - 1" and "of_nat n < t"
  shows "commonNoreply input (of_nat n) False b (of_nat (length pre)) t store w =
     Continue (tok, store\<lparr>st_noreply := False\<rparr>)"
proof -
  have "str_find input crlf (of_nat (length pre)) = of_nat (length pre + length tok)"
    by (rule str_find_crlf [of _ pre tok rest]) (use assms in \<open>simp_all add: token_def\<close>)
  moreover have "substr input (of_nat (length pre)) (of_nat (length pre + length tok) - of_nat (length pre)) = Inr tok"
    by (rule substr_field [of _ _ _ "crlf @ rest"]) (use assms in simp_all)
  ultimately show ?thesis using assms(5) by (simp add: commonNoreply_def del: of_nat_add)
qed

lemma commonNoreply_given:
  assumes input: "input = pre @ ''noreply'' @ crlf @ rest" and len: "length input < 2 ^ 32 - 1"
    and t: "t + 1 = of_nat (length pre)" and n: "n = length pre + 7" and "\<not> of_nat n < t"
  shows "commonNoreply input (of_nat n) False b start t store w =
     Continue (b, store\<lparr>st_noreply := True\<rparr>)"
proof -
  have "str_find input crlf (of_nat (length pre)) = of_nat (length pre + length ''noreply'')"
    by (rule str_find_crlf [of _ pre "''noreply''" rest]) (use assms in simp_all)
  moreover have "substr input (of_nat (length pre)) (of_nat (length pre + length ''noreply'') - of_nat (length pre)) =
      Inr ''noreply''"
    by (rule substr_field [of _ _ _ "crlf @ rest"]) (use assms in simp_all)
  moreover have "(of_nat (length pre) :: uint) \<noteq> of_nat n"
    using n len input by (subst of_nat_eq32) simp_all
  ultimately show ?thesis using assms(5) t by (simp add: commonNoreply_def Let_def del: of_nat_add)
qed

lemma commonBytes_field:
  assumes "input = pre @ tok @ '' '' @ rest" and "token tok" and "length input < 2 ^ 32 - 1"
    and "length pre + length tok \<le> n" and "n < 2 ^ 32 - 1"
  shows "commonBytes input (of_nat n) False (of_nat (length pre)) store w =
     Continue (tok, of_nat (length pre), of_nat (length pre + length tok), store)"
proof -
  have "substr input (of_nat (length pre)) (of_nat (length pre + length tok) - of_nat (length pre)) = Inr tok"
    and "find_space input (of_nat (length pre)) = of_nat (length pre + length tok)"
    using read_field(1,2) [of input pre tok rest "of_nat (length pre)" n] assms by simp_all
  then show ?thesis by (simp add: commonBytes_def Let_def del: of_nat_add)
qed

lemma sint_of_nat32: "k < 2 ^ 31 \<Longrightarrow> sint (of_nat k :: 32 word) = int k"
  by (simp add: signed_of_nat signed_take_bit_int_eq_self)

lemma commonData_enough:
  assumes input: "input = hdr @ crlf @ data @ tail" and len: "length input < 2 ^ 32 - 1"
    and b: "stoul bytesStr = Inr (of_nat (length data))"
  shows "commonData input (of_nat (length hdr)) bytesStr store w =
     Return 0 [] (store\<lparr>st_bytes := of_nat (length data),
                        st_data := if data = [] then st_data store else data\<rparr>) w"
proof -
  have pos: "(of_nat (length hdr) + 2 :: uint) = of_nat (length (hdr @ crlf))" by (simp add: crlf_def)
  have "of_nat (length hdr) \<noteq> npos"
    using not_minus_one32 [of "length hdr"] len input by (simp add: npos_def)
  moreover have "\<not> str_size input < of_nat (length (hdr @ crlf))"
    unfolding str_size_def using input len by (subst of_nat_less32) simp_all
  moreover have "substr input (of_nat (length (hdr @ crlf))) (of_nat (length data)) = Inr data"
    by (rule substr_slice [of _ "hdr @ crlf" _ tail]) (use input len in simp_all)
  moreover have "(of_nat (length data) :: uint) = 0 \<longleftrightarrow> data = []"
    using of_nat_eq32 [of "length data" 0] input len by simp
  ultimately show ?thesis
    by (cases "data = []") (simp_all add: commonData_def b Let_def pos str_size_def del: length_append)
qed

lemma commonData_missing:
  assumes input: "input = hdr @ crlf @ part" and len: "length input < 2 ^ 32 - 1"
    and b: "stoul bytesStr = Inr (of_nat m)" and m: "length part < m" "m + 2 < 2 ^ 31"
  shows "commonData input (of_nat (length hdr)) bytesStr store w =
     Return (int (m + 2 - length part)) [] (store\<lparr>st_bytes := of_nat m, st_data := part\<rparr>) w"
proof -
  have pos: "(of_nat (length hdr) + 2 :: uint) = of_nat (length (hdr @ crlf))" by (simp add: crlf_def)
  have "of_nat (length hdr) \<noteq> npos"
    using not_minus_one32 [of "length hdr"] len input by (simp add: npos_def)
  moreover have "\<not> str_size input < of_nat (length (hdr @ crlf))"
    unfolding str_size_def using input len by (subst of_nat_less32) simp_all
  moreover have "substr input (of_nat (length (hdr @ crlf))) (of_nat m) = Inr part"
    by (rule substr_npos_rest [of _ "hdr @ crlf"]) (use input len m in \<open>simp_all add: unat_of_nat32\<close>)
  moreover have "(of_nat m :: uint) \<noteq> 0" using of_nat_eq32 [of m 0] m by simp
  moreover have "str_size part < of_nat m" unfolding str_size_def using m by (subst of_nat_less32) simp_all
  moreover have "(of_nat m + 2 - str_size part :: uint) = of_nat (m + 2 - length part)"
    using m by (simp add: str_size_def of_nat_diff)
  moreover have "sint (of_nat (m + 2 - length part) :: uint) = int (m + 2 - length part)"
    using m by (intro sint_of_nat32) simp
  ultimately show ?thesis by (simp add: commonData_def b Let_def pos del: length_append)
qed

section \<open>The whole command line\<close>

text \<open>What a parsed command line leaves in the request, before the data block is looked at.\<close>

definition line_store :: "string \<Rightarrow> string \<Rightarrow> nat \<Rightarrow> bool \<Rightarrow> db \<Rightarrow> StorageStruct \<Rightarrow> StorageStruct" where
  "line_store key flags exptime noreply w store =
     store\<lparr>st_key := key, st_flags := flags, st_expTime := store_expiry (of_nat exptime) w,
           st_noreply := noreply\<rparr>"

lemma cmdProcessCommon_line:
  assumes input: "input = storage_line verb key flags exptime bytes noreply @ crlf @ rest"
    and tok: "token verb" "token key" "token flags" and e: "exptime < 2 ^ 32"
    and len: "length input < 2 ^ 32 - 1"
  shows "cmdProcessCommon input False False store w =
    (case commonData input (of_nat (length (storage_line verb key flags exptime bytes noreply)))
        (decimal bytes) (line_store key flags exptime noreply w store) (expiry_tick (of_nat exptime) w) of
       Throw e \<Rightarrow> Inl e | Return r out store w \<Rightarrow> Inr (r, out, store, w)
     | Continue _ \<Rightarrow> Inr (0, [], store, w))"
proof -
  let ?pre = "verb @ '' '' @ key @ '' '' @ flags @ '' '' @ decimal exptime @ '' ''"
  define hdr where "hdr = storage_line verb key flags exptime bytes noreply"
  define n where "n = length hdr"
  have hdr: "hdr = ?pre @ decimal bytes @ (if noreply then '' noreply'' else [])"
    by (simp add: hdr_def storage_line_def)
  have cr: "CHR 0x0D \<notin> set ?pre" and crd: "CHR 0x0D \<notin> set (decimal bytes)"
    using tok token_decimal by (auto simp: token_def)
  have inp: "input = hdr @ crlf @ rest" using input hdr_def by simp
  have n32: "n < 2 ^ 32 - 1" using len inp n_def by simp
  have endl: "str_find input crlf 0 = of_nat n"
    unfolding n_def using inp hdr cr crd len by (intro find_line_end [of _ _ rest]) auto
  have k: "commonKey input (of_nat n) store w =
      Continue (of_nat (length (verb @ '' '' @ key @ '' '')), store\<lparr>st_key := key\<rparr>)"
    by (rule commonKey_field) (use inp hdr tok len n32 n_def in simp_all)
  have f: "commonFlags input (of_nat n) (of_nat (length (verb @ '' '' @ key @ '' ''))) s w =
      Continue (of_nat (length ((verb @ '' '' @ key @ '' '') @ flags @ '' '' @ decimal exptime)),
        s\<lparr>st_flags := flags, st_expTime := store_expiry (of_nat exptime) w\<rparr>, expiry_tick (of_nat exptime) w)" for s
    by (rule commonFlags_fields) (use inp hdr tok len n32 n_def e in \<open>simp_all add: stoul_decimal\<close>)
  have next1: "(of_nat (length ((verb @ '' '' @ key @ '' '') @ flags @ '' '' @ decimal exptime)) + 1 :: uint) =
      of_nat (length ?pre)" by simp
  have b: "\<exists>bs t. commonBytes input (of_nat n) False (of_nat (length ?pre)) s v =
        Continue (bs, of_nat (length ?pre), t, s) \<and>
      commonNoreply input (of_nat n) False bs (of_nat (length ?pre)) t s v =
        Continue (decimal bytes, s\<lparr>st_noreply := noreply\<rparr>)" for s v
  proof (cases noreply)
    case False
    then have i: "input = ?pre @ decimal bytes @ crlf @ rest" and nn: "n = length ?pre + length (decimal bytes)"
      using inp hdr n_def by simp_all
    from commonBytes_last [OF i token_decimal len nn, of s v] obtain bs t
      where c: "commonBytes input (of_nat n) False (of_nat (length ?pre)) s v = Continue (bs, of_nat (length ?pre), t, s)"
        and t: "of_nat n < t" by blast
    have "noreply = False" using False by simp
    then show ?thesis
      using c commonNoreply_last [OF i token_decimal cr len t, of bs s v] by metis
  next
    case True
    then have i: "input = ?pre @ decimal bytes @ '' '' @ ''noreply'' @ crlf @ rest"
      and nn: "n = length ?pre + length (decimal bytes) + 8"
      using inp hdr n_def by simp_all
    let ?t = "of_nat (length ?pre + length (decimal bytes)) :: uint"
    have "commonBytes input (of_nat n) False (of_nat (length ?pre)) s v =
        Continue (decimal bytes, of_nat (length ?pre), ?t, s)"
      by (rule commonBytes_field [OF i]) (use nn n32 len in simp_all)
    moreover have "commonNoreply input (of_nat n) False (decimal bytes) (of_nat (length ?pre)) ?t s v =
        Continue (decimal bytes, s\<lparr>st_noreply := True\<rparr>)"
    proof (rule commonNoreply_given)
      show "input = (?pre @ decimal bytes @ '' '') @ ''noreply'' @ crlf @ rest" using i by simp
      show "?t + 1 = of_nat (length (?pre @ decimal bytes @ '' ''))" by simp
      show "\<not> of_nat n < ?t" using n32 nn by (subst of_nat_less32) simp_all
    qed (use len nn in simp_all)
    moreover have "noreply = True" using True by simp
    ultimately show ?thesis by metis
  qed
  from b [of "store\<lparr>st_key := key, st_flags := flags, st_expTime := store_expiry (of_nat exptime) w\<rparr>"
      "expiry_tick (of_nat exptime) w"]
  show ?thesis
    unfolding cmdProcessCommon_def Let_def endl k
    by (auto simp only: step_bind_simps prod.case if_False f next1 line_store_def hdr_def [symmetric] n_def [symmetric])
qed

lemma cmdProcessCommon_request:
  assumes "token verb" "token key" "token flags" and "exptime < 2 ^ 32"
    and "length (request verb key flags exptime noreply data) < 2 ^ 32 - 1"
  shows "cmdProcessCommon (request verb key flags exptime noreply data) False False empty_store w =
     Inr (0, [], \<lparr>st_key = key, st_flags = flags, st_expTime = store_expiry (of_nat exptime) w,
                 st_bytes = of_nat (length data), st_casStr = [], st_noreply = noreply,
                 st_data = data\<rparr>, expiry_tick (of_nat exptime) w)"
proof -
  have "length data < 2 ^ 32" using assms(5) by (simp add: request_def)
  then have b: "stoul (decimal (length data)) = Inr (of_nat (length data))" by (rule stoul_decimal)
  have "request verb key flags exptime noreply data =
      storage_line verb key flags exptime (length data) noreply @ crlf @ data @ crlf"
    by (simp add: request_def)
  from cmdProcessCommon_line [OF this assms(1-4,5)] commonData_enough [OF this assms(5) b]
  show ?thesis by (simp add: line_store_def empty_store_def)
qed

text \<open>
  C4. Parsing undoes printing: for every storage request whose fields contain no space and no
  line end, and whatever bytes the data block holds, the parser reports no error, needs no more
  data, and returns the key, the flags, the expiry time, the length, the \<open>noreply\<close> mark and
  the data of the request.
\<close>

theorem cmdProcessCommon_roundtrip:
  assumes "token verb" "token key" "token flags" and "exptime < 2 ^ 32"
    and "length (request verb key flags exptime noreply data) < 2 ^ 32 - 1"
  shows "cmdProcessCommon (request verb key flags exptime noreply data) False False empty_store w =
     Inr (0, [], \<lparr>st_key = key, st_flags = flags, st_expTime = store_expiry (of_nat exptime) w,
                 st_bytes = of_nat (length data), st_casStr = [], st_noreply = noreply,
                 st_data = data\<rparr>, expiry_tick (of_nat exptime) w)"
  by (rule cmdProcessCommon_request) (fact assms)+

theorem cmdProcessCommon_roundtrip_witness:
  "cmdProcessCommon (request ''set'' ''k'' ''5'' 30 True ''a b'') False False empty_store (initial_db ex_clock) =
     Inr (0, [], \<lparr>st_key = ''k'', st_flags = ''5'', st_expTime = 30, st_bytes = 3, st_casStr = [],
                 st_noreply = True, st_data = ''a b''\<rparr>, initial_db ex_clock)"
proof -
  have "decimal 30 = ''30''" "decimal (Suc (Suc (Suc 0))) = ''3''" by code_simp+
  then have "length (request ''set'' ''k'' ''5'' 30 True ''a b'') < 2 ^ 32 - 1"
    by (simp add: request_def storage_line_def crlf_def)
  with cmdProcessCommon_roundtrip [of "''set''" "''k''" "''5''" 30 True "''a b''" "initial_db ex_clock"]
  show ?thesis by (simp add: token_def store_expiry_def expiry_tick_def EXPIRY_THRESHOLD_def)
qed

text \<open>
  When the data block is cut short, the parser asks for exactly the bytes that are missing
  up to the end of the block and its line end.
\<close>

lemma cmdProcessCommon_missing:
  assumes "token verb" "token key" "token flags" and "exptime < 2 ^ 32"
    and "input = storage_line verb key flags exptime bytes noreply @ crlf @ part"
    and "length input < 2 ^ 32 - 1" and "length part < bytes" and "bytes + 2 < 2 ^ 31"
  shows "\<exists>store. cmdProcessCommon input False False empty_store w =
     Inr (int (bytes + 2 - length part), [], store, expiry_tick (of_nat exptime) w)"
proof -
  have "stoul (decimal bytes) = Inr (of_nat bytes)" using assms(8) by (intro stoul_decimal) simp
  from cmdProcessCommon_line [OF assms(5) assms(1-4,6)]
    commonData_missing [OF assms(5,6) this assms(7,8)]
  show ?thesis by simp
qed

theorem cmdProcessCommon_missing_witness:
  "\<exists>store. cmdProcessCommon (storage_line ''set'' ''k'' ''5'' 30 10 False @ crlf @ ''abc'') False False
     empty_store (initial_db ex_clock) = Inr (9, [], store, initial_db ex_clock)"
proof -
  have "decimal 30 = ''30''" "decimal 10 = ''10''" by code_simp+
  then have "length (storage_line ''set'' ''k'' ''5'' 30 10 False @ crlf @ ''abc'') < 2 ^ 32 - 1"
    by (simp add: storage_line_def crlf_def)
  with cmdProcessCommon_missing [OF _ _ _ _ refl this, of "initial_db ex_clock"] show ?thesis
    by (simp add: token_def expiry_tick_def EXPIRY_THRESHOLD_def)
qed

end
