(* ===== verification/CmdGet.thy ===== *)
theory CmdGet
  imports CmdParse
begin

text \<open>
  Retrieval: the loop that cuts a command line into keys returns exactly the fields of the line,
  and the replies of \<open>get\<close> and \<open>gets\<close> are the blocks of the visible keys, in the order asked.
\<close>

section \<open>The keys of a command line\<close>

lemma getKeys_fields:
  assumes "input = pre @ '' '' @ spaced keys @ crlf @ rest" and "keys \<noteq> []" and "\<forall>k \<in> set keys. token k"
    and "length input < 2 ^ 32 - 1" and "n = length pre + 1 + length (spaced keys)" and "length keys \<le> fuel"
  shows "getKeys fuel input (of_nat n) (of_nat (length pre)) = Inr keys"
  using assms
proof (induction keys arbitrary: pre fuel rule: spaced.induct)
  case (2 key)
  obtain f where f: "fuel = Suc f" using "2.prems"(6) by (cases fuel) simp_all
  have start: "(of_nat (length pre) + 1 :: uint) = of_nat (length (pre @ '' ''))" by simp
  have inp: "input = (pre @ '' '') @ key @ crlf @ rest" using "2.prems"(1) by simp
  have "of_nat (length (pre @ '' '') + length key) < find_space input (of_nat (length (pre @ '' '')))"
    by (rule find_space_last [OF inp]) (use "2.prems" in \<open>simp_all add: token_def\<close>)
  moreover have nn: "n = length (pre @ '' '') + length key" using "2.prems"(5) by simp
  ultimately have "past_line (find_space input (of_nat (length (pre @ '' '')))) (of_nat n)"
    by (simp only: off_line)
  moreover have "substr input (of_nat (length (pre @ '' ''))) (of_nat n - of_nat (length (pre @ '' ''))) = Inr key"
    unfolding nn by (rule substr_field [OF inp "2.prems"(4)])
  ultimately show ?case unfolding f getKeys.simps Let_def start by simp
next
  case (3 key k2 ks)
  obtain f where f: "fuel = Suc f" "length (k2 # ks) \<le> f" using "3.prems"(6) by (cases fuel) simp_all
  have start: "(of_nat (length pre) + 1 :: uint) = of_nat (length (pre @ '' ''))" by simp
  have inp: "input = (pre @ '' '') @ key @ '' '' @ (spaced (k2 # ks) @ crlf @ rest)"
    using "3.prems"(1) by simp
  note r = read_field [OF inp _ "3.prems"(4) refl, of n]
  have n: "length (pre @ '' '') + length key \<le> n" "n < 2 ^ 32 - 1"
    using "3.prems"(1,4,5) by simp_all
  have t: "token key" using "3.prems"(3) by simp
  have "getKeys f input (of_nat n) (of_nat (length ((pre @ '' '') @ key))) = Inr (k2 # ks)"
    by (rule "3.IH") (use "3.prems" f inp in simp_all)
  moreover have "length ((pre @ '' '') @ key) = length (pre @ '' '') + length key" by simp
  ultimately show ?case unfolding f getKeys.simps Let_def start
    using r(1-3) [OF t n] by (simp only: if_False rbind_Inr)
qed simp

section \<open>Looking up several keys\<close>

text \<open>
  The interface retrieval relies on: in a steady state a look-up returns what the view holds,
  leaves the view alone, and the state stays steady for the look-ups to come. A client that looks
  up a list of keys then reads the one view for all of them.
\<close>

locale lookup_service =
  fixes steady :: "nat \<Rightarrow> 's \<Rightarrow> bool"
    and view :: "'s \<Rightarrow> 'k \<Rightarrow> 'v option"
    and lookup :: "'k \<Rightarrow> 's \<Rightarrow> 'v option \<times> 's"
  assumes lookup_value: "steady (Suc n) s \<Longrightarrow> fst (lookup k s) = view s k"
    and lookup_view: "steady (Suc n) s \<Longrightarrow> view (snd (lookup k s)) = view s"
    and lookup_steady: "steady (Suc n) s \<Longrightarrow> steady n (snd (lookup k s))"
begin

fun lookups :: "'k list \<Rightarrow> 's \<Rightarrow> 'v option list \<times> 's" where
  "lookups [] s = ([], s)"
| "lookups (k # ks) s =
     (let (v, s) = lookup k s; (vs, s) = lookups ks s in (v # vs, s))"

lemma lookups_view:
  "steady (length ks) s \<Longrightarrow>
   fst (lookups ks s) = map (view s) ks \<and> view (snd (lookups ks s)) = view s \<and> steady 0 (snd (lookups ks s))"
proof (induction ks arbitrary: s)
  case (Cons k ks)
  then have "steady (length ks) (snd (lookup k s))" using lookup_steady by simp
  with Cons.IH [of "snd (lookup k s)"] Cons.prems show ?case
    using lookup_value lookup_view by (simp add: case_prod_beta Let_def)
qed simp

end

text \<open>The storage, with the clock at one second and enough timestamps left, provides it.\<close>

definition same_second :: "db \<Rightarrow> ulong \<Rightarrow> bool" where
  "same_second w t \<longleftrightarrow> (\<forall>i \<ge> clockReads w. sysClock w i = t)"

definition steady_at :: "ulong \<Rightarrow> nat \<Rightarrow> db \<Rightarrow> bool" where
  "steady_at t n w \<longleftrightarrow> db_wf w \<and> same_second w t \<and> unat (gTimestamp w) + n < 2 ^ 32"

definition found :: "retStatus \<times> GetOut \<times> db \<Rightarrow> (string \<times> string \<times> string) option \<times> db" where
  "found r = (case r of (st, out, w) \<Rightarrow>
     (if st = SUCCESS then Some (go_flags out, go_cas out, go_value out) else None, w))"

definition db_lookup :: "string \<Rightarrow> db \<Rightarrow> (string \<times> string \<times> string) option \<times> db" where
  "db_lookup key w = found (dbGetElement key no_out w)"

definition view_at :: "ulong \<Rightarrow> db \<Rightarrow> string \<Rightarrow> (string \<times> string \<times> string) option" where
  "view_at t w key = map_option (\<lambda>v. (vs_flags v, vs_casUniq v, vs_value v)) (db_view t w key)"

lemma same_second_now: "same_second w t \<Longrightarrow> now w = t"
  by (simp add: same_second_def now_def)

lemma dbGetElement_frame:
  "dbGetElement key out w = (st, out', w') \<Longrightarrow>
   gTimestamp w' = gTimestamp w + 1 \<and> sysClock w' = sysClock w \<and> clockReads w' = Suc (clockReads w) \<and>
   gIsFlushAllSet w' = gIsFlushAllSet w \<and> badAlloc w' = badAlloc w \<and> gServMemLimit w' = gServMemLimit w \<and>
   gStoredSize w' = gStoredSize w \<and> gFlushAllTimestamp w' = gFlushAllTimestamp w"
  by (auto simp: dbGetElement_def Let_def split: option.splits if_splits)

lemma db_wf_get: "dbGetElement key out w = (st, out', w') \<Longrightarrow> db_wf w \<Longrightarrow> gTimestamp w \<noteq> - 1 \<Longrightarrow> db_wf w'"
  using dbGetElement_wf [of w key out] by simp

interpretation db_lookups: lookup_service "steady_at t" "view_at t" db_lookup for t
proof
  fix n w k assume st: "steady_at t (Suc n) w"
  obtain s out w' where g: "dbGetElement k no_out w = (s, out, w')" by (metis prod_cases3)
  have wf: "db_wf w" and t: "now w = t" using st by (simp_all add: steady_at_def same_second_now)
  have small: "unat (gTimestamp w) + 1 < 2 ^ 32" using st by (simp add: steady_at_def)
  then have "gTimestamp w \<noteq> - 1" using not_minus_one32 [of "unat (gTimestamp w)"] by simp
  moreover have "unat (gTimestamp w + 1) = unat (gTimestamp w) + 1"
    using unat_add32 [of "gTimestamp w" 1] small by simp
  ultimately show "steady_at t n (snd (db_lookup k w))"
    using st dbGetElement_frame [OF g] db_wf_get [OF g wf]
    by (simp add: steady_at_def db_lookup_def found_def g same_second_def)
  show "fst (db_lookup k w) = view_at t w k"
    using dbGetElement_result [OF g] t
    by (auto simp: db_lookup_def found_def g view_at_def split: option.splits)
  show "view_at t (snd (db_lookup k w)) = view_at t w"
    using dbGetElement_view [OF wf g, of t] t by (simp add: db_lookup_def found_def g view_at_def fun_eq_iff)
qed

section \<open>The replies\<close>

text \<open>What the protocol says a retrieval prints for one key.\<close>

definition value_block :: "bool \<Rightarrow> string \<Rightarrow> (string \<times> string \<times> string) option \<Rightarrow> string" where
  "value_block isGets key v =
     (case v of
        None \<Rightarrow> []
      | Some (flags, cas, val) \<Rightarrow>
          ''VALUE '' @ key @ '' '' @ flags @ '' '' @ decimal (length val) @
          (if isGets then '' '' @ cas else []) @ crlf @ val @ crlf)"

lemma getReplies_lookups:
  "getReplies isGets keys w =
     (concat (map2 (value_block isGets) keys (fst (db_lookups.lookups keys w))),
      snd (db_lookups.lookups keys w))"
proof (induction keys arbitrary: w)
  case (Cons key keys)
  obtain st out w' where g: "dbGetElement key no_out w = (st, out, w')" by (metis prod_cases3)
  then have "db_lookup key w = (if st = SUCCESS then Some (go_flags out, go_cas out, go_value out) else None, w')"
    by (simp add: db_lookup_def found_def)
  with g Cons.IH [of w'] show ?case by (simp add: case_prod_beta Let_def value_block_def)
qed simp

lemma getReplies_view:
  assumes "steady_at t (length keys) w"
  shows "\<exists>w'. getReplies isGets keys w = (concat (map (\<lambda>k. value_block isGets k (view_at t w k)) keys), w') \<and>
     view_at t w' = view_at t w \<and> steady_at t 0 w'"
  using db_lookups.lookups_view [OF assms]
  by (simp add: getReplies_lookups map2_map_map [where f = "\<lambda>x. x" and xs = keys, simplified])

lemma length_spaced: "keys \<noteq> [] \<Longrightarrow> length keys \<le> Suc (length (spaced keys))"
  by (induction keys rule: spaced.induct) simp_all

lemma token_spaced: "\<forall>k \<in> set keys. token k \<Longrightarrow> CHR 0x0D \<notin> set (spaced keys)"
  by (induction keys rule: spaced.induct) (simp_all add: token_def)

lemma cmdProcessGetWith_line:
  assumes inp: "input = verb @ '' '' @ spaced keys @ crlf" and tok: "token verb" "\<forall>k \<in> set keys. token k"
    and ne: "keys \<noteq> []" and len: "length input < 2 ^ 32 - 1"
  shows "cmdProcessGetWith isGets input w =
     (let (out, w) = getReplies isGets keys w in Inr (0, out @ line ''END'', w))"
proof -
  define n where "n = length verb + 1 + length (spaced keys)"
  have sp: "find_space input 0 = of_nat (length verb)"
    using find_space_field [of input "[]" verb "spaced keys @ crlf"] assms by (simp add: token_def)
  have "str_find input crlf 0 = of_nat (length (verb @ '' '' @ spaced keys))"
    by (rule find_line_end [of _ _ "[]"]) (use assms token_spaced in \<open>auto simp: token_def\<close>)
  then have endl: "str_find input crlf 0 = of_nat n" by (simp add: n_def)
  have "getKeys (Suc (length input)) input (of_nat n) (of_nat (length verb)) = Inr keys"
    by (rule getKeys_fields [of _ _ _ "[]"])
      (use assms length_spaced [OF ne] in \<open>simp_all add: n_def\<close>)
  moreover have "\<not> past_line (of_nat (length verb)) (of_nat n)"
    by (rule on_line) (use inp len in \<open>simp_all add: n_def\<close>)
  ultimately show ?thesis by (simp add: cmdProcessGetWith_def sp endl)
qed

text \<open>
  C12. Retrieval of any number of keys, within one second: the reply to \<open>get\<close> and \<open>gets\<close> is,
  in the order asked, the block of every key the view holds and nothing for the others, followed
  by the end marker; what can be retrieved stays the same.
\<close>

theorem cmdProcessGet_replies:
  assumes "input = verb @ '' '' @ spaced keys @ crlf" and "token verb" and "\<forall>k \<in> set keys. token k"
    and "keys \<noteq> []" and "length input < 2 ^ 32 - 1" and "steady_at t (length keys) w"
  shows "\<exists>w'. (if isGets then cmdProcessGets else cmdProcessGet) input w =
       Inr (0, concat (map (\<lambda>k. value_block isGets k (view_at t w k)) keys) @ line ''END'', w') \<and>
     view_at t w' = view_at t w"
proof -
  have "(if isGets then cmdProcessGets else cmdProcessGet) input w = cmdProcessGetWith isGets input w"
    by (simp add: cmdProcessGet_def cmdProcessGets_def)
  then show ?thesis
    using cmdProcessGetWith_line [OF assms(1-5), of isGets w] getReplies_view [OF assms(6), of isGets] by auto
qed

lemma ex_one_steady: "steady_at 100 9 ex_one"
  by (simp add: steady_at_def same_second_def ex_one_wf) (simp add: ex_one_def initial_db_def ex_clock_def)

theorem cmdProcessGet_replies_witness:
  "\<exists>w'. cmdProcessGet (''get a c'' @ crlf) ex_one =
     Inr (0, ''VALUE a 0 2'' @ crlf @ ''xy'' @ crlf @ ''END'' @ crlf, w')"
proof -
  have "steady_at 100 (length [''a'', ''c'']) ex_one" using ex_one_steady by (simp add: steady_at_def)
  moreover have "decimal (Suc (Suc 0)) = ''2''" by code_simp
  ultimately show ?thesis
    using cmdProcessGet_replies [of "''get a c'' @ crlf" "''get''" "[''a'', ''c'']" 100 ex_one False]
    by (auto simp: token_def view_at_def ex_one_view value_block_def line_def crlf_def)
qed

end
