(* ===== verification/CmdStore.thy ===== *)
theory CmdStore
  imports CmdGet
begin

text \<open>
  The storage commands end to end: what a client that sends a request reads back, from the
  command word to the bytes of the reply.
\<close>

section \<open>The command word\<close>

lemma substr_word: "input = verb @ rest \<Longrightarrow> length input < 2 ^ 32 - 1 \<Longrightarrow> substr input 0 (of_nat (length verb)) = Inr verb"
  using substr_slice [of input "[]" verb rest] by simp

lemma cmdProcessCommand_word:
  assumes "input = verb @ '' '' @ rest" and "CHR '' '' \<notin> set verb" and "length input < 2 ^ 32 - 1"
  shows "cmdProcessCommand input w = cmdDispatch verb input (dbHandleFlushAll w)"
proof -
  have "find_space input 0 = of_nat (length verb)"
    using find_space_field [of input "[]" verb rest] assms by simp
  moreover have "of_nat (length verb) \<noteq> npos"
    using not_minus_one32 [of "length verb"] assms by (simp add: npos_def)
  ultimately show ?thesis
    using substr_word [of input verb "'' '' @ rest"] assms by (simp add: cmdProcessCommand_def)
qed

lemma cmdProcessCommand_args:
  assumes "input = verb @ '' '' @ rest" and "token verb" and "length input < 2 ^ 32 - 1"
  shows "cmdProcessCommand input w = cmdDispatch verb input (dbHandleFlushAll w)"
  using assms by (intro cmdProcessCommand_word) (simp_all add: token_def)

lemma find_space_none: "CHR '' '' \<notin> set input \<Longrightarrow> length input < 2 ^ 32 - 1 \<Longrightarrow> find_space input 0 = npos"
  unfolding find_space_def by (rule str_find_absent) auto

lemma cmdProcessCommand_bare:
  assumes "input = verb @ crlf" and "token verb" and "length input < 2 ^ 32 - 1"
  shows "cmdProcessCommand input w = cmdDispatch verb input (dbHandleFlushAll w)"
proof -
  have "find_space input 0 = npos"
    using assms by (intro find_space_none) (simp_all add: token_def crlf_def)
  moreover have "str_find input crlf 0 = of_nat (length verb)"
    by (rule find_line_end [of _ _ "[]"]) (use assms in \<open>simp_all add: token_def\<close>)
  ultimately show ?thesis
    using substr_word [of input verb crlf] assms by (simp add: cmdProcessCommand_def)
qed

lemma dbHandleFlushAll_none [simp]: "\<not> gIsFlushAllSet w \<Longrightarrow> dbHandleFlushAll w = w"
  by (simp add: dbHandleFlushAll_def)

section \<open>The storage handlers on a well-formed request\<close>

text \<open>The fields of a request satisfy what the parser needs.\<close>

definition well_formed :: "string \<Rightarrow> string \<Rightarrow> string \<Rightarrow> nat \<Rightarrow> bool \<Rightarrow> string \<Rightarrow> bool" where
  "well_formed verb key flags exptime noreply data \<longleftrightarrow>
     token verb \<and> token key \<and> token flags \<and> exptime < 2 ^ 32 \<and>
     length (request verb key flags exptime noreply data) < 2 ^ 32 - 1"

lemma with_store_request:
  assumes "well_formed verb key flags exptime noreply data"
  shows "with_store (cmdProcessCommon (request verb key flags exptime noreply data) False False empty_store w) f =
     f \<lparr>st_key = key, st_flags = flags, st_expTime = store_expiry (of_nat exptime) w,
        st_bytes = of_nat (length data), st_casStr = [], st_noreply = noreply, st_data = data\<rparr>
       (expiry_tick (of_nat exptime) w)"
  using assms cmdProcessCommon_request [of verb key flags exptime noreply data w]
  by (simp add: well_formed_def with_store_def)

lemma cmdProcessSet_request:
  assumes "well_formed verb key flags exptime noreply data"
  shows "cmdProcessSet (request verb key flags exptime noreply data) w =
     rbind (dbInsertElement key flags [] data (store_expiry (of_nat exptime) w) (expiry_tick (of_nat exptime) w))
       (\<lambda>(st, w). Inr (0, reply noreply (if st = MEMORY_FULL then no_memory else line ''STORED''), w))"
  unfolding cmdProcessSet_def with_store_request [OF assms] by (auto intro!: arg_cong2 [where f = rbind])

lemma cmdProcessAdd_request:
  assumes "well_formed verb key flags exptime noreply data"
  shows "cmdProcessAdd (request verb key flags exptime noreply data) w =
     rbind (dbAddElement key flags [] data (store_expiry (of_nat exptime) w) (expiry_tick (of_nat exptime) w))
       (\<lambda>(st, w). Inr (0, reply noreply (if st = MEMORY_FULL then no_memory
                         else if st = EXIST then line ''NOT_STORED'' else line ''STORED''), w))"
  unfolding cmdProcessAdd_def with_store_request [OF assms] by (auto intro!: arg_cong2 [where f = rbind])

section \<open>Set and get\<close>

text \<open>
  The entry a plain \<open>set\<close> overwrites, if there is one, was written after the last flush: the
  condition under which the new value is visible.
\<close>

definition not_flushed :: "db \<Rightarrow> string \<Rightarrow> bool" where
  "not_flushed w key \<longleftrightarrow>
     (case gKeyToValueHashMap w (getHashTblNbrFromKey key) key of
        None \<Rightarrow> True
      | Some it \<Rightarrow> gFlushAllTimestamp w \<le> getTimestampFromMap it)"

text \<open>The value such a \<open>set\<close> leaves: a new entry without expiry time never expires, an old one does.\<close>

definition stored_value :: "db \<Rightarrow> string \<Rightarrow> string \<Rightarrow> string \<Rightarrow> ulong \<Rightarrow> ValueStruct" where
  "stored_value w key flags val expiry =
     \<lparr>vs_expiry = (if gKeyToValueHashMap w (getHashTblNbrFromKey key) key = None
                   then expiry_of (now w) expiry else now w + expiry),
      vs_value = val, vs_flags = flags, vs_casUniq = insert_cas w\<rparr>"

lemma dbInsertElement_visible:
  assumes "db_wf w" and "room w key flags val" and "\<not> badAlloc w" and "not_flushed w key"
    and "unat (now w) + unat expiry < 2 ^ 32"
    and "casUniq \<noteq> [] \<longrightarrow>
      (\<exists>it. gKeyToValueHashMap w (getHashTblNbrFromKey key) key = Some it \<and> casUniq = getCasFromMap it)"
  shows "\<exists>w'. dbInsertElement key flags casUniq val expiry w = Inr (SUCCESS, w') \<and>
     db_view (now w) w' = (db_view (now w) w)(key \<mapsto> stored_value w key flags val expiry)"
proof -
  have up: "now w \<le> now w + expiry" using unat_add32 [OF assms(5)] by (simp add: word_le_nat_alt)
  have "gFlushAllTimestamp w \<le> gTimestamp w" using assms(1) by (simp add: db_wf_def db_wf_at_def)
  then have "\<not> entry_dead (now w) w (new_value w flags val expiry (insert_cas w), gTimestamp w)"
    using up by (auto simp: entry_dead_def get_defs expiry_of_def ULONG_MAX_def not_less)
  moreover have "\<not> entry_dead (now w) w (overwrite_entry (now w + expiry)
      (new_value w flags val expiry (insert_cas w)) it)"
    if "gKeyToValueHashMap w (getHashTblNbrFromKey key) key = Some it" for it
    using that up assms(4) by (auto simp: not_flushed_def entry_dead_def not_less)
  ultimately show ?thesis using assms
    by (cases "gKeyToValueHashMap w (getHashTblNbrFromKey key) key")
      (auto simp: dbInsertElement_room dbInsertCommit_def Let_def fst_overwrite_entry stored_value_def
        new_value_def)
qed

lemma dbInsertElement_frame:
  assumes "dbInsertElement key flags casUniq val expiry w = Inr (st, w')"
  shows "gTimestamp w' = gTimestamp w + 1 \<and> gIsFlushAllSet w' = gIsFlushAllSet w \<and>
     sysClock w' = sysClock w \<and> clockReads w \<le> clockReads w'"
  using assms
proof (cases rule: dbInsertElement_cases)
  case (commit w4)
  then show ?thesis
    by (auto simp: dbInsertCommit_def Let_def evicts_def shrinks_def split: option.splits if_splits)
qed (simp add: evicts_def shrinks_def)

lemma dbInsertElement_steady:
  assumes "steady_at t (Suc n) w" and "dbInsertElement key flags casUniq val expiry w = Inr (st, w')"
  shows "steady_at t n w'"
proof -
  have "unat (gTimestamp w) + 1 < 2 ^ 32" using assms(1) by (simp add: steady_at_def)
  then have "gTimestamp w \<noteq> - 1" "unat (gTimestamp w + 1) = unat (gTimestamp w) + 1"
    using not_minus_one32 [of "unat (gTimestamp w)"] unat_add32 [of "gTimestamp w" 1] by simp_all
  then show ?thesis
    using assms dbInsertElement_frame [OF assms(2)] dbInsertElement_wf [OF assms(2)]
    by (simp add: steady_at_def same_second_def)
qed

lemma steady_tick: "steady_at t n w \<Longrightarrow> steady_at t n (tick w)"
  by (simp add: steady_at_def same_second_def db_wf_def db_wf_at_def)

lemma relative_expiry:
  "e \<le> EXPIRY_THRESHOLD \<Longrightarrow> store_expiry e w = e" "e \<le> EXPIRY_THRESHOLD \<Longrightarrow> expiry_tick e w = w"
  by (simp_all add: store_expiry_def expiry_tick_def not_less [symmetric])

lemma request_verb: "request verb key flags exptime noreply data = verb @ '' '' @
    (key @ '' '' @ flags @ '' '' @ decimal exptime @ '' '' @ decimal (length data) @
     (if noreply then '' noreply'' else []) @ crlf @ data @ crlf)"
  by (simp add: request_def storage_line_def)

lemma get_one:
  assumes "token key" and "length key + 6 < 2 ^ 32 - 1" and "steady_at t (Suc 0) w" and "\<not> gIsFlushAllSet w"
  shows "\<exists>w'. cmdProcessCommand (''get '' @ key @ crlf) w =
     Inr (0, value_block False key (view_at t w key) @ line ''END'', w')"
proof -
  let ?in = "''get'' @ '' '' @ spaced [key] @ crlf"
  have len: "length ?in < 2 ^ 32 - 1" using assms(2) by (simp add: crlf_def)
  have "cmdProcessCommand ?in w = cmdProcessGetWith False ?in w"
    using cmdProcessCommand_args [OF refl _ len, of w] assms(4)
    by (simp add: token_def cmdDispatch_def cmdProcessGet_def)
  also have "\<dots> = (let (out, w) = getReplies False [key] w in Inr (0, out @ line ''END'', w))"
    by (rule cmdProcessGetWith_line [OF refl]) (use assms(1) len in \<open>simp_all add: token_def\<close>)
  finally show ?thesis using getReplies_view [of t "[key]" w False] assms(3) by auto
qed

lemma set_get_run:
  assumes "well_formed ''set'' key flags exptime False data" and "of_nat exptime \<le> EXPIRY_THRESHOLD"
    and "steady_at t 2 w" and "\<not> gIsFlushAllSet w" and "unat t + exptime < 2 ^ 32"
    and "room w key flags data" and "\<not> badAlloc w" and "not_flushed w key"
  shows "\<exists>w' w''. cmdProcessCommand (request ''set'' key flags exptime False data) w =
       Inr (0, ''STORED'' @ crlf, w') \<and>
     cmdProcessCommand (''get '' @ key @ crlf) w' =
       Inr (0, ''VALUE '' @ key @ '' '' @ flags @ '' '' @ decimal (length data) @ crlf @ data @ crlf @
               ''END'' @ crlf, w'')"
proof -
  let ?req = "request ''set'' key flags exptime False data"
  have wf: "db_wf w" and t: "now w = t" using assms(3) by (simp_all add: steady_at_def same_second_now)
  have e: "unat (of_nat exptime :: ulong) = exptime" using assms(5) by (intro unat_of_nat32) simp
  have "unat (now w) + unat (of_nat exptime :: ulong) < 2 ^ 32" using assms(5) t e by simp
  from dbInsertElement_visible [OF wf assms(6-8) this, of "[]"] t obtain w'
    where ins: "dbInsertElement key flags [] data (of_nat exptime) w = Inr (SUCCESS, w')"
      and view: "db_view t w' = (db_view t w)(key \<mapsto> stored_value w key flags data (of_nat exptime))"
    by auto
  have len: "length ?req < 2 ^ 32 - 1" and tok: "token key" using assms(1) by (simp_all add: well_formed_def)
  have "cmdProcessCommand ?req w = cmdProcessSet ?req w"
    using cmdProcessCommand_args [OF request_verb _ len, of w] assms(4)
    by (simp add: token_def cmdDispatch_def)
  also have "\<dots> = Inr (0, ''STORED'' @ crlf, w')"
    using ins cmdProcessSet_request [OF assms(1), of w] relative_expiry [OF assms(2)]
    by (simp add: reply_def line_def)
  finally have set: "cmdProcessCommand ?req w = Inr (0, ''STORED'' @ crlf, w')" .
  have st: "steady_at t (Suc 0) w'"
    using dbInsertElement_steady [of t 1 w, OF _ ins] assms(3) by (simp add: numeral_2_eq_2)
  have fl: "\<not> gIsFlushAllSet w'" using dbInsertElement_frame [OF ins] assms(4) by simp
  have "length key + 6 < 2 ^ 32 - 1" using len by (simp add: request_def storage_line_def crlf_def)
  from get_one [OF tok this st fl] obtain w''
    where get: "cmdProcessCommand (''get '' @ key @ crlf) w' =
      Inr (0, value_block False key (view_at t w' key) @ line ''END'', w'')" by blast
  with get view have "cmdProcessCommand (''get '' @ key @ crlf) w' =
      Inr (0, ''VALUE '' @ key @ '' '' @ flags @ '' '' @ decimal (length data) @ crlf @ data @ crlf @
              ''END'' @ crlf, w'')"
    by (simp add: view_at_def stored_value_def value_block_def line_def)
  with set show ?thesis by blast
qed

text \<open>
  C2. Set, then get, within one second: with room for the value, and no flush pending or newer
  than an old entry of the key, the client reads \<open>STORED\<close> and then its own bytes back, under
  its own flags and with their exact length, whatever the bytes are.
\<close>

theorem set_then_get:
  assumes "well_formed ''set'' key flags exptime False data" and "of_nat exptime \<le> EXPIRY_THRESHOLD"
    and "steady_at t 2 w" and "\<not> gIsFlushAllSet w" and "unat t + exptime < 2 ^ 32"
    and "room w key flags data" and "\<not> badAlloc w" and "not_flushed w key"
  shows "\<exists>w' w''. cmdProcessCommand (request ''set'' key flags exptime False data) w =
       Inr (0, ''STORED'' @ crlf, w') \<and>
     cmdProcessCommand (''get '' @ key @ crlf) w' =
       Inr (0, ''VALUE '' @ key @ '' '' @ flags @ '' '' @ decimal (length data) @ crlf @ data @ crlf @
               ''END'' @ crlf, w'')"
  by (rule set_get_run) (fact assms)+

theorem set_then_get_witness:
  "\<exists>w' w''. cmdProcessCommand (request ''set'' ''b'' ''5'' 30 False (''x'' @ crlf @ ''y'')) ex_one =
       Inr (0, ''STORED'' @ crlf, w') \<and>
     cmdProcessCommand (''get b'' @ crlf) w' =
       Inr (0, ''VALUE b 5 4'' @ crlf @ ''x'' @ crlf @ ''y'' @ crlf @ ''END'' @ crlf, w'')"
proof -
  have d: "decimal 30 = ''30''" "decimal (Suc (Suc (Suc (Suc 0)))) = ''4''" by code_simp+
  then have "well_formed ''set'' ''b'' ''5'' 30 False (''x'' @ crlf @ ''y'')"
    by (simp add: well_formed_def token_def request_def storage_line_def crlf_def)
  moreover have "steady_at 100 2 ex_one" using ex_one_steady by (simp add: steady_at_def)
  ultimately show ?thesis
    using set_then_get [of "''b''" "''5''" 30 "''x'' @ crlf @ ''y''" 100 ex_one] d
    by (simp add: EXPIRY_THRESHOLD_def room_def not_flushed_def crlf_def)
qed

section \<open>Flush, set and get\<close>

lemma cmdProcessCommand_flush_all:
  "\<not> gIsFlushAllSet w \<Longrightarrow> cmdProcessCommand (''flush_all'' @ crlf) w = Inr (0, ''OK'' @ crlf, dbSetFlushAll 0 w)"
proof -
  assume "\<not> gIsFlushAllSet w"
  moreover have "find_space (''flush_all'' @ crlf) 0 = npos" by (rule find_space_none) (simp_all add: crlf_def)
  ultimately show ?thesis
    using cmdProcessCommand_bare [of _ "''flush_all''" w]
    by (simp add: token_def crlf_def cmdDispatch_def cmdProcessFlushAll_def past_line_def line_def)
qed

lemma flush_due:
  assumes "steady_at t (Suc n) w"
  defines "w' \<equiv> dbHandleFlushAll (dbSetFlushAll 0 w)"
  shows "steady_at t n w'" and "\<not> gIsFlushAllSet w'" and "gFlushAllTimestamp w' = gTimestamp w + 1"
    and "gKeyToValueHashMap w' = gKeyToValueHashMap w" and "gStoredSize w' = gStoredSize w"
    and "gServMemLimit w' = gServMemLimit w" and "badAlloc w' = badAlloc w"
proof -
  have wf: "db_wf w" and small: "unat (gTimestamp w) + 1 < 2 ^ 32"
    and cl: "sysClock w (clockReads w) = t" "sysClock w (Suc (clockReads w)) = t"
    using assms(1) by (simp_all add: steady_at_def same_second_def)
  have "gTimestamp w \<noteq> - 1" "unat (gTimestamp w + 1) = unat (gTimestamp w) + 1"
    using small not_minus_one32 [of "unat (gTimestamp w)"] unat_add32 [of "gTimestamp w" 1] by simp_all
  moreover have "db_wf w'"
    unfolding w'_def using wf calculation(1)
    by (intro dbHandleFlushAll_wf dbSetFlushAll_wf) (simp_all add: dbSetFlushAll_def)
  ultimately show "steady_at t n w'"
    using assms(1) cl
    by (simp add: w'_def dbHandleFlushAll_def dbSetFlushAll_def steady_at_def same_second_def now_def Let_def)
qed (use assms(1) in \<open>simp_all add: w'_def dbHandleFlushAll_def dbSetFlushAll_def steady_at_def same_second_def
      now_def Let_def\<close>)

text \<open>
  C20. Flush, then set, within one second: for a key that has an entry, the server answers
  \<open>OK\<close>, then \<open>STORED\<close>, and the value it said it stored cannot be read: the entry kept the
  timestamp from before the flush.
\<close>

theorem set_after_flush_is_lost:
  assumes "well_formed ''set'' key flags exptime False data" and "of_nat exptime \<le> EXPIRY_THRESHOLD"
    and "steady_at t 3 w" and "\<not> gIsFlushAllSet w"
    and "room w key flags data" and "\<not> badAlloc w"
    and "gKeyToValueHashMap w (getHashTblNbrFromKey key) key = Some it"
  shows "\<exists>w1 w2 w3. cmdProcessCommand (''flush_all'' @ crlf) w = Inr (0, ''OK'' @ crlf, w1) \<and>
     cmdProcessCommand (request ''set'' key flags exptime False data) w1 = Inr (0, ''STORED'' @ crlf, w2) \<and>
     cmdProcessCommand (''get '' @ key @ crlf) w2 = Inr (0, ''END'' @ crlf, w3)"
proof -
  let ?req = "request ''set'' key flags exptime False data" and ?w = "dbHandleFlushAll (dbSetFlushAll 0 w)"
  have st: "steady_at t (Suc 2) w" and t: "now ?w = t"
    using assms(3) flush_due(1) [of t 2 w] by (simp_all add: numeral_3_eq_3 numeral_2_eq_2 steady_at_def same_second_now)
  note fl = flush_due [OF st]
  have tbl: "table_wf (gTimestamp w) (getHashTblNbrFromKey key) (gTimestampToKeySet w (getHashTblNbrFromKey key))
      (gKeyToValueHashMap w (getHashTblNbrFromKey key))"
    using assms(3) by (intro db_wf_table) (simp add: steady_at_def db_wf_def)
  have "gTimestamp w \<noteq> - 1"
    using assms(3) not_minus_one32 [of "unat (gTimestamp w)"] by (simp add: steady_at_def)
  then have old: "getTimestampFromMap it < gTimestamp w + 1"
    using table_wf_map [OF tbl assms(7)] less_plus_one [of "gTimestamp w" "getTimestampFromMap it"] by simp
  have "\<exists>w2. dbInsertElement key flags [] data (of_nat exptime) ?w = Inr (SUCCESS, w2) \<and>
      db_view t w2 key = None"
    using assms(5-7) old fl(3-7)
    by (simp add: dbInsertElement_room room_def dbInsertCommit_def Let_def entry_dead_def)
  then obtain w2 where ins: "dbInsertElement key flags [] data (of_nat exptime) ?w = Inr (SUCCESS, w2)"
    and none: "db_view t w2 key = None" by blast
  have len: "length ?req < 2 ^ 32 - 1" and tok: "token key" using assms(1) by (simp_all add: well_formed_def)
  have set: "cmdProcessCommand ?req (dbSetFlushAll 0 w) = Inr (0, ''STORED'' @ crlf, w2)"
    using cmdProcessCommand_args [OF request_verb _ len] ins cmdProcessSet_request [OF assms(1), of ?w]
      relative_expiry [OF assms(2)]
    by (simp add: token_def cmdDispatch_def reply_def line_def)
  have "steady_at t (Suc 0) w2" and "\<not> gIsFlushAllSet w2"
    using dbInsertElement_steady [OF _ ins] dbInsertElement_frame [OF ins] fl(1,2)
    by (simp_all add: numeral_2_eq_2)
  moreover have "length key + 6 < 2 ^ 32 - 1" using len by (simp add: request_def storage_line_def crlf_def)
  ultimately have "\<exists>w3. cmdProcessCommand (''get '' @ key @ crlf) w2 = Inr (0, ''END'' @ crlf, w3)"
    using get_one [OF tok, of t w2] none by (simp add: view_at_def value_block_def line_def)
  with set cmdProcessCommand_flush_all [OF assms(4)] show ?thesis by blast
qed

theorem set_after_flush_is_lost_witness:
  "\<exists>w1 w2 w3. cmdProcessCommand (''flush_all'' @ crlf) ex_one = Inr (0, ''OK'' @ crlf, w1) \<and>
     cmdProcessCommand (request ''set'' ''a'' ''0'' 0 False ''new'') w1 = Inr (0, ''STORED'' @ crlf, w2) \<and>
     cmdProcessCommand (''get a'' @ crlf) w2 = Inr (0, ''END'' @ crlf, w3)"
proof -
  have "decimal 0 = ''0''" "decimal (Suc (Suc (Suc 0))) = ''3''" by code_simp+
  then have "well_formed ''set'' ''a'' ''0'' 0 False ''new''"
    by (simp add: well_formed_def token_def request_def storage_line_def crlf_def)
  moreover have "steady_at 100 3 ex_one" using ex_one_steady by (simp add: steady_at_def)
  ultimately show ?thesis
    using set_after_flush_is_lost [of "''a''" "''0''" 0 "''new''" 100 ex_one]
    by (simp add: EXPIRY_THRESHOLD_def room_def)
qed

end
