(* ===== verification/CmdArith.thy ===== *)
theory CmdArith
  imports CmdStore
begin

text \<open>
  The commands that take a key and a number: \<open>incr\<close> and \<open>decr\<close> compute with the decimal
  text of the stored value, \<open>touch\<close> replaces its expiry time; and \<open>delete\<close>.
\<close>

section \<open>The command line\<close>

definition key_line :: "string \<Rightarrow> string \<Rightarrow> string \<Rightarrow> bool \<Rightarrow> string" where
  "key_line verb key field noreply =
     verb @ '' '' @ key @ '' '' @ field @ (if noreply then '' noreply'' else []) @ crlf"

lemma parseKeyField_line:
  assumes "token verb" "token key" "token field" and len: "length (key_line verb key field noreply) < 2 ^ 32 - 1"
  shows "\<exists>ts. parseKeyField (key_line verb key field noreply) = Inr (Inr (key, field, ts, noreply)) \<and>
     parseNoreply (key_line verb key field noreply) ts noreply = Inr noreply"
proof -
  define input where "input = key_line verb key field noreply"
  let ?tail = "if noreply then '' noreply'' else []"
  let ?p1 = "verb @ '' ''" and ?p2 = "verb @ '' '' @ key @ '' ''"
  define n where "n = length (?p2 @ field @ ?tail)"
  note i = input_def [unfolded key_line_def]
  have len: "length input < 2 ^ 32 - 1" using len by (simp add: input_def)
  have n: "n < 2 ^ 32 - 1" using len by (simp add: i n_def)
  have endl: "str_find input crlf 0 = of_nat n"
    unfolding n_def by (rule find_line_end [of _ _ "[]"]) (use assms(1-3) len in \<open>auto simp: i token_def\<close>)
  have sp: "find_space input 0 = of_nat (length verb)"
    using find_space_field [of input "[]" verb] assms(1) len by (simp add: i token_def)
  have l1: "\<not> past_line (of_nat (length verb)) (of_nat n)" by (rule on_line) (use n in \<open>simp_all add: n_def\<close>)
  have s1: "(of_nat (length verb) + 1 :: uint) = of_nat (length ?p1)" by simp
  have i1: "input = ?p1 @ key @ '' '' @ (field @ ?tail @ crlf)" by (simp add: i)
  note r1 = read_field [OF i1 assms(2) len refl, of n]
  have s2: "(of_nat (length ?p1 + length key) + 1 :: uint) = of_nat (length ?p2)" by simp
  have f1: "find_space input (of_nat (length ?p1)) = of_nat (length ?p1 + length key)"
    and g1: "substr input (of_nat (length ?p1)) (find_space input (of_nat (length ?p1)) - of_nat (length ?p1)) = Inr key"
    and h1: "\<not> past_line (find_space input (of_nat (length ?p1))) (of_nat n)"
    using r1 n by (simp_all add: n_def)
  show ?thesis unfolding input_def [symmetric]
  proof (cases noreply)
    case False
    have i2: "input = ?p2 @ field @ crlf @ []" and nn: "n = length ?p2 + length field"
      using False by (simp_all add: i n_def)
    have "past_line (find_space input (of_nat (length ?p2))) (of_nat n)"
      unfolding nn by (rule off_line [OF find_space_last [OF i2]]) (use assms(3) len in \<open>simp_all add: token_def\<close>)
    moreover have "substr input (of_nat (length ?p2)) (of_nat n - of_nat (length ?p2)) = Inr field"
      unfolding nn by (rule substr_field [OF i2 len])
    ultimately show "\<exists>ts. parseKeyField input = Inr (Inr (key, field, ts, noreply)) \<and>
        parseNoreply input ts noreply = Inr noreply"
      using False g1 h1 unfolding parseKeyField_def parseNoreply_def Let_def sp endl s1 f1 s2
      by (simp add: l1 del: length_append)
  next
    case True
    have i2: "input = ?p2 @ field @ '' '' @ (''noreply'' @ crlf)" and nn: "n = length ?p2 + length field + 8"
      using True by (simp_all add: i n_def)
    let ?p3 = "?p2 @ field @ '' ''"
    have f2: "find_space input (of_nat (length ?p2)) = of_nat (length ?p2 + length field)"
      and g2: "substr input (of_nat (length ?p2)) (find_space input (of_nat (length ?p2)) - of_nat (length ?p2)) = Inr field"
      and h2: "\<not> past_line (find_space input (of_nat (length ?p2))) (of_nat n)"
      using read_field [OF i2 assms(3) len refl, of n] n nn by simp_all
    have s3: "(of_nat (length ?p2 + length field) + 1 :: uint) = of_nat (length ?p3)" by simp
    have n3: "n = length ?p3 + length ''noreply''" using nn by simp
    have g3: "substr input (of_nat (length ?p3)) (of_nat n - of_nat (length ?p3)) = Inr ''noreply''"
      unfolding n3 by (rule substr_field [of _ _ _ crlf]) (use i2 len in simp_all)
    have "parseKeyField input = Inr (Inr (key, field, of_nat (length ?p2 + length field), True))"
      using l1 g1 h1 g2 h2 unfolding parseKeyField_def Let_def sp endl s1 f1 s2 f2
      by (simp only: if_False if_True rbind_Inr not_False_eq_True)
    moreover have "parseNoreply input (of_nat (length ?p2 + length field)) True = Inr True"
      unfolding parseNoreply_def endl s3 g3 by simp
    ultimately show "\<exists>ts. parseKeyField input = Inr (Inr (key, field, ts, noreply)) \<and>
        parseNoreply input ts noreply = Inr noreply"
      using True by metis
  qed
qed

lemma key_line_verb: "key_line verb key field noreply =
    verb @ '' '' @ (key @ '' '' @ field @ (if noreply then '' noreply'' else []) @ crlf)"
  by (simp add: key_line_def)

section \<open>Read, then write back\<close>

text \<open>A look-up that hits leaves an entry newer than any flush, and all memory figures as they were.\<close>

lemma dbGetElement_hit:
  assumes "steady_at t (Suc n) w" and "db_view t w key = Some v"
  obtains w' where
    "dbGetElement key out w = (SUCCESS, \<lparr>go_flags = vs_flags v, go_cas = vs_casUniq v, go_value = vs_value v,
       go_expiry = vs_expiry v - t\<rparr>, w')"
    and "steady_at t n w'" and "db_view t w' = db_view t w" and "not_flushed w' key"
    and "gKeyToValueHashMap w' (getHashTblNbrFromKey key) key = Some (v, gTimestamp w)"
    and "gStoredSize w' = gStoredSize w" and "gServMemLimit w' = gServMemLimit w" and "badAlloc w' = badAlloc w"
    and "gIsFlushAllSet w' = gIsFlushAllSet w" and "t \<le> vs_expiry v"
proof -
  obtain st out' w' where g: "dbGetElement key out w = (st, out', w')" by (metis prod_cases3)
  have wf: "db_wf w" and t: "now w = t" using assms(1) by (simp_all add: steady_at_def same_second_now)
  have wf': "gFlushAllTimestamp w \<le> gTimestamp w" using wf by (simp add: db_wf_def db_wf_at_def)
  obtain it where it: "gKeyToValueHashMap w (getHashTblNbrFromKey key) key = Some it"
    and live: "\<not> entry_dead t w it" and v: "v = fst it"
    using assms(2) by (auto simp: db_view_def split: option.splits if_splits)
  have "steady_at t n w'" using db_lookups.lookup_steady [OF assms(1), of key] dbGetElement_frame [OF g] g
    db_wf_get [OF g wf] not_minus_one32 [of "unat (gTimestamp w)"] unat_add32 [of "gTimestamp w" 1] assms(1)
    by (simp add: steady_at_def same_second_def)
  moreover have entry: "gKeyToValueHashMap w' (getHashTblNbrFromKey key) key = Some (v, gTimestamp w)"
    using g it live t v by (auto simp: dbGetElement_def Let_def entry_dead_def setTimestampToMap_def)
  moreover have "not_flushed w' key"
    using entry wf' dbGetElement_frame [OF g] by (simp add: not_flushed_def get_defs)
  ultimately show ?thesis
    using that [of w'] g dbGetElement_result [OF g] dbGetElement_view [OF wf g, of t] dbGetElement_frame [OF g]
      assms(2) t live v by (simp add: entry_dead_def get_defs not_less)
qed

text \<open>Writing the value back with the time that is left keeps the expiry second.\<close>

lemma write_back:
  assumes "steady_at t (Suc n) w" and "gKeyToValueHashMap w (getHashTblNbrFromKey key) key = Some (v, T)"
    and "not_flushed w key" and "t \<le> vs_expiry v" and "room w key (vs_flags v) val" and "\<not> badAlloc w"
  obtains w' c where "dbInsertElement key (vs_flags v) [] val (vs_expiry v - t) w = Inr (SUCCESS, w')"
    and "steady_at t n w'" and "db_view t w' = (db_view t w)(key \<mapsto> v\<lparr>vs_value := val, vs_casUniq := c\<rparr>)"
proof -
  have wf: "db_wf w" and t: "now w = t" using assms(1) by (simp_all add: steady_at_def same_second_now)
  have "unat (vs_expiry v - t) = unat (vs_expiry v) - unat t" using assms(4) by (rule unat_sub32)
  then have "unat (now w) + unat (vs_expiry v - t) < 2 ^ 32"
    using assms(4) unat_lt32 [of "vs_expiry v"] t by (simp add: word_le_nat_alt)
  from dbInsertElement_visible [OF wf assms(5,6,3) this, of "[]"] obtain w'
    where ins: "dbInsertElement key (vs_flags v) [] val (vs_expiry v - t) w = Inr (SUCCESS, w')"
      and "db_view t w' = (db_view t w)(key \<mapsto> stored_value w key (vs_flags v) val (vs_expiry v - t))"
    unfolding t by auto
  moreover have "stored_value w key (vs_flags v) val (vs_expiry v - t) = v\<lparr>vs_value := val, vs_casUniq := insert_cas w\<rparr>"
    using assms(2) t by (simp add: stored_value_def)
  ultimately show ?thesis using that dbInsertElement_steady [OF assms(1) ins] by metis
qed

section \<open>Arithmetic\<close>

lemma cmdProcessArith_line:
  assumes "token verb" "token key" and "length (key_line verb key (decimal m) noreply) < 2 ^ 32 - 1"
    and "steady_at t 2 w" and v: "db_view t w key = Some v" and "vs_value v = decimal n"
    and "n < 2 ^ 32" and "0 < m" "m < 2 ^ 32"
    and "room w key (vs_flags v) (to_string (calc (of_nat n) (of_nat m)))" and "\<not> badAlloc w"
  shows "\<exists>w' c. cmdProcessArith calc (key_line verb key (decimal m) noreply) w =
       Inr (0, reply noreply (line (to_string (calc (of_nat n) (of_nat m)))), w') \<and>
     db_view t w' = (db_view t w)(key \<mapsto> v\<lparr>vs_value := to_string (calc (of_nat n) (of_nat m)), vs_casUniq := c\<rparr>)"
proof -
  let ?r = "to_string (calc (of_nat n) (of_nat m))"
  from parseKeyField_line [OF assms(1,2) token_decimal assms(3)] obtain ts
    where p: "parseKeyField (key_line verb key (decimal m) noreply) = Inr (Inr (key, decimal m, ts, noreply))"
      and q: "parseNoreply (key_line verb key (decimal m) noreply) ts noreply = Inr noreply" by blast
  have "steady_at t (Suc (Suc 0)) w" using assms(4) by (simp add: numeral_2_eq_2)
  from this v obtain w1 where g: "dbGetElement key no_out w = (SUCCESS, \<lparr>go_flags = vs_flags v, go_cas = vs_casUniq v,
       go_value = vs_value v, go_expiry = vs_expiry v - t\<rparr>, w1)"
    and w1: "steady_at t (Suc 0) w1" "db_view t w1 = db_view t w" "not_flushed w1 key" "t \<le> vs_expiry v"
      "gKeyToValueHashMap w1 (getHashTblNbrFromKey key) key = Some (v, gTimestamp w)"
    and mem: "gStoredSize w1 = gStoredSize w" "gServMemLimit w1 = gServMemLimit w" "badAlloc w1 = badAlloc w"
    by (rule dbGetElement_hit)
  have "room w1 key (vs_flags v) ?r" "\<not> badAlloc w1" using assms(10,11) mem by (simp_all add: room_def)
  from write_back [OF w1(1,5,3,4) this] obtain w' c
    where ins: "dbInsertElement key (vs_flags v) [] ?r (vs_expiry v - t) w1 = Inr (SUCCESS, w')"
      and view: "db_view t w' = (db_view t w)(key \<mapsto> v\<lparr>vs_value := ?r, vs_casUniq := c\<rparr>)"
    using w1(2) by metis
  have "(of_nat m :: ulong) \<noteq> 0" using of_nat_eq32 [of m 0] assms(8,9) by simp
  then have "cmdProcessArith calc (key_line verb key (decimal m) noreply) w = Inr (0, reply noreply (line ?r), w')"
    using p q g ins stoul_decimal [OF assms(7)] stoul_decimal [OF assms(9)] assms(6)
    by (simp add: cmdProcessArith_def Let_def)
  with view show ?thesis by blast
qed

text \<open>
  C14. On a key whose value is the decimal text of a number, \<open>incr\<close> replies and stores the sum
  modulo \<open>2^32\<close>, in decimal, and \<open>decr\<close> the difference, stopping at zero; flags, expiry time
  and all other keys stay as they are.
\<close>

theorem incr_decr:
  assumes "token key" and "length (key_line ''incr'' key (decimal m) noreply) < 2 ^ 32 - 1"
    and "steady_at t 2 w" and "\<not> gIsFlushAllSet w" and "db_view t w key = Some v" and "vs_value v = decimal n"
    and "n < 2 ^ 32" and "0 < m" "m < 2 ^ 32" and "\<not> badAlloc w"
    and "verb = ''incr'' \<and> r = decimal ((n + m) mod 2 ^ 32) \<or> verb = ''decr'' \<and> r = decimal (n - m)"
    and "room w key (vs_flags v) r"
  shows "\<exists>w' c. cmdProcessCommand (key_line verb key (decimal m) noreply) w = Inr (0, reply noreply (line r), w') \<and>
     db_view t w' = (db_view t w)(key \<mapsto> v\<lparr>vs_value := r, vs_casUniq := c\<rparr>)"
proof -
  have len: "length (key_line verb key (decimal m) noreply) < 2 ^ 32 - 1" and tok: "token verb"
    using assms(2,11) by (auto simp: key_line_def token_def)
  have u: "unat (of_nat n :: ulong) = n" "unat (of_nat m :: ulong) = m"
    using assms(7,9) by (simp_all add: unat_of_nat32)
  have disp: "cmdProcessCommand (key_line verb key (decimal m) noreply) w =
      cmdDispatch verb (key_line verb key (decimal m) noreply) w"
    using cmdProcessCommand_args [OF key_line_verb tok len, of w] assms(4) by simp
  note arith = cmdProcessArith_line [OF tok assms(1) len assms(3,5-9) _ assms(10)]
  from assms(11) show ?thesis
  proof (elim disjE conjE)
    assume verb: "verb = ''incr''" and r: "r = decimal ((n + m) mod 2 ^ 32)"
    have "unat (of_nat (n + m) :: ulong) = (n + m) mod 2 ^ 32" unfolding unat_of_nat by simp
    moreover have "(of_nat m + of_nat n :: ulong) = of_nat (n + m)" by simp
    ultimately have "to_string (of_nat m + of_nat n :: ulong) = r" by (simp only: r to_string_def)
    with arith [of "\<lambda>x y. y + x"] assms(12) show ?thesis
      unfolding disp by (simp add: verb cmdDispatch_def cmdProcessIncr_def)
  next
    assume verb: "verb = ''decr''" and r: "r = decimal (n - m)"
    have "to_string (if (of_nat n :: ulong) \<le> of_nat m then 0 else of_nat n - of_nat m :: ulong) = r"
      using u unat_sub32 [of "of_nat m" "of_nat n"]
      by (cases "n \<le> m") (simp_all add: r to_string_def word_le_nat_alt)
    with arith [of "\<lambda>x y. if x \<le> y then 0 else x - y"] assms(12) show ?thesis
      unfolding disp by (simp add: verb cmdDispatch_def cmdProcessDecr_def)
  qed
qed

definition ex_num :: db where
  "ex_num = ex_one\<lparr>gKeyToValueHashMap := (\<lambda>_. Map.empty)(7 := [''a'' \<mapsto> (ex_value ''37'', 0)])\<rparr>"

lemma ex_num_simps [simp]:
  "gStoredSize ex_num = 18" "gServMemLimit ex_num = 7000" "badAlloc ex_num = False" "gIsFlushAllSet ex_num = False"
  by (simp_all add: ex_num_def)

lemma ex_num_steady: "steady_at 100 2 ex_num"
proof -
  have "db_wf ex_num"
    unfolding db_wf_def db_wf_at_def ex_num_def
    by (auto intro!: table_wfI simp: ts_sorted_def getTimestampFromMap_def split: if_splits)
  then show ?thesis using ex_one_steady by (simp add: steady_at_def same_second_def ex_num_def)
qed

lemma ex_num_view: "db_view t ex_num = [''a'' \<mapsto> ex_value ''37'']"
  by (auto simp: fun_eq_iff db_view_def entry_dead_def get_defs ex_num_def)

theorem incr_decr_witness:
  "\<exists>w' c. cmdProcessCommand (''incr a 5'' @ crlf) ex_num = Inr (0, ''42'' @ crlf, w') \<and>
     db_view 100 w' = [''a'' \<mapsto> (ex_value ''37'')\<lparr>vs_value := ''42'', vs_casUniq := c\<rparr>]"
proof -
  have d: "decimal 5 = ''5''" "decimal 37 = ''37''" "decimal 42 = ''42''" by code_simp+
  have len: "length (key_line ''incr'' ''a'' (decimal 5) False) < 2 ^ 32 - 1"
    by (simp add: key_line_def d crlf_def)
  have "\<exists>w' c. cmdProcessCommand (key_line ''incr'' ''a'' (decimal 5) False) ex_num =
      Inr (0, reply False (line (decimal 42)), w') \<and>
      db_view 100 w' = (db_view 100 ex_num)(''a'' \<mapsto> (ex_value ''37'')\<lparr>vs_value := decimal 42, vs_casUniq := c\<rparr>)"
    by (rule incr_decr [OF _ len ex_num_steady, where n = 37])
      (simp_all add: ex_num_view d token_def room_def)
  then show ?thesis by (simp add: ex_num_view d key_line_def reply_def line_def)
qed

text \<open>
  C22. Arithmetic on a value that is not a number: the exception \<open>stoul\<close> throws leaves the
  handler and the dispatcher; nothing catches it.
\<close>

theorem incr_decr_throws:
  assumes "token key" and "length (key_line verb key (decimal m) noreply) < 2 ^ 32 - 1"
    and "steady_at t 1 w" and "\<not> gIsFlushAllSet w" and "db_view t w key = Some v"
    and "stoul (vs_value v) = Inl e" and "m < 2 ^ 32" and "verb = ''incr'' \<or> verb = ''decr''"
  shows "cmdProcessCommand (key_line verb key (decimal m) noreply) w = Inl e"
proof -
  have tok: "token verb" using assms(8) by (auto simp: token_def)
  from parseKeyField_line [OF tok assms(1) token_decimal assms(2)] obtain ts
    where p: "parseKeyField (key_line verb key (decimal m) noreply) = Inr (Inr (key, decimal m, ts, noreply))"
      and q: "parseNoreply (key_line verb key (decimal m) noreply) ts noreply = Inr noreply" by blast
  have "steady_at t (Suc 0) w" using assms(3) by simp
  from this assms(5) obtain w1 where "dbGetElement key no_out w = (SUCCESS, \<lparr>go_flags = vs_flags v,
      go_cas = vs_casUniq v, go_value = vs_value v, go_expiry = vs_expiry v - t\<rparr>, w1)"
    by (rule dbGetElement_hit)
  then have "cmdProcessArith calc (key_line verb key (decimal m) noreply) w = Inl e" for calc
    using p q assms(6) stoul_decimal [OF assms(7)] by (simp add: cmdProcessArith_def)
  then show ?thesis
    using cmdProcessCommand_args [OF key_line_verb tok assms(2), of w] assms(4,8)
    by (elim disjE) (simp_all add: cmdDispatch_def cmdProcessIncr_def cmdProcessDecr_def)
qed

theorem incr_decr_throws_witness:
  "cmdProcessCommand (''incr a 5'' @ crlf) ex_one = Inl InvalidArgument"
proof -
  have d: "decimal 5 = ''5''" by code_simp
  have "steady_at 100 1 ex_one" using ex_one_steady by (simp add: steady_at_def)
  moreover have "stoul ''xy'' = Inl InvalidArgument" by code_simp
  ultimately have "cmdProcessCommand (key_line ''incr'' ''a'' (decimal 5) False) ex_one = Inl InvalidArgument"
    by (intro incr_decr_throws [where t = 100 and v = "ex_value ''xy''"])
      (simp_all add: token_def key_line_def d crlf_def ex_one_view)
  then show ?thesis by (simp add: key_line_def d)
qed

section \<open>Touch\<close>

text \<open>
  Touching a visible key replies \<open>TOUCHED\<close>, keeps value and flags and sets the expiry to
  the current second plus the given time. The time is always relative, and zero means the
  current second rather than never.
\<close>

lemma touch_expiry:
  assumes "token key" and "length (key_line ''touch'' key (decimal e) noreply) < 2 ^ 32 - 1"
    and "steady_at t 2 w" and "\<not> gIsFlushAllSet w" and "db_view t w key = Some v"
    and "unat t + e < 2 ^ 32" and "room w key (vs_flags v) (vs_value v)" and "\<not> badAlloc w"
  shows "\<exists>w' c. cmdProcessCommand (key_line ''touch'' key (decimal e) noreply) w =
       Inr (0, reply noreply (line ''TOUCHED''), w') \<and>
     db_view t w' = (db_view t w)(key \<mapsto> v\<lparr>vs_expiry := t + of_nat e, vs_casUniq := c\<rparr>)"
proof -
  have tok: "token ''touch''" by (simp add: token_def)
  from parseKeyField_line [OF tok assms(1) token_decimal assms(2)] obtain ts
    where p: "parseKeyField (key_line ''touch'' key (decimal e) noreply) = Inr (Inr (key, decimal e, ts, noreply))"
      and q: "parseNoreply (key_line ''touch'' key (decimal e) noreply) ts noreply = Inr noreply" by blast
  have "steady_at t (Suc (Suc 0)) w" using assms(3) by (simp add: numeral_2_eq_2)
  from this assms(5) obtain w1 where g: "dbGetElement key no_out w = (SUCCESS, \<lparr>go_flags = vs_flags v,
      go_cas = vs_casUniq v, go_value = vs_value v, go_expiry = vs_expiry v - t\<rparr>, w1)"
    and w1: "steady_at t (Suc 0) w1" "db_view t w1 = db_view t w" "not_flushed w1 key"
      "gKeyToValueHashMap w1 (getHashTblNbrFromKey key) key = Some (v, gTimestamp w)"
    and mem: "gStoredSize w1 = gStoredSize w" "gServMemLimit w1 = gServMemLimit w" "badAlloc w1 = badAlloc w"
    by (rule dbGetElement_hit)
  have e: "e < 2 ^ 32" using assms(6) by simp
  have t1: "now w1 = t" using w1(1) by (simp add: steady_at_def same_second_now)
  have wf1: "db_wf w1" using w1(1) by (simp add: steady_at_def)
  have r: "room w1 key (vs_flags v) (vs_value v)" "\<not> badAlloc w1"
    using assms(7,8) mem by (simp_all add: room_def)
  have "unat (now w1) + unat (of_nat e :: ulong) < 2 ^ 32" using assms(6) unat_of_nat32 [OF e] t1 by simp
  from dbInsertElement_visible [OF wf1 r w1(3) this, of "vs_casUniq v"]
  have "\<exists>w'. dbInsertElement key (vs_flags v) (vs_casUniq v) (vs_value v) (of_nat e) w1 = Inr (SUCCESS, w') \<and>
      db_view t w' = (db_view t w1)(key \<mapsto> v\<lparr>vs_expiry := t + of_nat e, vs_casUniq := insert_cas w1\<rparr>)"
    using w1(4) t1 by (cases v) (simp add: stored_value_def get_defs)
  then show ?thesis using w1(2) p q g stoul_decimal [OF e] assms(4)
      cmdProcessCommand_args [OF key_line_verb tok assms(2), of w]
    by (auto simp: cmdDispatch_def cmdProcessTouch_def)
qed

theorem touch_expiry_witness:
  "\<exists>w' c. cmdProcessCommand (''touch a 0'' @ crlf) ex_one = Inr (0, ''TOUCHED'' @ crlf, w') \<and>
     db_view 100 w' = [''a'' \<mapsto> (ex_value ''xy'')\<lparr>vs_expiry := 100, vs_casUniq := c\<rparr>]"
proof -
  have d: "decimal 0 = ''0''" by code_simp
  have "steady_at 100 2 ex_one" using ex_one_steady by (simp add: steady_at_def)
  moreover have "length (key_line ''touch'' ''a'' (decimal 0) False) < 2 ^ 32 - 1"
    by (simp add: key_line_def d crlf_def)
  ultimately have "\<exists>w' c. cmdProcessCommand (key_line ''touch'' ''a'' (decimal 0) False) ex_one =
      Inr (0, reply False (line ''TOUCHED''), w') \<and>
      db_view 100 w' = (db_view 100 ex_one)(''a'' \<mapsto> (ex_value ''xy'')\<lparr>vs_expiry := 100 + of_nat 0, vs_casUniq := c\<rparr>)"
    by (intro touch_expiry) (simp_all add: token_def ex_one_view room_def)
  then show ?thesis by (simp add: ex_one_view d key_line_def reply_def line_def)
qed

end
