(* ===== verification/CmdInv.thy ===== *)
theory CmdInv
  imports CmdArith
begin

text \<open>
  Every command keeps the storage well-formed. A command spends timestamps: one for a pending
  flush, one per look-up and one per insertion, so at most one per byte of the request and five
  more. As long as the counter has that many left, nothing goes wrong.
\<close>

section \<open>Well-formed, with timestamps to spend\<close>

definition wf_left :: "nat \<Rightarrow> db \<Rightarrow> bool" where
  "wf_left n w \<longleftrightarrow> db_wf w \<and> unat (gTimestamp w) + n < 2 ^ 32"

lemma wf_left_mono: "wf_left n w \<Longrightarrow> m \<le> n \<Longrightarrow> wf_left m w"
  by (simp add: wf_left_def)

text \<open>
  The contract between the handlers and the storage: operations that spend one timestamp, and
  operations that spend none.
\<close>

locale spends =
  fixes left :: "nat \<Rightarrow> 's \<Rightarrow> bool"
    and runs :: "'s \<Rightarrow> 's \<Rightarrow> bool"
  assumes runs_left: "left (Suc n) s \<Longrightarrow> runs s s' \<Longrightarrow> left n s'"
begin

text \<open>A sequence of such operations spends one each.\<close>

lemma runs_sequence: "(runs ^^ k) s s' \<Longrightarrow> left (n + k) s \<Longrightarrow> left n s'"
proof (induction k arbitrary: n s')
  case (Suc k)
  then obtain m where m: "(runs ^^ k) s m" "runs m s'" by auto
  have "left (Suc n + k) s" using Suc.prems(2) by simp
  from Suc.IH [OF m(1) this] show ?case using m(2) by (rule runs_left)
qed simp

end

text \<open>The operations of the storage, seen as steps from one state to the next.\<close>

inductive db_spend :: "db \<Rightarrow> db \<Rightarrow> bool" where
  get: "dbGetElement key out w = (st, out', w') \<Longrightarrow> db_spend w w'"
| insert: "dbInsertElement key flags cas val expiry w = Inr (st, w') \<Longrightarrow> db_spend w w'"
| add: "dbAddElement key flags cas val expiry w = Inr (st, w') \<Longrightarrow> db_spend w w'"
| flush: "db_spend w (dbHandleFlushAll w)"

lemma dbAddElement_timestamp:
  assumes "dbAddElement key flags casUniq val expiry w = Inr (st, w')"
  shows "gTimestamp w' = gTimestamp w + 1"
  using assms
proof (cases rule: dbAddElement_cases)
  case (commit w4)
  then show ?thesis
    by (auto simp: dbAddCommit_def Let_def evicts_def shrinks_def split: option.splits if_splits)
qed (simp add: evicts_def shrinks_def)

interpretation timestamps: spends wf_left db_spend
proof
  fix n w w' assume left: "wf_left (Suc n) w" and step: "db_spend w w'"
  have wf: "db_wf w" and small: "unat (gTimestamp w) + 1 < 2 ^ 32" using left by (simp_all add: wf_left_def)
  then have T: "gTimestamp w \<noteq> - 1" and T1: "unat (gTimestamp w + 1) = unat (gTimestamp w) + 1"
    using not_minus_one32 [of "unat (gTimestamp w)"] unat_add32 [of "gTimestamp w" 1] by simp_all
  from step have "db_wf w'"
    using wf T by (auto elim!: db_spend.cases intro: db_wf_get dbInsertElement_wf dbAddElement_wf dbHandleFlushAll_wf)
  moreover from step have "gTimestamp w' = gTimestamp w + 1 \<or> gTimestamp w' = gTimestamp w"
    using dbGetElement_frame dbInsertElement_frame dbAddElement_timestamp
    by (cases rule: db_spend.cases) (auto simp: dbHandleFlushAll_def Let_def)
  ultimately show "wf_left n w'" using left T1 by (auto simp: wf_left_def)
qed

text \<open>
  The same with a switch: off, nothing is asked of the storage. The proofs on the handlers then
  give both that they return and that they keep a well-formed storage well-formed.
\<close>

definition ready :: "bool \<Rightarrow> nat \<Rightarrow> db \<Rightarrow> bool" where
  "ready b n w \<longleftrightarrow> (b \<longrightarrow> wf_left n w)"

interpretation ready_steps: spends "ready b" db_spend for b
  using timestamps.runs_left by unfold_locales (auto simp: ready_def)

lemmas ready_get = ready_steps.runs_left [OF _ db_spend.get]
lemmas ready_insert = ready_steps.runs_left [OF _ db_spend.insert]
lemmas ready_add = ready_steps.runs_left [OF _ db_spend.add]
lemmas ready_flush = ready_steps.runs_left [OF _ db_spend.flush]

lemma ready_mono: "ready b n w \<Longrightarrow> m \<le> n \<Longrightarrow> ready b m w"
  using wf_left_mono by (auto simp: ready_def)

lemma ready_Suc: "ready b (Suc n) w \<Longrightarrow> ready b n w"
  by (erule ready_mono) simp

lemma ready_tick: "ready b n w \<Longrightarrow> ready b n (tick w)"
  by (simp add: ready_def wf_left_def db_wf_def db_wf_at_def)

lemma ready_set_flush: "ready b n w \<Longrightarrow> ready b n (dbSetFlushAll e w)"
  using dbSetFlushAll_wf [of w e] by (simp add: ready_def wf_left_def dbSetFlushAll_def)

lemma ready_delete: "dbDeleteElement key e w = (st, w') \<Longrightarrow> ready b n w \<Longrightarrow> ready b n w'"
  using dbDeleteElement_wf [of w key e]
  by (auto simp: ready_def wf_left_def dbDeleteElement_def Let_def split: option.splits if_splits)

text \<open>Parsers and insertions never run out of fuel.\<close>

lemma parsers_return [simp]:
  "substr s p k \<noteq> Inl OutOfFuel" "stoul s \<noteq> Inl OutOfFuel" "parseNoreply input ts third \<noteq> Inl OutOfFuel"
  "parseKeyField input \<noteq> Inl OutOfFuel"
  "dbInsertElement key flags casUniq val e w \<noteq> Inl OutOfFuel"
  "dbAddElement key flags casUniq val e w \<noteq> Inl OutOfFuel"
proof -
  show sub: "substr s p k \<noteq> Inl OutOfFuel" for s p k by (simp add: substr_def)
  show "stoul s \<noteq> Inl OutOfFuel" by (simp add: stoul_def Let_def)
  show "parseNoreply input ts third \<noteq> Inl OutOfFuel" using sub by (auto simp: parseNoreply_def rbind_eq_Inl)
  show "parseKeyField input \<noteq> Inl OutOfFuel" using sub by (auto simp: parseKeyField_def rbind_eq_Inl Let_def)
  show "dbInsertElement key flags casUniq val e w \<noteq> Inl OutOfFuel"
    "dbAddElement key flags casUniq val e w \<noteq> Inl OutOfFuel"
    using storing_fault by fastforce+
qed

section \<open>The parser leaves the storage alone\<close>

text \<open>A block of the parser returns the storage it got, up to a reading of the clock.\<close>

definition quiet :: "db \<Rightarrow> ('a \<Rightarrow> db) \<Rightarrow> 'a step \<Rightarrow> bool" where
  "quiet w st m \<longleftrightarrow>
     (case m of Throw e \<Rightarrow> e \<noteq> OutOfFuel | Return r out s w' \<Rightarrow> w' = w \<or> w' = tick w
      | Continue a \<Rightarrow> st a = w \<or> st a = tick w)"

lemma quiet_simps [simp]:
  "quiet w st (Throw e) \<longleftrightarrow> e \<noteq> OutOfFuel" "quiet w st (Return r out s w') \<longleftrightarrow> w' = w \<or> w' = tick w"
  "quiet w st (Continue a) \<longleftrightarrow> st a = w \<or> st a = tick w"
  by (simp_all add: quiet_def)

lemma quiet_bind:
  assumes "quiet w st m" and "\<And>a. st a = w \<or> st a = tick w \<Longrightarrow> quiet w st' (f a)"
  shows "quiet w st' (step_bind m f)"
  using assms by (cases m) auto

lemma quiet_lift: "m \<noteq> Inl OutOfFuel \<Longrightarrow> (\<And>a. quiet w st (f a)) \<Longrightarrow> quiet w st (step_bind (lift m) f)"
  by (cases m) simp_all

lemma commonKey_quiet: "quiet w (\<lambda>_. w) (commonKey input n store w)"
  by (auto simp: commonKey_def Let_def intro!: quiet_lift)

lemma commonFlags_quiet: "quiet w (\<lambda>(p, s, w). w) (commonFlags input n start store w)"
  by (auto simp: commonFlags_def Let_def commonExpiry_def intro!: quiet_lift
      split: sum.split cpp_fault.split)

lemma commonBytes_quiet: "quiet v (\<lambda>_. v') (commonBytes input n isCas start store v')"
  if "v' = v \<or> v' = tick v"
  using that by (auto simp: commonBytes_def Let_def intro!: quiet_lift)

lemma commonNoreply_quiet: "quiet v (\<lambda>_. v') (commonNoreply input n isCas b start t store v')"
  if "v' = v \<or> v' = tick v"
  using that by (auto simp: commonNoreply_def Let_def intro!: quiet_lift)

lemma commonData_quiet: "quiet v (\<lambda>_. v) (commonData input n b store v')"
  if "v' = v \<or> v' = tick v"
  using that by (auto simp: commonData_def Let_def intro!: quiet_lift split: sum.split cpp_fault.split)

lemma commonRest_quiet:
  assumes "v' = v \<or> v' = tick v"
  shows "quiet v (\<lambda>_. v)
    (step_bind (commonBytes input n isCas next store v')
       (\<lambda>(bytesStr, start, tempSpace, store).
          step_bind (commonNoreply input n isCas bytesStr start tempSpace store v')
            (\<lambda>(bytesStr, store). commonData input n bytesStr store v')))"
proof (rule quiet_bind [OF commonBytes_quiet [OF assms]])
  fix a
  show "quiet v (\<lambda>_. v) (case a of (bytesStr, start, tempSpace, store) \<Rightarrow>
      step_bind (commonNoreply input n isCas bytesStr start tempSpace store v')
        (\<lambda>(bytesStr, store). commonData input n bytesStr store v'))"
    by (cases a) (auto intro!: quiet_bind [OF commonNoreply_quiet [OF assms]] commonData_quiet [OF assms])
qed

lemma cmdProcessCommon_quiet:
  "cmdProcessCommon input isCas isExistData store w \<noteq> Inl OutOfFuel \<and>
   (cmdProcessCommon input isCas isExistData store w = Inr (r, out, store', w') \<longrightarrow> w' = w \<or> w' = tick w)"
proof -
  define n where "n = str_find input crlf 0"
  let ?m = "step_bind (commonKey input n store w)
           (\<lambda>(next, store).
              step_bind (if isExistData then Continue (next, store, w) else commonFlags input n next store w)
                (\<lambda>(next, store, w).
                   step_bind (commonBytes input n isCas (next + 1) store w)
                     (\<lambda>(bytesStr, start, tempSpace, store).
                        step_bind (commonNoreply input n isCas bytesStr start tempSpace store w)
                          (\<lambda>(bytesStr, store). commonData input n bytesStr store w))))"
  have flags: "quiet w (\<lambda>(p, s, w). w)
      (if isExistData then Continue (nx, st, w) else commonFlags input n nx st w)" for nx st
    using commonFlags_quiet by simp
  have "quiet w (\<lambda>_. w) ?m"
    by (rule quiet_bind [OF commonKey_quiet]) (auto intro!: quiet_bind [OF flags] commonRest_quiet)
  then show ?thesis
    by (auto simp: cmdProcessCommon_def Let_def n_def [symmetric] split: step.splits)
qed

lemmas cmdProcessCommon_returns = cmdProcessCommon_quiet [THEN conjunct1]

lemma cmdProcessCommonTwice_returns: "cmdProcessCommonTwice input w \<noteq> Inl OutOfFuel"
  using cmdProcessCommon_returns by (auto simp: cmdProcessCommonTwice_def rbind_eq_Inl)

section \<open>Every handler returns and keeps the storage well-formed\<close>

definition keeps :: "bool \<Rightarrow> nat \<Rightarrow> handler_result \<Rightarrow> bool" where
  "keeps b n res \<longleftrightarrow> (case res of Inl e \<Rightarrow> e \<noteq> OutOfFuel | Inr (r, out, w) \<Rightarrow> ready b n w)"

lemma keeps_simps [simp]: "keeps b n (Inl e) \<longleftrightarrow> e \<noteq> OutOfFuel" "keeps b n (Inr (r, out, w)) \<longleftrightarrow> ready b n w"
  by (simp_all add: keeps_def)

lemma keeps_rbind: "m \<noteq> Inl OutOfFuel \<Longrightarrow> (\<And>a. m = Inr a \<Longrightarrow> keeps b n (f a)) \<Longrightarrow> keeps b n (rbind m f)"
  by (cases m) simp_all

lemma keeps_with_store:
  assumes "p \<noteq> Inl OutOfFuel" and "\<And>r out store w'. p = Inr (r, out, store, w') \<Longrightarrow> ready b m w'"
    and "\<And>store w'. ready b m w' \<Longrightarrow> keeps b n (f store w')" and "n \<le> m"
  shows "keeps b n (with_store p f)"
  using assms ready_mono by (auto simp: with_store_def intro!: keeps_rbind)

lemma cmdProcessCommon_left:
  "cmdProcessCommon input isCas isExistData store w = Inr (r, out, store', w') \<Longrightarrow> ready b n w \<Longrightarrow> ready b n w'"
  using cmdProcessCommon_quiet ready_tick by blast

lemma cmdProcessCommonTwice_left:
  "cmdProcessCommonTwice input w = Inr (r, out, store', w') \<Longrightarrow> ready b n w \<Longrightarrow> ready b n w'"
  using cmdProcessCommon_left
  by (fastforce simp: cmdProcessCommonTwice_def rbind_eq_Inr split: if_splits)

text \<open>The insertion at the end of a handler, whatever the replies are.\<close>

lemma keeps_insert:
  assumes "ready b (Suc n) w" and "\<And>st w'. ready b n w' \<Longrightarrow> keeps b n (g st w')"
  shows "keeps b n (rbind (dbInsertElement key flags cas val e w) (\<lambda>(st, w). g st w))"
  using assms ready_insert by (auto intro!: keeps_rbind)

lemma keeps_get:
  assumes "ready b (Suc (Suc n)) w"
    and "\<And>st out' w'. ready b (Suc n) w' \<Longrightarrow> ready b n w' \<Longrightarrow> keeps b n (g st out' w')"
  shows "keeps b n (case dbGetElement key out w of (st, out', w') \<Rightarrow> g st out' w')"
  using assms ready_get [OF assms(1)] ready_Suc by (auto split: prod.split)

lemma keeps_delete:
  assumes "ready b n w" and "\<And>st w'. ready b n w' \<Longrightarrow> keeps b n (g st w')"
  shows "keeps b n (case dbDeleteElement key e w of (st, w') \<Rightarrow> g st w')"
  using assms ready_delete [OF _ assms(1)] by (auto split: prod.split)

lemma keeps_if: "(P \<Longrightarrow> keeps b n x) \<Longrightarrow> (\<not> P \<Longrightarrow> keeps b n y) \<Longrightarrow> keeps b n (if P then x else y)"
  by simp

lemma cmdProcessSet_keeps: "ready b (Suc n) w \<Longrightarrow> keeps b n (cmdProcessSet input w)"
  unfolding cmdProcessSet_def
  by (rule keeps_with_store [OF cmdProcessCommon_returns cmdProcessCommon_left]) (auto intro!: keeps_insert)

lemma cmdProcessCas_keeps: "ready b (Suc n) w \<Longrightarrow> keeps b n (cmdProcessCas input w)"
  unfolding cmdProcessCas_def
  by (rule keeps_with_store [OF cmdProcessCommon_returns cmdProcessCommon_left]) (auto intro!: keeps_insert)

lemma cmdProcessAdd_keeps: "ready b (Suc n) w \<Longrightarrow> keeps b n (cmdProcessAdd input w)"
  unfolding cmdProcessAdd_def
  by (rule keeps_with_store [OF cmdProcessCommon_returns cmdProcessCommon_left]) (auto intro!: keeps_rbind dest: ready_add)

lemma cmdProcessReplace_keeps: "ready b (Suc (Suc n)) w \<Longrightarrow> keeps b n (cmdProcessReplace input w)"
  unfolding cmdProcessReplace_def
  by (rule keeps_with_store [OF cmdProcessCommon_returns cmdProcessCommon_left])
    (auto intro!: keeps_get keeps_if keeps_insert)

lemma cmdProcessAppend_keeps: "ready b (Suc (Suc n)) w \<Longrightarrow> keeps b n (cmdProcessAppend input w)"
  unfolding cmdProcessAppend_def
  by (rule keeps_with_store [OF cmdProcessCommonTwice_returns cmdProcessCommonTwice_left])
    (auto intro!: keeps_get keeps_if keeps_insert)

lemma cmdProcessPrepend_keeps: "ready b (Suc (Suc n)) w \<Longrightarrow> keeps b n (cmdProcessPrepend input w)"
  unfolding cmdProcessPrepend_def
  by (rule keeps_with_store [OF cmdProcessCommonTwice_returns cmdProcessCommonTwice_left])
    (auto intro!: keeps_get keeps_if keeps_insert)

lemma getKeys_length: "getKeys fuel input n sp = Inr keys \<Longrightarrow> length keys \<le> fuel"
  by (induction fuel input n sp arbitrary: keys rule: getKeys.induct)
    (auto simp: Let_def rbind_eq_Inr split: if_splits)

text \<open>Each round of the loop starts behind the last one, so a unit of fuel per byte is enough.\<close>

lemma getKeys_fuel:
  assumes "length input < 2 ^ 32 - 1" and "unat sp < length input" and "length input < fuel + unat sp"
  shows "getKeys fuel input n sp \<noteq> Inl OutOfFuel"
  using assms(2,3)
proof (induction fuel arbitrary: sp)
  case (Suc fuel)
  have sp1: "unat (sp + 1) = unat sp + 1" using unat_add32 [of sp 1] Suc.prems assms(1) by simp
  have "getKeys fuel input n (find_space input (sp + 1)) \<noteq> Inl OutOfFuel"
    if "find_space input (sp + 1) \<noteq> npos"
    using assms(1)
  proof (cases rule: str_find_cases [of input "'' ''" "sp + 1"])
    case (hit i)
    then have "unat (find_space input (sp + 1)) = i" using assms(1) by (simp add: find_space_def unat_of_nat32)
    then show ?thesis using hit sp1 Suc.prems by (intro Suc.IH) simp_all
  qed (use that in \<open>simp add: find_space_def\<close>)
  then show ?case by (auto simp: Let_def rbind_eq_Inl past_line_def)
qed simp

lemma getKeys_returns:
  assumes "length input < 2 ^ 32 - 1" and "find_space input 0 \<noteq> npos"
  shows "getKeys (Suc (length input)) input n (find_space input 0) \<noteq> Inl OutOfFuel"
  using assms(1)
proof (cases rule: str_find_cases [of input "'' ''" 0])
  case (hit i)
  then have "unat (find_space input 0) = i" using assms(1) by (simp add: find_space_def unat_of_nat32)
  then show ?thesis using hit assms(1) by (intro getKeys_fuel) simp_all
qed (use assms(2) in \<open>simp add: find_space_def\<close>)

lemma getReplies_left: "getReplies g keys w = (out, w') \<Longrightarrow> ready b (n + length keys) w \<Longrightarrow> ready b n w'"
proof (induction keys arbitrary: w out)
  case (Cons k ks)
  obtain st o1 w1 where g: "dbGetElement k no_out w = (st, o1, w1)" by (metis prod_cases3)
  have "ready b (Suc (n + length ks)) w" using Cons.prems(2) by simp
  from ready_get [OF this g] Cons show ?case using g
    by (auto simp: Let_def split: prod.splits if_splits)
qed simp

lemma cmdProcessGetWith_keeps:
  assumes left: "ready b (n + length input + 1) w" and len: "length input < 2 ^ 32 - 1"
  shows "keeps b n (cmdProcessGetWith g input w)"
proof -
  have "keeps b n (let (out, w) = getReplies g keys w in Inr (0, out @ line ''END'', w))"
    if "getKeys (Suc (length input)) input e sp = Inr keys" for e sp keys
  proof -
    obtain out w' where r: "getReplies g keys w = (out, w')" by force
    have "ready b (n + length keys) w" using ready_mono [OF left] getKeys_length [OF that] by simp
    from getReplies_left [OF r this] r show ?thesis by simp
  qed
  moreover have "ready b n w" using left by (rule ready_mono) simp
  moreover have "find_space input 0 \<noteq> npos \<Longrightarrow>
      getKeys (Suc (length input)) input e (find_space input 0) \<noteq> Inl OutOfFuel" for e
    using len by (intro getKeys_returns)
  ultimately show ?thesis unfolding cmdProcessGetWith_def Let_def by (auto simp: past_line_def intro!: keeps_rbind)
qed

lemma cmdProcessDelete_keeps: "ready b n w \<Longrightarrow> keeps b n (cmdProcessDelete input w)"
  unfolding cmdProcessDelete_def Let_def
  by (auto intro!: keeps_if keeps_rbind keeps_delete)

text \<open>The parsers of numbers and marks do not touch the storage.\<close>

lemmas keeps_parse = keeps_rbind [where m = "m :: ulong result" for m] keeps_rbind [where m = "m :: bool result" for m]

lemma cmdProcessArith_keeps:
  assumes "ready b (Suc (Suc n)) w"
  shows "keeps b n (cmdProcessArith calc input w)"
proof -
  have "ready b n w" using assms by (rule ready_mono) simp
  with assms show ?thesis unfolding cmdProcessArith_def Let_def
    by (intro keeps_rbind)
      (auto intro!: keeps_parse keeps_get keeps_if keeps_insert split: sum.split)
qed

lemma cmdProcessTouch_keeps:
  assumes "ready b (Suc (Suc n)) w"
  shows "keeps b n (cmdProcessTouch input w)"
proof -
  have "ready b n w" using assms by (rule ready_mono) simp
  with assms show ?thesis unfolding cmdProcessTouch_def Let_def
    by (intro keeps_rbind)
      (auto intro!: keeps_parse keeps_get keeps_if keeps_insert
        split: sum.split cpp_fault.split)
qed

lemma cmdProcessFlushAll_keeps: "ready b n w \<Longrightarrow> keeps b n (cmdProcessFlushAll input w)"
  unfolding cmdProcessFlushAll_def Let_def
  by (auto intro!: keeps_if keeps_rbind ready_set_flush split: sum.split cpp_fault.split)

lemma cmdProcessVerbosity_keeps: "ready b n w \<Longrightarrow> keeps b n (cmdProcessVerbosity input w)"
  unfolding cmdProcessVerbosity_def Let_def
  by (auto intro!: keeps_if keeps_rbind split: sum.split cpp_fault.split)

lemma cmdDispatch_keeps:
  assumes left: "ready b (n + length input + 2) w" and len: "length input < 2 ^ 32 - 1"
  shows "keeps b n (cmdDispatch command input w)"
proof -
  have 2: "ready b (Suc (Suc n)) w" and 1: "ready b (Suc n) w" and 0: "ready b n w"
    and get: "ready b (n + length input + 1) w" by (rule ready_mono [OF left], simp)+
  show ?thesis
    unfolding cmdDispatch_def cmdProcessGet_def cmdProcessGets_def cmdProcessIncr_def cmdProcessDecr_def
    by (intro keeps_if cmdProcessSet_keeps [OF 1] cmdProcessAdd_keeps [OF 1] cmdProcessReplace_keeps [OF 2]
        cmdProcessAppend_keeps [OF 2] cmdProcessPrepend_keeps [OF 2] cmdProcessCas_keeps [OF 1]
        cmdProcessGetWith_keeps [OF get len] cmdProcessDelete_keeps [OF 0] cmdProcessArith_keeps [OF 2]
        cmdProcessTouch_keeps [OF 2] cmdProcessFlushAll_keeps [OF 0] cmdProcessVerbosity_keeps [OF 0])
      (simp_all add: 0 ready_tick cmdProcessStats_def cmdProcessVersion_def cmdProcessQuit_def)
qed

lemma cmdProcessCommand_keeps:
  "ready b (n + length input + 3) w \<Longrightarrow> length input < 2 ^ 32 - 1 \<Longrightarrow> keeps b n (cmdProcessCommand input w)"
proof -
  assume "ready b (n + length input + 3) w" and len: "length input < 2 ^ 32 - 1"
  then have "ready b (n + length input + 2) (dbHandleFlushAll w)"
    by (intro ready_flush) (simp add: numeral_3_eq_3)
  then show ?thesis unfolding cmdProcessCommand_def Let_def
    using len by (intro keeps_rbind cmdDispatch_keeps) simp_all
qed

lemma cmdProcessCommand_returns: "length input < 2 ^ 32 - 1 \<Longrightarrow> cmdProcessCommand input w \<noteq> Inl OutOfFuel"
  using cmdProcessCommand_keeps [of False 0 input w] by (auto simp: ready_def)

lemma cmdProcessCommand_left:
  "cmdProcessCommand input w = Inr (r, out, w') \<Longrightarrow> wf_left (n + length input + 3) w \<Longrightarrow> wf_left n w'"
  using cmdProcessCommand_keeps [of True n input w] by (simp add: ready_def wf_left_def)

section \<open>The states of the server\<close>

text \<open>
  The storages the server reaches by processing one input after the other, from the start, while
  there are timestamps left for the next input.
\<close>

inductive served :: "db \<Rightarrow> bool" where
  start: "served (initial_db clk)"
| command: "served w \<Longrightarrow> unat (gTimestamp w) + length input + 3 < 2 ^ 32 \<Longrightarrow>
     cmdProcessCommand input w = Inr (r, out, w') \<Longrightarrow> served w'"



text \<open>
  C3. Whatever inputs the server processes, well-formed or not, its storage keeps the invariant:
  every eviction order is strictly ascending and below the counter, every entry of a hash table
  lies in the table of its key and can be reached by eviction, and the last flush is not newer
  than the counter.
\<close>

theorem served_wf: "served w \<Longrightarrow> db_wf w"
proof (induction rule: served.induct)
  case (start clk)
  show ?case by (rule initial_db_wf)
next
  case (command w input r out w')
  then show ?case using cmdProcessCommand_left [of input w r out w' 0] by (simp add: wf_left_def)
qed

lemma served_get_line: "\<exists>w'. cmdProcessCommand (''get a'' @ crlf) (initial_db ex_clock) = Inr (0, ''END'' @ crlf, w')"
proof -
  have "steady_at 100 (Suc 0) (initial_db ex_clock)"
    by (simp add: steady_at_def initial_db_wf same_second_def) (simp add: initial_db_def ex_clock_def)
  moreover have "view_at 100 (initial_db ex_clock) ''a'' = None"
    by (simp add: view_at_def db_view_def initial_db_def)
  ultimately show ?thesis using get_one [of "''a''" 100 "initial_db ex_clock"]
    by (simp add: token_def initial_db_def value_block_def line_def)
qed

theorem served_wf_witness:
  "\<exists>w'. cmdProcessCommand (''get a'' @ crlf) (initial_db ex_clock) = Inr (0, ''END'' @ crlf, w') \<and> db_wf w'"
proof -
  from served_get_line obtain w'
    where w': "cmdProcessCommand (''get a'' @ crlf) (initial_db ex_clock) = Inr (0, ''END'' @ crlf, w')" by blast
  have "served w'" by (rule served.command [OF served.start _ w']) (simp add: initial_db_def crlf_def)
  with w' served_wf show ?thesis by blast
qed

end
