(* ===== verification/SockFrames.thy ===== *)
theory SockFrames
  imports Sock CmdInv
begin

text \<open>
  The receive loop cuts a stream into requests independently of the pieces it arrives in.
\<close>

section \<open>Finding the line end\<close>

lemma no_crlf:
  assumes "CHR 0x0D \<notin> set h" and "i < length h"
  shows "\<not> prefix crlf (drop i (h @ crlf @ rest))"
proof
  assume "prefix crlf (drop i (h @ crlf @ rest))"
  then have "(h @ crlf @ rest) ! i = CHR 0x0D"
    using assms(2) by (auto simp: prefix_def crlf_def nth_via_drop)
  then have "h ! i = CHR 0x0D" using assms(2) by (simp add: nth_append)
  with assms show False using nth_mem by fastforce
qed

text \<open>In a string cut off before the line end is complete, the search finds nothing.\<close>

lemma str_find_crlf_cut:
  assumes "pre @ h @ crlf = data @ tail" and "tail \<noteq> []" and "CHR 0x0D \<notin> set h"
    and "length data < 2 ^ 32 - 1" and "length pre \<le> unat p"
  shows "str_find data crlf p = npos"
  using assms(4)
proof (cases rule: str_find_cases [of data crlf p])
  case (hit i)
  have i: "length pre \<le> i" using hit(2) assms(5) by simp
  have "length data < length pre + length h + 2"
    using arg_cong [OF assms(1), of length] assms(2) by (simp add: crlf_def)
  then have "i - length pre < length h" using hit(3) i by (simp add: crlf_def)
  moreover have "prefix crlf (drop (i - length pre) (h @ crlf @ []))"
  proof -
    have "prefix crlf (drop i (data @ tail))" using hit(3,4) by (auto simp: prefix_def)
    then show ?thesis using i unfolding assms(1) [symmetric] by simp
  qed
  ultimately show ?thesis using no_crlf [OF assms(3)] by blast
qed simp

section \<open>The loop ends\<close>

text \<open>Behind the position the loop remembers, the bytes it holds have no line end.\<close>

definition scanned :: "conn \<Rightarrow> bool" where
  "scanned c \<longleftrightarrow> str_find (cn_data c) crlf (cn_pos c + 2) = npos"

lemma str_find_at_end: "length s < 2 ^ 32 \<Longrightarrow> str_find s crlf (of_nat (length s)) = npos"
  by (simp add: str_find_def unat_of_nat32 crlf_def)

lemma str_find_take_end:
  assumes "i + 2 \<le> length s" and "length s < 2 ^ 32"
  shows "str_find (take (i + 2) s) crlf (of_nat i + 2) = npos"
proof -
  have l: "length (take (i + 2) s) = i + 2" using assms(1) by simp
  have "(of_nat i + 2 :: uint) = of_nat (length (take (i + 2) s))" unfolding l by simp
  then show ?thesis using str_find_at_end [of "take (i + 2) s"] l assms by (simp add: add.commute)
qed

lemma str_find_short: "str_find [] crlf 2 = npos"
  by (simp add: str_find_def)

text \<open>A line end found after bytes were appended reaches into the new bytes.\<close>

lemma str_find_none:
  assumes "str_find s pat p = npos" and "length s < 2 ^ 32 - 1" and "unat p \<le> j" and "j \<le> length s"
  shows "\<not> prefix pat (drop j s)"
proof (cases "find_at pat (drop (unat p) s) (unat p)")
  case None
  from find_at_None [OF this, of "j - unat p"] assms(3,4) show ?thesis by simp
next
  case (Some i)
  then have "i \<le> length s" using find_at_Some_bounds [OF Some] assms(3,4) by simp
  then have "of_nat i \<noteq> npos" using not_minus_one32 [of i] assms(2) by (simp add: npos_def)
  with Some assms show ?thesis by (simp add: str_find_def)
qed

lemma found_in_new:
  assumes "str_find data crlf p = npos" and "unat p \<le> i" and "prefix crlf (drop i (data @ new))"
    and "length data < 2 ^ 32 - 1"
  shows "length data < i + 2"
proof (rule ccontr)
  assume "\<not> length data < i + 2"
  then have i: "i + 2 \<le> length data" by simp
  then have "drop i (data @ new) = drop i data @ new" "length crlf \<le> length (drop i data)"
    by (simp_all add: crlf_def)
  then have "prefix crlf (drop i data)" using assms(3) by (metis prefix_append prefix_length_prefix prefix_order.refl prefixI)
  with str_find_none [OF assms(1,4,2)] i show False by simp
qed

text \<open>
  One round: it never leaves a line end unscanned, it puts aside fewer bytes than it got, and it
  fails only as \<open>cmdProcessCommand\<close> does.
\<close>

lemma sockScan_round:
  assumes "str_find data crlf (cn_pos c + 2) = npos" and "new \<noteq> []" and "cn_data c = data @ new"
    and "cn_persistentData c = []" and "length (data @ new) < 2 ^ 32 - 3"
    and "sockScan c = Inr (c', None)"
  shows "scanned c' \<and> length (cn_persistentData c') < length new \<and>
     length (cn_data c') + length (cn_persistentData c') \<le> length (data @ new)"
proof (rule str_find_cases [of "data @ new" crlf "cn_pos c + 2"])
  assume none: "str_find (data @ new) crlf (cn_pos c + 2) = npos"
  then have "c' = c" using assms(3,6) by (auto simp: sockScan_def Let_def)
  with none show ?thesis using assms(2-4) by (simp add: scanned_def)
next
  fix i
  assume hit: "str_find (data @ new) crlf (cn_pos c + 2) = of_nat i" "unat (cn_pos c + 2) \<le> i"
    "i + length crlf \<le> length (data @ new)" "prefix crlf (drop i (data @ new))"
  have len: "length crlf = 2" by (simp add: crlf_def)
  have i: "length data < i + 2" using found_in_new [OF assms(1) hit(2,4)] assms(5) by simp
  have w: "unat (of_nat i + 2 :: uint) = i + 2" and np: "of_nat i \<noteq> npos"
    using hit(3) assms(5) unat_of_nat32 [of "i + 2"] not_minus_one32 [of i] by (simp_all add: len npos_def add.commute)
  have e: "str_find (take (i + 2) (data @ new)) crlf (of_nat i + 2) = npos"
    by (rule str_find_take_end) (use hit(3) len assms(5) in simp_all)
  show ?thesis
    using assms(2,3,6) hit i w np e str_find_short len
    by (auto simp: sockScan_def sockCommand_def scanned_def Let_def rbind_eq_Inr split: if_splits)
qed (use assms(5) in simp)

lemma sockScan_returns:
  assumes "length (cn_data c) < 2 ^ 32 - 1"
  shows "sockScan c \<noteq> Inl OutOfFuel"
proof -
  have "cmdProcessCommand (take k (cn_data c)) w \<noteq> Inl OutOfFuel" for k w
    using assms by (intro cmdProcessCommand_returns) simp
  then show ?thesis by (auto simp: sockScan_def sockCommand_def Let_def rbind_eq_Inl)
qed

lemma sockLoop_fuel:
  assumes "scanned c" and "length (cn_persistentData c) + length (concat chunks) < n"
    and "length (cn_data c) + length (cn_persistentData c) + length (concat chunks) < 2 ^ 32 - 3"
  shows "sockLoop n chunks e c \<noteq> Inl OutOfFuel"
  using assms
proof (induction n arbitrary: chunks c)
  case (Suc n)
  have go: "rbind (sockScan v) (\<lambda>(c, stop). case stop of None \<Rightarrow> sockLoop n cs e c | Some closing \<Rightarrow> Inr (c, closing)) \<noteq>
      Inl OutOfFuel"
    if v: "cn_data v = cn_data c @ new" "cn_pos v = cn_pos c" "cn_persistentData v = []" and new: "new \<noteq> []"
      and bound: "length new + length (concat cs) \<le> length (cn_persistentData c) + length (concat chunks)" for v new cs
  proof -
    have len: "length (cn_data c @ new) < 2 ^ 32 - 3" using Suc.prems(3) bound by simp
    have "sockLoop n cs e c' \<noteq> Inl OutOfFuel" if "sockScan v = Inr (c', None)" for c'
    proof -
      have r: "scanned c' \<and> length (cn_persistentData c') < length new \<and>
          length (cn_data c') + length (cn_persistentData c') \<le> length (cn_data c @ new)"
        by (rule sockScan_round [of _ v]) (use Suc.prems(1) v new len that in \<open>simp_all add: scanned_def\<close>)
      show ?thesis by (rule Suc.IH) (use r Suc.prems(2,3) bound in simp_all)
    qed
    moreover have "sockScan v \<noteq> Inl OutOfFuel" by (rule sockScan_returns) (use v len in simp)
    ultimately show ?thesis by (auto simp: rbind_eq_Inl split: option.splits)
  qed
  show ?case
  proof (cases "cn_persistentData c = []")
    case True
    then show ?thesis using go [of _ "hd chunks" "tl chunks"] by (cases chunks) auto
  next
    case False
    then show ?thesis using go [of _ "cn_persistentData c" chunks] by auto
  qed
qed simp

text \<open>
  C26. The receive loop of a connection always comes to an end: whatever bytes arrive, in whatever
  pieces, every round uses up at least one of them.
\<close>

theorem sockHandleIncomingConn_terminates:
  assumes "length (concat chunks) < 2 ^ 32 - 3"
  shows "sockHandleIncomingConn chunks e w \<noteq> Inl OutOfFuel"
  unfolding sockHandleIncomingConn_def
  by (rule sockLoop_fuel) (use assms in \<open>simp_all add: start_conn_def scanned_def str_find_short\<close>)

theorem sockHandleIncomingConn_terminates_witness:
  "sockHandleIncomingConn [''se'', ''t a 0 0 2'' @ crlf, crlf, ''junk''] PeerClosed ex_one \<noteq> Inl OutOfFuel"
  by (rule sockHandleIncomingConn_terminates) (simp add: crlf_def)

section \<open>Requests in a stream\<close>

text \<open>
  A request as it travels: a command line, and for the storage commands the data block behind
  it, each with its line end. The line has at least two characters, and neither part contains a
  carriage return of its own.
\<close>

type_synonym frame = "string \<times> string"

definition frame_ok :: "frame \<Rightarrow> bool" where
  "frame_ok f \<longleftrightarrow>
     (\<exists>h. fst f = h @ crlf \<and> CHR 0x0D \<notin> set h \<and> 2 \<le> length h) \<and>
     (snd f = [] \<or> (\<exists>d. snd f = d @ crlf \<and> CHR 0x0D \<notin> set d))"

definition flat :: "frame list \<Rightarrow> string" where
  "flat fs = concat (map (\<lambda>(hdr, body). hdr @ body) fs)"

lemma flat_simps [simp]: "flat [] = []" "flat ((hdr, body) # fs) = hdr @ body @ flat fs"
  by (simp_all add: flat_def)

text \<open>
  The replies a server gives that reads one request after the other: a command line is a request
  of its own, or the dispatcher asks for exactly the data block and answers once it has it.
\<close>

definition frame_reply :: "frame \<Rightarrow> db \<Rightarrow> (string \<times> db) option" where
  "frame_reply f w =
     (case cmdProcessCommand (fst f) w of
        Inl e \<Rightarrow> None
      | Inr (r, out, w) \<Rightarrow>
          if snd f = [] then (if r = 0 then Some (out, w) else None)
          else if r = int (length (snd f))
          then (case cmdProcessCommand (fst f @ snd f) w of
                  Inl e \<Rightarrow> None
                | Inr (r, out, w) \<Rightarrow> if r = 0 then Some (out, w) else None)
          else None)"

fun serve :: "frame list \<Rightarrow> db \<Rightarrow> (string list \<times> db) option" where
  "serve [] w = Some ([], w)"
| "serve (f # fs) w =
     (case frame_reply f w of
        None \<Rightarrow> None
      | Some (out, w) \<Rightarrow> map_option (\<lambda>(outs, w). (out # outs, w)) (serve fs w))"

section \<open>Scanning a stream\<close>

lemma sockScan_cut:
  assumes "str_find (cn_data v) crlf (cn_pos v + 2) = npos"
  shows "sockScan v = Inr (v, None)"
  using assms by (simp add: sockScan_def Let_def)

lemma sockScan_line:
  assumes "str_find (cn_data v) crlf (cn_pos v + 2) = of_nat k" and "cn_data v = ln @ rest"
    and "length ln = k + 2" and "suffix crlf ln" and "length (cn_data v) < 2 ^ 32 - 1"
    and "(if cn_persistFlag v then cn_readMore v - int (unat (of_nat k - (cn_pos v + 2) + 2)) else cn_readMore v) \<le> 0"
    and "cmdProcessCommand ln (cn_db v) = Inr (r, out, w)"
  shows "sockScan v =
     (let c = v\<lparr>cn_pos := of_nat k, cn_data := ln, cn_persistentData := rest, cn_persistFlag := False,
                cn_readMore := r, cn_db := w\<rparr>
      in if 0 < r then Inr (c, None) else if r < 0 then Inr (c, Some True)
         else Inr (c\<lparr>cn_data := [], cn_sent := cn_sent v @ [out], cn_pos := 0\<rparr>, None))"
proof -
  have "k + 2 < 2 ^ 32 - 1" using assms(2,3,5) by simp
  then have k: "of_nat k \<noteq> npos" and k2: "unat (of_nat k + 2 :: uint) = k + 2"
    using not_minus_one32 [of k] unat_of_nat32 [of "k + 2"] by (simp_all add: npos_def add.commute)
  have "take (k + 2) (cn_data v) = ln" "drop (k + 2) (cn_data v) = rest" using assms(2,3) by simp_all
  with assms k k2 show ?thesis
    by (auto simp: sockScan_def sockCommand_def Let_def)
qed

text \<open>The two searches: for the end of a line from its third byte, for the end of a data block behind the line.\<close>

lemma find_header:
  assumes "hdr = h @ crlf" and "CHR 0x0D \<notin> set h" and "2 \<le> length h" and "length (hdr @ rest) < 2 ^ 32 - 1"
  shows "str_find (hdr @ rest) crlf 2 = of_nat (length h)"
proof -
  have "hdr @ rest = take 2 h @ drop 2 h @ crlf @ rest" "CHR 0x0D \<notin> set (drop 2 h)" "(2 :: uint) = of_nat (length (take 2 h))"
    using assms(1-3) by (auto dest: in_set_dropD)
  from str_find_crlf [OF this(1) assms(4) this(2,3)] assms(3) show ?thesis by simp
qed

text \<open>
  What the loop waits for: a command line, of which it has a part, or the data block of a line
  it has handed over, of which it has a part. \<open>R\<close> are the bytes still to come, put aside ones
  first. While it waits for a data block, \<open>readMore\<close> does not exceed what is missing, or the
  bytes counted twice at the end will make up for it.
\<close>

definition awaits_line :: "frame list \<Rightarrow> string \<Rightarrow> conn \<Rightarrow> bool" where
  "awaits_line fs R c \<longleftrightarrow>
     cn_data c @ R = flat fs \<and> cn_pos c = 0 \<and> cn_readMore c \<le> 0 \<and>
     (case fs of [] \<Rightarrow> cn_data c = [] | f # _ \<Rightarrow> length (cn_data c) < length (fst f))"

definition awaits_body :: "frame \<Rightarrow> frame list \<Rightarrow> string \<Rightarrow> conn \<Rightarrow> bool" where
  "awaits_body f fs R c \<longleftrightarrow>
     (\<exists>part. cn_data c = fst f @ part \<and> part @ R = snd f @ flat fs \<and> length part < length (snd f) \<and>
        cn_pos c + 2 = of_nat (length (fst f)) \<and>
        (cn_readMore c \<le> int (length (snd f)) - int (length part) \<or>
         (cn_persistFlag c \<or> cn_persistentData c \<noteq> []) \<and> cn_readMore c \<le> int (length (snd f))))"

text \<open>The connection with the next bytes appended, as a round of the loop starts.\<close>

definition fed :: "conn \<Rightarrow> string \<Rightarrow> conn \<Rightarrow> bool" where
  "fed c new v \<longleftrightarrow>
     cn_data v = cn_data c @ new \<and> cn_pos v = cn_pos c \<and> cn_persistentData v = [] \<and> cn_db v = cn_db c \<and>
     cn_sent v = cn_sent c \<and>
     (cn_persistentData c \<noteq> [] \<and> cn_persistFlag v \<and> cn_readMore v = cn_readMore c \<or>
      cn_persistentData c = [] \<and> cn_persistFlag v = cn_persistFlag c \<and> cn_readMore v = cn_readMore c - int (length new))"

lemma append_split:
  assumes "a @ b = c @ d"
  obtains (cut) m where "c = a @ m" "b = m @ d" "m \<noteq> []" | (full) m where "a = c @ m" "d = m @ b"
proof (cases "\<exists>m. c = a @ m \<and> b = m @ d \<and> m \<noteq> []")
  case False
  with assms have "\<exists>m. a = c @ m \<and> d = m @ b" by (auto simp: append_eq_append_conv2)
  with full show ?thesis by blast
qed (use cut in blast)

lemma frame_ok_nonempty: "frame_ok f \<Longrightarrow> fst f \<noteq> []"
  by (auto simp: frame_ok_def crlf_def)

lemma awaits_line_fresh:
  assumes "\<forall>f \<in> set fs. frame_ok f" and "cn_data c = []" and "cn_pos c = 0" and "cn_readMore c \<le> 0" and "R = flat fs"
  shows "awaits_line fs R c"
  using assms frame_ok_nonempty by (auto simp: awaits_line_def split: list.split)

lemma counted_down: "(x :: int) \<le> 0 \<Longrightarrow> (if b then x - int k else x) \<le> 0"
  by simp

lemma line_round:
  assumes "awaits_line (f # fs) (new @ R) c" and "fed c new v" and "\<forall>g \<in> set (f # fs). frame_ok g"
    and "length (cn_data v) < 2 ^ 32 - 1" and "frame_reply f (cn_db c) = Some (out, w')"
  shows "(sockScan v = Inr (v, None) \<and> awaits_line (f # fs) R v) \<or>
     (\<exists>v'. sockScan v = Inr (v', None) \<and> awaits_line fs (cn_persistentData v' @ R) v' \<and>
        cn_sent v' = cn_sent c @ [out] \<and> cn_db v' = w') \<or>
     (\<exists>v'. sockScan v = Inr (v', None) \<and> snd f \<noteq> [] \<and> awaits_body f fs (cn_persistentData v' @ R) v' \<and>
        cn_sent v' = cn_sent c \<and> cmdProcessCommand (fst f @ snd f) (cn_db v') = Inr (0, out, w'))"
proof -
  obtain hdr body where f: "f = (hdr, body)" by (cases f)
  obtain h where h: "hdr = h @ crlf" "CHR 0x0D \<notin> set h" "2 \<le> length h" using assms(3) f by (auto simp: frame_ok_def)
  have data: "cn_data v @ R = hdr @ body @ flat fs" and pos: "cn_pos v = 0" and rm: "cn_readMore v \<le> 0"
    using assms(1,2) f by (auto simp: awaits_line_def fed_def)
  from data show ?thesis
  proof (cases rule: append_split)
    case (cut m)
    have "str_find (cn_data v) crlf (cn_pos v + 2) = npos"
      by (rule str_find_crlf_cut [of "[]" h _ m]) (use cut h assms(4) in simp_all)
    moreover have "awaits_line (f # fs) R v" using cut data pos rm f by (simp add: awaits_line_def)
    ultimately show ?thesis using sockScan_cut by blast
  next
    case (full rest)
    have find: "str_find (cn_data v) crlf (cn_pos v + 2) = of_nat (length h)"
      using find_header [OF h, of rest] full assms(4) pos by simp
    obtain r o1 w1 where cmd: "cmdProcessCommand hdr (cn_db v) = Inr (r, o1, w1)"
      and r0: "body = [] \<Longrightarrow> r = 0 \<and> out = o1 \<and> w' = w1"
      and r1: "body \<noteq> [] \<Longrightarrow> r = int (length body) \<and> cmdProcessCommand (hdr @ body) w1 = Inr (0, out, w')"
      using assms(2,5) f by (auto simp: frame_reply_def fed_def split: sum.splits if_splits prod.splits)
    let ?v = "v\<lparr>cn_pos := of_nat (length h), cn_data := hdr, cn_persistentData := rest, cn_persistFlag := False,
                cn_readMore := r, cn_db := w1\<rparr>"
    have sfx: "length hdr = length h + 2" "suffix crlf hdr" using h(1) by (simp_all add: crlf_def suffix_def)
    have neg: "(if cn_persistFlag v then cn_readMore v - int (unat (of_nat (length h) - (cn_pos v + 2) + 2))
        else cn_readMore v) \<le> 0"
      using rm by (rule counted_down)
    have scan: "sockScan v = (if 0 < r then Inr (?v, None) else if r < 0 then Inr (?v, Some True)
         else Inr (?v\<lparr>cn_data := [], cn_sent := cn_sent v @ [o1], cn_pos := 0\<rparr>, None))"
      using sockScan_line [OF find full(1) sfx assms(4) neg cmd] by (simp add: Let_def)
    show ?thesis
    proof (cases "body = []")
      case True
      have "awaits_line fs (rest @ R) (?v\<lparr>cn_data := [], cn_sent := cn_sent v @ [o1], cn_pos := 0\<rparr>)"
        by (rule awaits_line_fresh) (use assms(3) r0 [OF True] full(2) True in simp_all)
      then show ?thesis using scan r0 [OF True] assms(2) by (auto simp: fed_def)
    next
      case False
      have "awaits_body f fs (rest @ R) ?v"
        using full r1 [OF False] f h(1) False by (simp add: awaits_body_def crlf_def)
      then show ?thesis using scan r1 [OF False] assms(2) f False by (auto simp: fed_def)
    qed
  qed
qed

lemma body_round:
  assumes "awaits_body f fs (new @ R) c" and "fed c new v" and "\<forall>g \<in> set (f # fs). frame_ok g"
    and "length (cn_data v) < 2 ^ 32 - 1" and "cmdProcessCommand (fst f @ snd f) (cn_db c) = Inr (0, out, w')"
  shows "(sockScan v = Inr (v, None) \<and> awaits_body f fs R v) \<or>
     (\<exists>v'. sockScan v = Inr (v', None) \<and> awaits_line fs (cn_persistentData v' @ R) v' \<and>
        cn_sent v' = cn_sent c @ [out] \<and> cn_db v' = w')"
proof -
  obtain hdr body where f: "f = (hdr, body)" by (cases f)
  obtain part where part: "cn_data c = hdr @ part" "part @ new @ R = body @ flat fs" "length part < length body"
      "cn_pos c + 2 = of_nat (length hdr)"
    and more1: "cn_readMore c \<le> int (length body) - int (length part) \<or>
      (cn_persistFlag c \<or> cn_persistentData c \<noteq> []) \<and> cn_readMore c \<le> int (length body)"
    using assms(1) f by (auto simp: awaits_body_def)
  obtain d where d: "body = d @ crlf" "CHR 0x0D \<notin> set d" using assms(3) part(3) f by (auto simp: frame_ok_def)
  have pos: "cn_pos v + 2 = of_nat (length hdr)" and data: "cn_data v = hdr @ part @ new"
    and rm: "cn_readMore v \<le> int (length body) - int (length (part @ new)) \<or>
      cn_persistFlag v \<and> cn_readMore v \<le> int (length body)"
    using part more1 assms(2) by (auto simp: fed_def)
  have small: "length hdr < 2 ^ 32" using data assms(4) by simp
  from part(2) have "(part @ new) @ R = body @ flat fs" by simp
  then show ?thesis
  proof (cases rule: append_split)
    case (cut m)
    have "str_find (cn_data v) crlf (cn_pos v + 2) = npos"
      by (rule str_find_crlf_cut [of hdr d _ m]) (use cut d data assms(4) pos small in \<open>simp_all add: unat_of_nat32\<close>)
    moreover have "awaits_body f fs R v" using cut data pos rm f by (auto simp: awaits_body_def)
    ultimately show ?thesis using sockScan_cut by blast
  next
    case (full rest)
    let ?ln = "hdr @ body"
    have v: "cn_data v = ?ln @ rest" using data full by simp
    have find: "str_find (cn_data v) crlf (cn_pos v + 2) = of_nat (length hdr + length d)"
      by (rule str_find_crlf [of _ hdr d rest]) (use v d assms(4) pos in simp_all)
    have sfx: "length ?ln = length hdr + length d + 2" "suffix crlf ?ln" using d(1) by (simp_all add: crlf_def suffix_def)
    have "(of_nat (length hdr + length d) - (cn_pos v + 2) + 2 :: uint) = of_nat (length body)"
      unfolding pos d(1) by (simp add: crlf_def)
    moreover have "unat (of_nat (length body) :: uint) = length body" using v assms(4) by (intro unat_of_nat32) simp
    moreover have "int (length body) - int (length (part @ new)) \<le> 0" using full(1) by simp
    ultimately have neg: "(if cn_persistFlag v then
        cn_readMore v - int (unat (of_nat (length hdr + length d) - (cn_pos v + 2) + 2)) else cn_readMore v) \<le> 0"
      using rm by auto
    have cmd: "cmdProcessCommand ?ln (cn_db v) = Inr (0, out, w')" using assms(2,5) f by (simp add: fed_def)
    let ?v = "v\<lparr>cn_persistentData := rest, cn_persistFlag := False, cn_readMore := 0, cn_db := w', cn_data := [],
      cn_sent := cn_sent v @ [out], cn_pos := 0\<rparr>"
    have "sockScan v = Inr (?v, None)"
      using sockScan_line [OF find v sfx assms(4) neg cmd] by simp
    moreover have "awaits_line fs (rest @ R) ?v"
      by (rule awaits_line_fresh) (use assms(3) full(2) in simp_all)
    ultimately show ?thesis using assms(2) by (auto simp: fed_def)
  qed
qed

section \<open>The whole stream\<close>

lemma sockLoop_step:
  assumes "cn_persistentData c @ concat chunks \<noteq> []" and "\<forall>k \<in> set chunks. k \<noteq> []"
  shows "\<exists>new cs v. fed c new v \<and> new \<noteq> [] \<and> new @ concat cs = cn_persistentData c @ concat chunks \<and>
     set cs \<subseteq> set chunks \<and>
     (\<forall>v' r n. sockScan v = Inr (v', r) \<longrightarrow> sockLoop (Suc n) chunks e c =
        (case r of None \<Rightarrow> sockLoop n cs e v' | Some closing \<Rightarrow> Inr (v', closing)))"
proof (cases "cn_persistentData c = []")
  case True
  then obtain k cs where k: "chunks = k # cs" "k \<noteq> []" using assms by (cases chunks) auto
  show ?thesis
    by (intro exI [of _ k] exI [of _ cs]
        exI [of _ "c\<lparr>cn_data := cn_data c @ k, cn_readMore := cn_readMore c - int (length k)\<rparr>"])
      (use True k in \<open>auto simp: fed_def\<close>)
next
  case False
  show ?thesis
    by (intro exI [of _ "cn_persistentData c"] exI [of _ chunks]
        exI [of _ "c\<lparr>cn_persistFlag := True, cn_data := cn_data c @ cn_persistentData c, cn_persistentData := []\<rparr>"])
      (use False in \<open>auto simp: fed_def\<close>)
qed

text \<open>The replies a connection still owes for the bytes to come, and the storage they leave.\<close>

inductive owes :: "string \<Rightarrow> conn \<Rightarrow> string list \<Rightarrow> db \<Rightarrow> bool" where
  line: "\<forall>g \<in> set fs. frame_ok g \<Longrightarrow> awaits_line fs R c \<Longrightarrow> serve fs (cn_db c) = Some (outs, w) \<Longrightarrow>
     owes R c outs w"
| body: "\<forall>g \<in> set (f # fs). frame_ok g \<Longrightarrow> awaits_body f fs R c \<Longrightarrow>
     cmdProcessCommand (fst f @ snd f) (cn_db c) = Inr (0, out, w1) \<Longrightarrow> serve fs w1 = Some (outs, w) \<Longrightarrow>
     owes R c (out # outs) w"

text \<open>Between two requests the connection holds no bytes.\<close>

definition idle :: "conn \<Rightarrow> bool" where
  "idle c \<longleftrightarrow> cn_data c = [] \<and> cn_persistentData c = [] \<and> cn_pos c = 0 \<and> cn_readMore c \<le> 0"

lemma owes_nothing:
  assumes "owes [] c outs w"
  shows "outs = [] \<and> cn_db c = w \<and> cn_data c = [] \<and> cn_pos c = 0 \<and> cn_readMore c \<le> 0"
  using assms
proof (cases rule: owes.cases)
  case (line fs)
  then show ?thesis by (cases fs) (auto simp: awaits_line_def flat_def)
next
  case (body f fs out w1 outs)
  then show ?thesis by (auto simp: awaits_body_def)
qed

lemma owes_round:
  assumes "owes (new @ R) c outs w" and "fed c new v" and "length (cn_data v) < 2 ^ 32 - 1" and "new \<noteq> []"
  shows "\<exists>v' sent outs'. sockScan v = Inr (v', None) \<and> owes (cn_persistentData v' @ R) v' outs' w \<and>
     outs = sent @ outs' \<and> cn_sent v' = cn_sent c @ sent"
proof -
  have v: "cn_persistentData v = []" "cn_sent v = cn_sent c" "cn_db v = cn_db c" using assms(2) by (auto simp: fed_def)
  have same: ?thesis if "sockScan v = Inr (v, None)" "owes R v outs w"
    using that v by (intro exI [of _ v] exI [of _ "[]"] exI [of _ outs]) simp
  from assms(1) show ?thesis
  proof (cases rule: owes.cases)
    case (body f fs out w1 outs')
    from body_round [OF body(3) assms(2) body(2) assms(3) body(4)] show ?thesis
    proof (elim disjE exE conjE)
      assume "sockScan v = Inr (v, None)" "awaits_body f fs R v"
      then show ?thesis using same owes.body [OF body(2) _ _ body(5)] body(1,4) v by simp
    next
      fix v' assume r: "sockScan v = Inr (v', None)" "awaits_line fs (cn_persistentData v' @ R) v'"
        "cn_sent v' = cn_sent c @ [out]" "cn_db v' = w1"
      then have "owes (cn_persistentData v' @ R) v' outs' w" using body by (intro owes.line [of fs]) simp_all
      with r body(1) show ?thesis by (intro exI [of _ v'] exI [of _ "[out]"] exI [of _ outs']) simp
    qed
  next
    case (line fs)
    then obtain f fs' where fs: "fs = f # fs'" using assms(4) by (cases fs) (auto simp: awaits_line_def)
    obtain out w1 outs' where fr: "frame_reply f (cn_db c) = Some (out, w1)" "serve fs' w1 = Some (outs', w)"
      "outs = out # outs'" using line(3) fs by (auto split: option.splits)
    have ok: "\<forall>g \<in> set (f # fs'). frame_ok g" using line(1) fs by simp
    from line_round [OF line(2) [unfolded fs] assms(2) ok assms(3) fr(1)] show ?thesis
    proof (elim disjE exE conjE)
      assume "sockScan v = Inr (v, None)" "awaits_line (f # fs') R v"
      then show ?thesis using same owes.line [OF ok] line(3) fs v by simp
    next
      fix v' assume r: "sockScan v = Inr (v', None)" "awaits_line fs' (cn_persistentData v' @ R) v'"
        "cn_sent v' = cn_sent c @ [out]" "cn_db v' = w1"
      then have "owes (cn_persistentData v' @ R) v' outs' w" using fr ok by (intro owes.line [of fs']) simp_all
      with r fr(3) show ?thesis by (intro exI [of _ v'] exI [of _ "[out]"] exI [of _ outs']) simp
    next
      fix v' assume r: "sockScan v = Inr (v', None)" "awaits_body f fs' (cn_persistentData v' @ R) v'"
        "cn_sent v' = cn_sent c" "cmdProcessCommand (fst f @ snd f) (cn_db v') = Inr (0, out, w1)"
      from owes.body [OF ok r(2,4) fr(2)] r(1,3) fr(3) show ?thesis
        by (intro exI [of _ v'] exI [of _ "[]"] exI [of _ outs]) simp
    qed
  qed
qed

lemma sockLoop_owes:
  assumes "owes (cn_persistentData c @ concat chunks) c outs w" and "scanned c" and "\<forall>k \<in> set chunks. k \<noteq> []"
    and "length (cn_persistentData c) + length (concat chunks) < n"
    and "length (cn_data c) + length (cn_persistentData c) + length (concat chunks) < 2 ^ 32 - 3"
  shows "\<exists>c'. sockLoop n chunks e c = Inr (c', e \<noteq> WouldBlock) \<and> cn_sent c' = cn_sent c @ outs \<and> cn_db c' = w \<and> idle c'"
  using assms
proof (induction n arbitrary: c chunks outs)
  case (Suc n)
  show ?case
  proof (cases "cn_persistentData c @ concat chunks = []")
    case True
    moreover from True have "chunks = []" using Suc.prems(3) by (cases chunks) auto
    ultimately show ?thesis using owes_nothing Suc.prems(1) by (auto simp: idle_def)
  next
    case False
    from sockLoop_step [OF False Suc.prems(3), of e] obtain new cs v
      where fed: "fed c new v" "new \<noteq> []" "new @ concat cs = cn_persistentData c @ concat chunks" "set cs \<subseteq> set chunks"
        and loop: "\<forall>v' r m. sockScan v = Inr (v', r) \<longrightarrow> sockLoop (Suc m) chunks e c =
          (case r of None \<Rightarrow> sockLoop m cs e v' | Some closing \<Rightarrow> Inr (v', closing))"
      by (elim exE conjE)
    have sum: "length new + length (concat cs) = length (cn_persistentData c) + length (concat chunks)"
      using arg_cong [OF fed(3), of length] by simp
    have d: "cn_data v = cn_data c @ new" "cn_pos v = cn_pos c" "cn_persistentData v = []" using fed(1) by (auto simp: fed_def)
    have len: "length (cn_data c @ new) < 2 ^ 32 - 3" using Suc.prems(5) sum by simp
    from owes_round [OF Suc.prems(1) [folded fed(3)] fed(1) _ fed(2)] len d obtain v' sent outs'
      where r: "sockScan v = Inr (v', None)" "owes (cn_persistentData v' @ concat cs) v' outs' w"
        "outs = sent @ outs'" "cn_sent v' = cn_sent c @ sent" by auto
    have round: "scanned v' \<and> length (cn_persistentData v') < length new \<and>
        length (cn_data v') + length (cn_persistentData v') \<le> length (cn_data c @ new)"
      by (rule sockScan_round [of _ v]) (use Suc.prems(2) d fed(2) len r(1) in \<open>simp_all add: scanned_def\<close>)
    have "\<exists>c'. sockLoop n cs e v' = Inr (c', e \<noteq> WouldBlock) \<and> cn_sent c' = cn_sent v' @ outs' \<and> cn_db c' = w \<and> idle c'"
      by (rule Suc.IH [OF r(2)]) (use round Suc.prems(3-5) fed(4) sum in auto)
    then show ?thesis using loop r(1,3,4) by simp
  qed
qed simp

lemma idle_owes:
  assumes "idle c" and "concat chunks = flat fs" and "\<forall>f \<in> set fs. frame_ok f" and "serve fs (cn_db c) = Some (outs, w)"
  shows "owes (cn_persistentData c @ concat chunks) c outs w" and "scanned c"
proof -
  have "awaits_line fs (concat chunks) c"
    by (rule awaits_line_fresh) (use assms in \<open>simp_all add: idle_def\<close>)
  then show "owes (cn_persistentData c @ concat chunks) c outs w"
    using assms by (intro owes.line [of fs]) (simp_all add: idle_def)
  show "scanned c" using assms(1) by (simp add: scanned_def idle_def str_find_short)
qed

lemma sockLoop_idle:
  assumes "idle c" and "concat chunks = flat fs" and "\<forall>f \<in> set fs. frame_ok f" and "\<forall>k \<in> set chunks. k \<noteq> []"
    and "length (concat chunks) < 2 ^ 32 - 3" and "serve fs (cn_db c) = Some (outs, w)"
  shows "\<exists>c'. sockLoop (Suc (length (concat chunks))) chunks e c = Inr (c', e \<noteq> WouldBlock) \<and>
     cn_sent c' = cn_sent c @ outs \<and> cn_db c' = w \<and> idle c'"
  by (rule sockLoop_owes [OF idle_owes [OF assms(1-3,6)]]) (use assms(1,4,5) in \<open>simp_all add: idle_def\<close>)

lemma idle_start: "idle (start_conn w)"
  by (simp add: idle_def start_conn_def)

lemma sockHandleIncomingConn_flat:
  assumes "concat chunks = flat fs" and "\<forall>f \<in> set fs. frame_ok f" and "\<forall>k \<in> set chunks. k \<noteq> []"
    and "length (concat chunks) < 2 ^ 32 - 3" and "serve fs w = Some (outs, w')"
  shows "\<exists>c. sockHandleIncomingConn chunks e w = Inr (c, e \<noteq> WouldBlock) \<and> cn_sent c = outs \<and> cn_db c = w'"
  unfolding sockHandleIncomingConn_def
  using sockLoop_idle [OF idle_start assms(1-4), of w outs w' e] assms(5) by (auto simp: start_conn_def)

text \<open>
  C27. Framing does not depend on the pieces the stream arrives in: for a sequence of requests
  whose lines and data blocks contain no carriage return of their own, the connection sends, one
  by one, the replies of a server that reads one request after the other, and leaves the same
  storage, however the bytes are cut up.
\<close>

theorem sockHandleIncomingConn_frames:
  assumes "concat chunks = flat fs" and "\<forall>f \<in> set fs. frame_ok f" and "\<forall>k \<in> set chunks. k \<noteq> []"
    and "length (concat chunks) < 2 ^ 32 - 3" and "serve fs w = Some (outs, w')"
  shows "\<exists>c. sockHandleIncomingConn chunks e w = Inr (c, e \<noteq> WouldBlock) \<and> cn_sent c = outs \<and> cn_db c = w'"
  by (rule sockHandleIncomingConn_flat) (fact assms)+

end
