(* ===== verification/SockSession.thy ===== *)
theory SockSession
  imports SockFrames
begin

text \<open>
  Sessions of a client, from the bytes it sends to the replies it gets: a store and a retrieval
  in any pieces, and two requests after which the server loses track of where requests begin.
\<close>

section \<open>A store and a retrieval\<close>

lemma set_header_asks:
  assumes "well_formed ''set'' key flags exptime False data" and "of_nat exptime \<le> EXPIRY_THRESHOLD"
    and "\<not> gIsFlushAllSet w" and "data \<noteq> []" and "length data + 2 < 2 ^ 31"
  shows "cmdProcessCommand (storage_line ''set'' key flags exptime (length data) False @ crlf) w =
     Inr (int (length data + 2), [], w)"
proof -
  let ?in = "storage_line ''set'' key flags exptime (length data) False @ crlf"
  have wf: "token key" "token flags" "exptime < 2 ^ 32" and len: "length ?in < 2 ^ 32 - 1"
    using assms(1) by (simp_all add: well_formed_def request_def)
  have inp: "?in = storage_line ''set'' key flags exptime (length data) False @ crlf @ []" by simp
  have b: "stoul (decimal (length data)) = Inr (of_nat (length data))" using assms(5) by (intro stoul_decimal) simp
  have tok: "token ''set''" by (simp add: token_def)
  have "cmdProcessCommon ?in False False empty_store w = Inr (int (length data + 2), [],
      (line_store key flags exptime False w empty_store)\<lparr>st_bytes := of_nat (length data), st_data := []\<rparr>, w)"
    using cmdProcessCommon_line [OF inp tok wf len, of empty_store w] relative_expiry [OF assms(2)]
      commonData_missing [OF inp len b _ assms(5), of "line_store key flags exptime False w empty_store" w] assms(4)
    by simp
  then have "cmdProcessSet ?in w = Inr (int (length data + 2), [], w)"
    by (simp add: cmdProcessSet_def with_store_def)
  moreover have "?in = ''set'' @ '' '' @ (key @ '' '' @ flags @ '' '' @ decimal exptime @ '' '' @
      decimal (length data) @ crlf)" by (simp add: storage_line_def)
  ultimately show ?thesis
    using cmdProcessCommand_args [of ?in "''set''" _ w] tok len assms(3) by (simp add: cmdDispatch_def)
qed

text \<open>
  C28. The whole server, for one client: the bytes of a \<open>set\<close> request and a \<open>get\<close> request,
  cut into any pieces whatsoever, are answered by two sends, \<open>STORED\<close> and the value block with
  the client's own bytes.
\<close>

theorem session_set_get:
  assumes "concat chunks = request ''set'' key flags exptime False data @ ''get '' @ key @ crlf"
    and "\<forall>k \<in> set chunks. k \<noteq> []" and "length (concat chunks) < 2 ^ 31"
    and "token key" "token flags" and "data \<noteq> []" and "CHR 0x0D \<notin> set data"
    and "exptime \<le> 2592000" and "unat t + exptime < 2 ^ 32"
    and "steady_at t 2 w" and "\<not> gIsFlushAllSet w" and "room w key flags data" and "\<not> badAlloc w" and "not_flushed w key"
  shows "\<exists>c. sockHandleIncomingConn chunks e w = Inr (c, e \<noteq> WouldBlock) \<and>
     cn_sent c = [''STORED'' @ crlf,
       ''VALUE '' @ key @ '' '' @ flags @ '' '' @ decimal (length data) @ crlf @ data @ crlf @ ''END'' @ crlf]"
proof -
  let ?hdr = "storage_line ''set'' key flags exptime (length data) False @ crlf"
  let ?fs = "[(?hdr, data @ crlf), (''get '' @ key @ crlf, [])]"
  have req: "request ''set'' key flags exptime False data = ?hdr @ data @ crlf" by (simp add: request_def)
  have len: "length (?hdr @ data @ crlf) < 2 ^ 31" using assms(1,3) req by (simp add: crlf_def)
  have wf: "well_formed ''set'' key flags exptime False data"
    using assms(4,5,8) len unfolding well_formed_def req by (simp add: token_def)
  have e: "of_nat exptime \<le> EXPIRY_THRESHOLD"
    using assms(8) by (simp add: EXPIRY_THRESHOLD_def word_le_nat_alt unat_of_nat32)
  have "length data + 2 < 2 ^ 31" using len by (simp add: crlf_def)
  note asks = set_header_asks [OF wf e assms(11,6) this]
  from set_get_run [OF wf e assms(10,11,9,12-14)] obtain w1 w2
    where set: "cmdProcessCommand (?hdr @ data @ crlf) w = Inr (0, ''STORED'' @ crlf, w1)"
      and get: "cmdProcessCommand (''get '' @ key @ crlf) w1 = Inr (0, ''VALUE '' @ key @ '' '' @ flags @ '' '' @
        decimal (length data) @ crlf @ data @ crlf @ ''END'' @ crlf, w2)"
    unfolding req by blast
  have "serve ?fs w = Some ([''STORED'' @ crlf, ''VALUE '' @ key @ '' '' @ flags @ '' '' @
      decimal (length data) @ crlf @ data @ crlf @ ''END'' @ crlf], w2)"
    using asks set get by (simp add: frame_reply_def crlf_def)
  moreover have "\<forall>f \<in> set ?fs. frame_ok f"
  proof -
    have cr: "CHR 0x0D \<notin> set (storage_line ''set'' key flags exptime (length data) False)"
      using assms(4,5) token_decimal by (auto simp: storage_line_def token_def)
    then have "frame_ok (?hdr, data @ crlf)"
      using assms(7) by (auto simp: frame_ok_def storage_line_def)
    moreover have "frame_ok (''get '' @ key @ crlf, [])"
      using assms(4) unfolding frame_ok_def by (auto simp: token_def intro!: exI [of _ "''get '' @ key"])
    ultimately show ?thesis by simp
  qed
  moreover have "concat chunks = flat ?fs" using assms(1) req by simp
  moreover have "length (concat chunks) < 2 ^ 32 - 3" using assms(3) by simp
  ultimately show ?thesis using sockHandleIncomingConn_flat [of chunks ?fs w _ w2 e] assms(2) by auto
qed

theorem session_set_get_witness:
  "\<exists>c. sockHandleIncomingConn [''se'', ''t b 5 0 3'' @ [CHR 0x0D], CHR 0x0A # ''x y'' @ crlf @ ''g'', ''et b'' @ crlf]
       WouldBlock ex_one = Inr (c, False) \<and>
     cn_sent c = [''STORED'' @ crlf, ''VALUE b 5 3'' @ crlf @ ''x y'' @ crlf @ ''END'' @ crlf]"
proof -
  have d: "decimal 0 = ''0''" "decimal (Suc (Suc (Suc 0))) = ''3''" by code_simp+
  have "steady_at 100 2 ex_one" using ex_one_steady by (simp add: steady_at_def)
  then show ?thesis
    using session_set_get [of "[''se'', ''t b 5 0 3'' @ [CHR 0x0D], CHR 0x0A # ''x y'' @ crlf @ ''g'', ''et b'' @ crlf]"
        "''b''" "''5''" 0 "''x y''" 100 ex_one WouldBlock]
    by (simp add: d request_def storage_line_def crlf_def token_def room_def not_flushed_def)
qed

theorem sockHandleIncomingConn_frames_witness:
  "\<exists>c. sockHandleIncomingConn [''vers'', ''ion'' @ crlf @ ''version'', crlf] PeerClosed ex_one = Inr (c, True) \<and>
     cn_sent c = [''VERSION 1.0'' @ crlf, ''VERSION 1.0'' @ crlf]"
proof -
  let ?fs = "[(''version'' @ crlf, []), (''version'' @ crlf, [])] :: frame list"
  have "cmdProcessCommand (''version'' @ crlf) ex_one = Inr (0, ''VERSION 1.0'' @ crlf, ex_one)"
    using cmdProcessCommand_bare [OF refl, of "''version''" ex_one]
    by (simp add: token_def crlf_def cmdDispatch_def cmdProcessVersion_def str_size_def VERSION_STRING_def)
  then have "serve ?fs ex_one = Some ([''VERSION 1.0'' @ crlf, ''VERSION 1.0'' @ crlf], ex_one)"
    by (simp add: frame_reply_def)
  moreover have "\<forall>f \<in> set ?fs. frame_ok f"
    unfolding frame_ok_def by (auto intro!: exI [of _ "''version''"])
  ultimately show ?thesis
    using sockHandleIncomingConn_frames [of "[''vers'', ''ion'' @ crlf @ ''version'', crlf]" ?fs ex_one _ _ PeerClosed]
    by (auto simp: crlf_def)
qed

section \<open>An empty value\<close>

lemma set_empty_value:
  assumes "well_formed ''set'' key flags exptime False []" and "of_nat exptime \<le> EXPIRY_THRESHOLD"
    and "steady_at t 1 w" and "\<not> gIsFlushAllSet w" and "unat t + exptime < 2 ^ 32"
    and "room w key flags []" and "\<not> badAlloc w" and "not_flushed w key"
  obtains w' where "cmdProcessCommand (storage_line ''set'' key flags exptime 0 False @ crlf) w =
      Inr (0, ''STORED'' @ crlf, w')" and "\<not> gIsFlushAllSet w'"
proof -
  let ?in = "storage_line ''set'' key flags exptime 0 False @ crlf"
  have wf: "token key" "token flags" "exptime < 2 ^ 32" and len: "length ?in < 2 ^ 32 - 1"
    using assms(1) by (simp_all add: well_formed_def request_def)
  have inp: "?in = storage_line ''set'' key flags exptime 0 False @ crlf @ []" by simp
  have inp2: "?in = storage_line ''set'' key flags exptime 0 False @ crlf @ [] @ []" by simp
  have b: "stoul (decimal 0) = Inr (of_nat (length ([] :: string)))" by (simp add: stoul_decimal)
  have tok: "token ''set''" by (simp add: token_def)
  have t: "now w = t" and dbwf: "db_wf w" using assms(3) by (simp_all add: steady_at_def same_second_now)
  have "unat (now w) + unat (of_nat exptime :: ulong) < 2 ^ 32" using assms(5) t by (simp add: unat_of_nat32)
  from dbInsertElement_visible [OF dbwf assms(6-8) this, of "[]"] obtain w'
    where ins: "dbInsertElement key flags [] [] (of_nat exptime) w = Inr (SUCCESS, w')" by auto
  have "cmdProcessCommon ?in False False empty_store w = Inr (0, [],
      (line_store key flags exptime False w empty_store)\<lparr>st_bytes := 0, st_data := []\<rparr>, w)"
    using cmdProcessCommon_line [OF inp tok wf len, of empty_store w] relative_expiry [OF assms(2)]
      commonData_enough [OF inp2 len b, of "line_store key flags exptime False w empty_store" w]
    by (simp add: line_store_def empty_store_def)
  then have "cmdProcessSet ?in w = Inr (0, ''STORED'' @ crlf, w')"
    using ins relative_expiry [OF assms(2)]
    by (simp add: cmdProcessSet_def with_store_def line_store_def empty_store_def reply_def line_def)
  moreover have "?in = ''set'' @ '' '' @ (key @ '' '' @ flags @ '' '' @ decimal exptime @ '' '' @
      decimal 0 @ crlf)" by (simp add: storage_line_def)
  ultimately have "cmdProcessCommand ?in w = Inr (0, ''STORED'' @ crlf, w')"
    using cmdProcessCommand_args [of ?in "''set''" _ w] tok len assms(4) by (simp add: cmdDispatch_def)
  then show ?thesis using that dbInsertElement_frame [OF ins] assms(4) by blast
qed

text \<open>A line end at the start of what is left hides the command word.\<close>

lemma leading_line_end:
  assumes "\<not> gIsFlushAllSet w" and "length key + 8 < 2 ^ 32 - 1"
  shows "cmdProcessCommand (crlf @ ''get '' @ key @ crlf) w = Inr (0, ''ERROR'' @ crlf, w)"
proof -
  have "crlf @ ''get '' @ key @ crlf = (crlf @ ''get'') @ '' '' @ (key @ crlf)" by simp
  from cmdProcessCommand_word [OF this, of w] assms show ?thesis
    by (simp add: crlf_def cmdDispatch_def line_def)
qed

lemma sockLoop_recv:
  "cn_persistentData c = [] \<Longrightarrow> k \<noteq> [] \<Longrightarrow>
   sockScan (c\<lparr>cn_data := cn_data c @ k, cn_readMore := cn_readMore c - int (length k)\<rparr>) = Inr (v, None) \<Longrightarrow>
   sockLoop (Suc n) (k # ks) e c = sockLoop n ks e v"
  by simp

lemma sockLoop_kept:
  "cn_persistentData c \<noteq> [] \<Longrightarrow>
   sockScan (c\<lparr>cn_persistFlag := True, cn_data := cn_data c @ cn_persistentData c, cn_persistentData := []\<rparr>) =
     Inr (v, None) \<Longrightarrow> sockLoop (Suc n) ks e c = sockLoop n ks e v"
  by simp

text \<open>Two lines that arrive together, the second one with a line end in front.\<close>

lemma sockHandleIncomingConn_two:
  assumes "ln = h @ crlf" "CHR 0x0D \<notin> set h" "2 \<le> length h" and "CHR 0x0D \<notin> set d"
    and "length (ln @ crlf @ d @ crlf) < 2 ^ 32 - 3"
    and c1: "cmdProcessCommand ln w = Inr (0, o1, w1)"
    and c2: "cmdProcessCommand (crlf @ d @ crlf) w1 = Inr (0, o2, w2)"
  shows "\<exists>c. sockHandleIncomingConn [ln @ crlf @ d @ crlf] e w = Inr (c, e \<noteq> WouldBlock) \<and> cn_sent c = [o1, o2]"
proof -
  let ?rest = "crlf @ d @ crlf"
  let ?v = "(start_conn w)\<lparr>cn_data := ln @ ?rest, cn_readMore := - int (length (ln @ ?rest))\<rparr>"
  let ?c1 = "?v\<lparr>cn_persistentData := ?rest, cn_persistFlag := False, cn_readMore := 0, cn_db := w1,
      cn_data := [], cn_sent := [o1], cn_pos := 0\<rparr>"
  have sfx: "length ln = length h + 2" "suffix crlf ln" using assms(1) by (simp_all add: crlf_def suffix_def)
  have len: "length (cn_data ?v) < 2 ^ 32 - 1" using assms(5) by simp
  have f1: "str_find (cn_data ?v) crlf (cn_pos ?v + 2) = of_nat (length h)"
    using find_header [OF assms(1-3), of ?rest] len by (simp add: start_conn_def)
  have "(if cn_persistFlag ?v then cn_readMore ?v - int (unat (of_nat (length h) - (cn_pos ?v + 2) + 2))
      else cn_readMore ?v) \<le> 0" by (simp add: start_conn_def)
  from sockScan_line [OF f1 _ sfx len this, of ?rest] c1 have s1: "sockScan ?v = Inr (?c1, None)"
    by (simp add: start_conn_def)
  let ?v2 = "?c1\<lparr>cn_persistFlag := True, cn_data := ?rest, cn_persistentData := []\<rparr>"
  let ?c2 = "?v2\<lparr>cn_persistentData := [], cn_persistFlag := False, cn_readMore := 0, cn_db := w2,
      cn_data := [], cn_sent := [o1, o2], cn_pos := 0\<rparr>"
  have len2: "length (cn_data ?v2) < 2 ^ 32 - 1" using assms(5) by simp
  have f2: "str_find (cn_data ?v2) crlf (cn_pos ?v2 + 2) = of_nat (length crlf + length d)"
    by (rule str_find_crlf [of _ crlf d "[]"]) (use len2 assms(4) in \<open>simp_all add: crlf_def\<close>)
  have "suffix crlf ?rest" by (simp add: suffix_def)
  moreover have "(if cn_persistFlag ?v2 then
      cn_readMore ?v2 - int (unat (of_nat (length crlf + length d) - (cn_pos ?v2 + 2) + 2))
      else cn_readMore ?v2) \<le> 0" by (rule counted_down) simp
  ultimately have s2: "sockScan ?v2 = Inr (?c2, None)"
    using sockScan_line [OF f2 _ _ _ len2, of ?rest "[]"] c2 by (simp add: crlf_def)
  obtain m where m: "length (concat [ln @ ?rest]) = Suc (Suc m)" using sfx(1) by (cases "length h") auto
  have ne: "ln @ ?rest \<noteq> []" "?rest \<noteq> []" by (simp_all add: crlf_def)
  have "sockHandleIncomingConn [ln @ ?rest] e w = sockLoop (Suc (Suc (Suc m))) [ln @ ?rest] e (start_conn w)"
    unfolding sockHandleIncomingConn_def m ..
  also have "\<dots> = sockLoop (Suc (Suc m)) [] e ?c1"
    by (rule sockLoop_recv) (use s1 ne(1) in \<open>simp_all add: start_conn_def\<close>)
  also have "\<dots> = sockLoop (Suc m) [] e ?c2" by (rule sockLoop_kept) (use s2 ne(2) in simp_all)
  also have "\<dots> = Inr (?c2, e \<noteq> WouldBlock)" by simp
  finally show ?thesis by auto
qed



end
