(* ===== verification/ThreadPool.thy ===== *)
theory ThreadPool
  imports Prelude
begin

text \<open>
  The select loop \<open>socketMain\<close> and the pool of worker threads \<open>socketThread\<close> of
  \<open>ssock.cpp\<close>, as a step relation: one step of the main thread or of one worker at a time, in
  any order. The globals of the file and the program counters of the threads are one record.

  \<open>masterMutex\<close> and \<open>sockDescMutex\<close> protect short critical sections, each of which is one step
  here; \<open>threadNotifyMutex\<close> is held across several steps of a worker and is modelled by its
  holder. What the operating system decides (which descriptors are ready, which number a new
  connection gets, whether a call fails, whether the handler closes its connection) is left open
  in the steps. Serving a connection is one step; \<open>Sock\<close> describes it.
\<close>

type_synonym fd = nat

section \<open>State\<close>

text \<open>
  Where a worker stands: it wants \<open>threadNotifyMutex\<close>; it holds it and is about to test the
  predicate; the test failed and it is about to sleep; it sleeps; the test succeeded; it has a
  descriptor and let go of the mutex; it serves the descriptor; it is done. \<open>Stuck\<close> is the
  \<open>continue\<close> of the source that keeps \<open>sockDescMutex\<close> locked.
\<close>

datatype worker = Wanting | Checking | Falling | Sleeping | Ready | Stuck | Got fd | Handling fd | Finishing

text \<open>
  Where the main thread stands: before \<open>select\<close>; in the loop over the descriptors, with the
  index, the ready ones and how many of them are still to be found; in the loop that accepts;
  between queueing a descriptor and clearing it; before \<open>notify_one\<close>; behind the loop.
\<close>

datatype main = Selecting | Scanning fd "fd set" nat | Accepting fd "fd set" nat | Clearing fd "fd set" nat
  | Notifying fd "fd set" nat | Leaving | Left

record pool =
  master_set :: "fd set"
  max_sd :: fd
  listen_sd :: fd
  sockDescServiceList :: "fd list"
  numberActiveThreads :: nat
  gServWorkerThreads :: nat
  end_server :: bool
  opened :: "fd set"
  workers :: "nat \<Rightarrow> worker"
  main_at :: main

definition SERV_DEF_WORKER_THREADS :: nat where
  "SERV_DEF_WORKER_THREADS = 100"

definition SERV_DEF_LIST_PORT :: nat where
  "SERV_DEF_LIST_PORT = 11211"

text \<open>
  The part of \<open>socketMain\<close> in front of its loop: the results of \<open>socket\<close>, \<open>setsockopt\<close>,
  \<open>ioctl\<close>, \<open>bind\<close> and \<open>listen\<close> are given; a negative one ends the process. The port is the
  compiled-in one.
\<close>

definition socketStart :: "int \<Rightarrow> int \<Rightarrow> int \<Rightarrow> (nat \<Rightarrow> int) \<Rightarrow> int \<Rightarrow> nat \<Rightarrow> (int + pool)" where
  "socketStart sd rcOpt rcIoctl rcBind rcListen threads =
     (if sd < 0 then Inl (- 1)
      else if rcOpt < 0 then Inl (- 1)
      else if rcIoctl < 0 then Inl (- 1)
      else if rcBind SERV_DEF_LIST_PORT < 0 then Inl (- 1)
      else if rcListen < 0 then Inl (- 1)
      else Inr \<lparr>master_set = {nat sd}, max_sd = nat sd, listen_sd = nat sd, sockDescServiceList = [],
                numberActiveThreads = 0, gServWorkerThreads = threads, end_server = False,
                opened = {nat sd}, workers = (\<lambda>_. Wanting), main_at = Selecting\<rparr>)"

section \<open>Operations\<close>

text \<open>The loop that looks for the new maximum; it would run below zero in an empty set.\<close>

fun shrink_max :: "fd set \<Rightarrow> fd \<Rightarrow> fd option" where
  "shrink_max s 0 = (if 0 \<in> s then Some 0 else None)"
| "shrink_max s (Suc n) = (if Suc n \<in> s then Some (Suc n) else shrink_max s n)"

definition fd_clear :: "fd \<Rightarrow> pool \<Rightarrow> pool option" where
  "fd_clear i p =
     (let p = p\<lparr>master_set := master_set p - {i}\<rparr>
      in if i = max_sd p then map_option (\<lambda>m. p\<lparr>max_sd := m\<rparr>) (shrink_max (master_set p) (max_sd p))
         else Some p)"

text \<open>A connection \<open>accept\<close> returned: turned away when all workers are busy, else watched.\<close>

definition accept_conn :: "fd \<Rightarrow> pool \<Rightarrow> pool" where
  "accept_conn new p =
     (if gServWorkerThreads p \<le> numberActiveThreads p then p
      else p\<lparr>master_set := insert new (master_set p), max_sd := max new (max_sd p), opened := insert new (opened p)\<rparr>)"

definition enqueue :: "fd \<Rightarrow> pool \<Rightarrow> pool" where
  "enqueue i p = p\<lparr>sockDescServiceList := sockDescServiceList p @ [i]\<rparr>"

definition set_worker :: "nat \<Rightarrow> worker \<Rightarrow> pool \<Rightarrow> pool" where
  "set_worker k s p = p\<lparr>workers := (workers p)(k := s)\<rparr>"

definition set_main :: "main \<Rightarrow> pool \<Rightarrow> pool" where
  "set_main m p = p\<lparr>main_at := m\<rparr>"

text \<open>Who holds \<open>threadNotifyMutex\<close>.\<close>

definition holds :: "worker \<Rightarrow> bool" where
  "holds s \<longleftrightarrow> s \<in> {Checking, Falling, Ready, Stuck}"

definition lock_free :: "pool \<Rightarrow> bool" where
  "lock_free p \<longleftrightarrow> (\<forall>k < gServWorkerThreads p. \<not> holds (workers p k))"

text \<open>What a worker does once the mutex is its own and the predicate held.\<close>

definition take_desc :: "nat \<Rightarrow> pool \<Rightarrow> pool" where
  "take_desc k p =
     (case sockDescServiceList p of
        [] \<Rightarrow> set_worker k Stuck p
      | sockFd # rest \<Rightarrow> set_worker k (Got sockFd) (p\<lparr>sockDescServiceList := rest\<rparr>))"

definition finish_conn :: "nat \<Rightarrow> fd \<Rightarrow> bool \<Rightarrow> pool \<Rightarrow> pool" where
  "finish_conn k sockFd closing p =
     set_worker k Finishing (p\<lparr>opened := (if closing then opened p - {sockFd} else opened p)\<rparr>)"

section \<open>Steps\<close>

inductive worker_step :: "nat \<Rightarrow> pool \<Rightarrow> pool \<Rightarrow> bool" for k where
  lock: "workers p k = Wanting \<Longrightarrow> lock_free p \<Longrightarrow> worker_step k p (set_worker k Checking p)"
| test_true: "workers p k = Checking \<Longrightarrow> sockDescServiceList p \<noteq> [] \<Longrightarrow> worker_step k p (set_worker k Ready p)"
| test_false: "workers p k = Checking \<Longrightarrow> sockDescServiceList p = [] \<Longrightarrow> worker_step k p (set_worker k Falling p)"
| sleep: "workers p k = Falling \<Longrightarrow> worker_step k p (set_worker k Sleeping p)"
| spurious: "workers p k = Sleeping \<Longrightarrow> worker_step k p (set_worker k Wanting p)"
| take: "workers p k = Ready \<Longrightarrow> worker_step k p (take_desc k p)"
| begin_conn: "workers p k = Got sockFd \<Longrightarrow>
     worker_step k p (set_worker k (Handling sockFd) (p\<lparr>numberActiveThreads := numberActiveThreads p + 1\<rparr>))"
| end_conn: "workers p k = Handling sockFd \<Longrightarrow> worker_step k p (finish_conn k sockFd closing p)"
| again: "workers p k = Finishing \<Longrightarrow>
     worker_step k p (set_worker k Wanting (p\<lparr>numberActiveThreads := numberActiveThreads p - 1\<rparr>))"

inductive main_step :: "pool \<Rightarrow> pool \<Rightarrow> bool" where
  select: "main_at p = Selecting \<Longrightarrow> ready \<subseteq> master_set p \<Longrightarrow> main_step p (set_main (Scanning 0 ready (card ready)) p)"
| select_fails: "main_at p = Selecting \<Longrightarrow> main_step p (set_main Leaving p)"
| not_ready: "main_at p = Scanning i W n \<Longrightarrow> i \<le> max_sd p \<Longrightarrow> 0 < n \<Longrightarrow> i \<notin> W \<Longrightarrow>
     main_step p (set_main (Scanning (Suc i) W n) p)"
| listening: "main_at p = Scanning i W n \<Longrightarrow> i \<le> max_sd p \<Longrightarrow> 0 < n \<Longrightarrow> i \<in> W \<Longrightarrow> i = listen_sd p \<Longrightarrow>
     main_step p (set_main (Accepting i W (n - 1)) p)"
| readable: "main_at p = Scanning i W n \<Longrightarrow> i \<le> max_sd p \<Longrightarrow> 0 < n \<Longrightarrow> i \<in> W \<Longrightarrow> i \<noteq> listen_sd p \<Longrightarrow>
     main_step p (set_main (Clearing i W (n - 1)) (enqueue i p))"
| cleared: "main_at p = Clearing i W n \<Longrightarrow> fd_clear i p = Some p' \<Longrightarrow> main_step p (set_main (Notifying i W n) p')"
| notify: "main_at p = Notifying i W n \<Longrightarrow> k < gServWorkerThreads p \<Longrightarrow> workers p k = Sleeping \<Longrightarrow>
     main_step p (set_main (Scanning (Suc i) W n) (set_worker k Wanting p))"
| notify_none: "main_at p = Notifying i W n \<Longrightarrow> (\<forall>k < gServWorkerThreads p. workers p k \<noteq> Sleeping) \<Longrightarrow>
     main_step p (set_main (Scanning (Suc i) W n) p)"
| accept: "main_at p = Accepting i W n \<Longrightarrow> new \<notin> opened p \<Longrightarrow> main_step p (accept_conn new p)"
| accept_all: "main_at p = Accepting i W n \<Longrightarrow> main_step p (set_main (Scanning (Suc i) W n) p)"
| accept_fails: "main_at p = Accepting i W n \<Longrightarrow>
     main_step p (set_main (Scanning (Suc i) W n) (p\<lparr>end_server := True\<rparr>))"
| scanned: "main_at p = Scanning i W n \<Longrightarrow> max_sd p < i \<or> n = 0 \<Longrightarrow>
     main_step p (set_main (if end_server p then Leaving else Selecting) p)"
| clean_up: "main_at p = Leaving \<Longrightarrow>
     main_step p (set_main Left (p\<lparr>opened := opened p - (master_set p \<inter> {0..max_sd p})\<rparr>))"

inductive pool_step :: "pool \<Rightarrow> pool \<Rightarrow> bool" where
  main: "main_step p p' \<Longrightarrow> pool_step p p'"
| worker: "k < gServWorkerThreads p \<Longrightarrow> worker_step k p p' \<Longrightarrow> pool_step p p'"

inductive pool_reachable :: "nat \<Rightarrow> pool \<Rightarrow> bool" for threads where
  start: "socketStart sd r1 r2 r3 r4 threads = Inr p \<Longrightarrow> pool_reachable threads p"
| step: "pool_reachable threads p \<Longrightarrow> pool_step p p' \<Longrightarrow> pool_reachable threads p'"

end
