(* ===== verification/ThreadPoolInv.thy ===== *)
theory ThreadPoolInv
  imports ThreadPool
begin

text \<open>
  Invariants of the select loop and its workers, each shown to hold at the start and to be kept
  by every step of every thread.
\<close>

lemmas pool_defs = set_main_def set_worker_def enqueue_def accept_conn_def take_desc_def finish_conn_def

inductive_cases pool_stepE: "pool_step p p'"
inductive_cases main_stepE: "main_step p p'"
inductive_cases worker_stepE: "worker_step k p p'"

section \<open>A locale for invariants\<close>

text \<open>What it takes for a property of states to hold in every state the server reaches.\<close>

locale pool_invariant =
  fixes I :: "pool \<Rightarrow> bool"
  assumes at_start: "socketStart sd r1 r2 r3 r4 threads = Inr p \<Longrightarrow> I p"
    and by_main: "I p \<Longrightarrow> main_step p p' \<Longrightarrow> I p'"
    and by_worker: "I p \<Longrightarrow> k < gServWorkerThreads p \<Longrightarrow> worker_step k p p' \<Longrightarrow> I p'"
begin

lemma holds_always: "pool_reachable threads p \<Longrightarrow> I p"
  by (induction rule: pool_reachable.induct) (auto intro: at_start by_main by_worker elim: pool_stepE)

end

section \<open>The descriptor sets\<close>

text \<open>The descriptors the main thread has still to look at.\<close>

fun to_scan :: "main \<Rightarrow> fd set" where
  "to_scan (Scanning i W n) = {j \<in> W. i \<le> j}"
| "to_scan (Accepting i W n) = {j \<in> W. i < j}"
| "to_scan (Clearing i W n) = {j \<in> W. i \<le> j}"
| "to_scan (Notifying i W n) = {j \<in> W. i < j}"
| "to_scan m = {}"

fun clearing :: "main \<Rightarrow> fd set" where
  "clearing (Clearing i W n) = {i}"
| "clearing m = {}"

definition sets_ok :: "pool \<Rightarrow> bool" where
  "sets_ok p \<longleftrightarrow>
     listen_sd p \<in> master_set p \<and> max_sd p \<in> master_set p \<and> (\<forall>i \<in> master_set p. i \<le> max_sd p) \<and>
     to_scan (main_at p) \<subseteq> master_set p \<and> clearing (main_at p) \<subseteq> master_set p - {listen_sd p}"

lemma shrink_max_finds:
  "j \<in> s \<Longrightarrow> j \<le> n \<Longrightarrow> \<exists>m. shrink_max s n = Some m \<and> m \<in> s \<and> m \<le> n \<and> (\<forall>i \<in> s. i \<le> n \<longrightarrow> i \<le> m)"
proof (induction n)
  case (Suc n)
  show ?case
  proof (cases "Suc n \<in> s")
    case False
    with Suc.prems have "j \<le> n" by (metis le_SucE)
    with Suc False show ?thesis by (auto simp: le_Suc_eq)
  qed simp
qed simp

lemma fd_clear_ok:
  assumes "sets_ok p" and "main_at p = Clearing i W n"
  shows "\<exists>m. fd_clear i p = Some (p\<lparr>master_set := master_set p - {i}, max_sd := m\<rparr>) \<and>
     m \<in> master_set p - {i} \<and> (\<forall>j \<in> master_set p - {i}. j \<le> m)"
proof (cases "i = max_sd p")
  case True
  have "listen_sd p \<in> master_set p - {i}" "listen_sd p \<le> max_sd p" using assms by (auto simp: sets_ok_def)
  from shrink_max_finds [OF this] True show ?thesis using assms(1) by (auto simp: fd_clear_def sets_ok_def)
next
  case False
  then show ?thesis using assms(1)
    by (intro exI [of _ "max_sd p"]) (auto simp: fd_clear_def sets_ok_def)
qed

interpretation sets: pool_invariant sets_ok
proof
  fix sd r1 r2 r3 r4 threads p assume "socketStart sd r1 r2 r3 r4 threads = Inr p"
  then show "sets_ok p" by (auto simp: socketStart_def sets_ok_def split: if_splits)
next
  fix p p' assume ok: "sets_ok p" and "main_step p p'"
  from this(2) show "sets_ok p'"
  proof (cases rule: main_step.cases)
    case (cleared i W n q)
    from fd_clear_ok [OF ok cleared(2)] cleared ok show ?thesis
      by (auto simp: sets_ok_def pool_defs)
  qed (use ok in \<open>auto simp: sets_ok_def pool_defs Suc_le_eq le_eq_less_or_eq split: if_splits\<close>)
next
  fix p k p' assume "sets_ok p" and "worker_step k p p'"
  then show "sets_ok p'" by (auto elim!: worker_stepE simp: sets_ok_def pool_defs split: list.splits)
qed

section \<open>The lock of the workers\<close>

definition lock_ok :: "pool \<Rightarrow> bool" where
  "lock_ok p \<longleftrightarrow>
     (\<forall>k < gServWorkerThreads p. \<forall>k' < gServWorkerThreads p.
        holds (workers p k) \<longrightarrow> holds (workers p k') \<longrightarrow> k = k') \<and>
     (\<forall>k < gServWorkerThreads p. workers p k \<noteq> Stuck \<and> (workers p k = Ready \<longrightarrow> sockDescServiceList p \<noteq> []))"

lemma holds_simps [simp]:
  "holds Checking" "holds Falling" "holds Ready" "holds Stuck" "\<not> holds Wanting" "\<not> holds Sleeping"
  "\<not> holds (Got i)" "\<not> holds (Handling i)" "\<not> holds Finishing"
  by (simp_all add: holds_def)

interpretation locks: pool_invariant lock_ok
proof
  fix sd r1 r2 r3 r4 threads p assume "socketStart sd r1 r2 r3 r4 threads = Inr p"
  then show "lock_ok p" by (auto simp: socketStart_def lock_ok_def split: if_splits)
next
  fix p p' assume ok: "lock_ok p" and "main_step p p'"
  from this(2) show "lock_ok p'"
    by (cases rule: main_step.cases)
      (use ok in \<open>auto simp: lock_ok_def pool_defs fd_clear_def Let_def split: if_splits\<close>)
next
  fix p k p' assume ok: "lock_ok p" and k: "k < gServWorkerThreads p" and "worker_step k p p'"
  from this(3) show "lock_ok p'"
  proof (cases rule: worker_step.cases)
    case take
    with ok k show ?thesis by (auto simp: lock_ok_def pool_defs split: list.splits)
  qed (use ok k in \<open>auto simp: lock_ok_def pool_defs lock_free_def\<close>)
qed

section \<open>The queue\<close>

fun held :: "worker \<Rightarrow> fd set" where
  "held (Got i) = {i}"
| "held (Handling i) = {i}"
| "held s = {}"

text \<open>The descriptors in the hands of a worker.\<close>

definition in_service :: "pool \<Rightarrow> fd set" where
  "in_service p = (\<Union>k < gServWorkerThreads p. held (workers p k))"

definition queue_ok :: "pool \<Rightarrow> bool" where
  "queue_ok p \<longleftrightarrow> sets_ok p \<and>
     distinct (sockDescServiceList p) \<and>
     (\<forall>k i. k < gServWorkerThreads p \<longrightarrow> i \<in> held (workers p k) \<longrightarrow>
        i \<notin> set (sockDescServiceList p) \<and> i \<in> opened p \<and> (i \<in> master_set p \<longrightarrow> i \<in> clearing (main_at p)) \<and>
        (\<forall>k' < gServWorkerThreads p. i \<in> held (workers p k') \<longrightarrow> k = k')) \<and>
     (\<forall>i \<in> set (sockDescServiceList p). i \<in> opened p \<and> (i \<in> master_set p \<longrightarrow> i \<in> clearing (main_at p))) \<and>
     (main_at p \<noteq> Left \<longrightarrow> (\<forall>i \<in> master_set p. i \<in> opened p \<or> i \<in> clearing (main_at p)))"

interpretation queue: pool_invariant queue_ok
proof
  fix sd r1 r2 r3 r4 threads p assume "socketStart sd r1 r2 r3 r4 threads = Inr p"
  then show "queue_ok p" using sets.at_start by (auto simp: socketStart_def queue_ok_def split: if_splits)
next
  fix p p' assume ok: "queue_ok p" and st: "main_step p p'"
  have s': "sets_ok p'" and s: "sets_ok p" using ok st sets.by_main by (auto simp: queue_ok_def)
  from st show "queue_ok p'"
  proof (cases rule: main_step.cases)
    case (cleared i W n q)
    from fd_clear_ok [OF s cleared(2)] cleared ok s' show ?thesis
      by (auto simp: queue_ok_def pool_defs)
  next
    case (accept i W n new)
    with ok s' show ?thesis by (auto simp: queue_ok_def pool_defs)
  next
    case (clean_up)
    with ok s' show ?thesis by (auto simp: queue_ok_def pool_defs)
  next
    case (readable i W n)
    have "i \<in> master_set p" using readable s by (auto simp: sets_ok_def)
    with readable ok s' show ?thesis by (auto simp: queue_ok_def pool_defs)
  qed (use ok s' in \<open>auto simp: queue_ok_def pool_defs\<close>)
next
  fix p k p' assume ok: "queue_ok p" and k: "k < gServWorkerThreads p" and st: "worker_step k p p'"
  have s': "sets_ok p'" using ok k st sets.by_worker by (auto simp: queue_ok_def)
  from st show "queue_ok p'"
  proof (cases rule: worker_step.cases)
    case take
    with ok k s' show ?thesis by (auto simp: queue_ok_def pool_defs split: list.splits)
  qed (use ok k s' in \<open>auto simp: queue_ok_def pool_defs\<close>)
qed

section \<open>Counting the busy workers\<close>

definition busy :: "worker \<Rightarrow> bool" where
  "busy s \<longleftrightarrow> s = Finishing \<or> (\<exists>i. s = Handling i)"

definition count_ok :: "pool \<Rightarrow> bool" where
  "count_ok p \<longleftrightarrow> numberActiveThreads p = card {k. k < gServWorkerThreads p \<and> busy (workers p k)}"

lemma busy_simps [simp]:
  "busy Finishing" "busy (Handling i)" "\<not> busy Wanting" "\<not> busy Checking" "\<not> busy Falling" "\<not> busy Sleeping"
  "\<not> busy Ready" "\<not> busy Stuck" "\<not> busy (Got i)"
  by (simp_all add: busy_def)

lemma count_same:
  "busy s = busy (f k) \<Longrightarrow> {j. j < (n :: nat) \<and> busy ((f(k := s)) j)} = {j. j < n \<and> busy (f j)}"
  by auto

lemma count_insert:
  "k < n \<Longrightarrow> \<not> busy (f k) \<Longrightarrow> busy s \<Longrightarrow>
   card {j. j < (n :: nat) \<and> busy ((f(k := s)) j)} = Suc (card {j. j < n \<and> busy (f j)})"
proof -
  assume a: "k < n" "\<not> busy (f k)" "busy s"
  then have "{j. j < n \<and> busy ((f(k := s)) j)} = insert k {j. j < n \<and> busy (f j)}" by auto
  then show ?thesis using a by simp
qed

lemma count_remove:
  "k < n \<Longrightarrow> busy (f k) \<Longrightarrow> \<not> busy s \<Longrightarrow>
   card {j. j < (n :: nat) \<and> busy ((f(k := s)) j)} = card {j. j < n \<and> busy (f j)} - 1"
proof -
  assume a: "k < n" "busy (f k)" "\<not> busy s"
  then have "{j. j < n \<and> busy ((f(k := s)) j)} = {j. j < n \<and> busy (f j)} - {k}" by auto
  then show ?thesis using a by simp
qed

lemma count_notified: "workers p k = Sleeping \<Longrightarrow> count_ok p \<Longrightarrow> count_ok (set_main m (set_worker k Wanting p))"
  by (simp add: count_ok_def pool_defs count_same del: fun_upd_apply)

interpretation counts: pool_invariant count_ok
proof
  fix sd r1 r2 r3 r4 threads p assume "socketStart sd r1 r2 r3 r4 threads = Inr p"
  then show "count_ok p" by (auto simp: socketStart_def count_ok_def split: if_splits)
next
  fix p p' assume ok: "count_ok p" and "main_step p p'"
  from this(2) show "count_ok p'"
  proof (cases rule: main_step.cases)
    case (notify i W n k)
    with ok show ?thesis using count_notified by simp
  qed (use ok in \<open>auto simp: count_ok_def pool_defs fd_clear_def Let_def split: if_splits\<close>)
next
  fix p k p' assume ok: "count_ok p" and k: "k < gServWorkerThreads p" and "worker_step k p p'"
  from this(3) show "count_ok p'"
    by (cases rule: worker_step.cases)
      (use ok k in \<open>auto simp: count_ok_def pool_defs count_same count_insert count_remove
        simp del: fun_upd_apply split: list.splits\<close>)
qed

section \<open>Waking the workers\<close>

text \<open>Between queueing a descriptor and the notification the main thread owes one.\<close>

fun owes_notify :: "main \<Rightarrow> bool" where
  "owes_notify (Clearing i W n) = True"
| "owes_notify (Notifying i W n) = True"
| "owes_notify m = False"

definition wake_ok :: "pool \<Rightarrow> bool" where
  "wake_ok p \<longleftrightarrow> lock_ok p \<and>
     (2 \<le> gServWorkerThreads p \<longrightarrow> sockDescServiceList p \<noteq> [] \<longrightarrow> \<not> owes_notify (main_at p) \<longrightarrow>
        (\<exists>k < gServWorkerThreads p. workers p k \<noteq> Sleeping \<and> workers p k \<noteq> Falling))"

interpretation wakes: pool_invariant wake_ok
proof
  fix sd r1 r2 r3 r4 threads p assume "socketStart sd r1 r2 r3 r4 threads = Inr p"
  then show "wake_ok p" using locks.at_start by (auto simp: socketStart_def wake_ok_def split: if_splits)
next
  fix p p' assume ok: "wake_ok p" and st: "main_step p p'"
  have l: "lock_ok p" "lock_ok p'" using ok st locks.by_main by (auto simp: wake_ok_def)
  from st show "wake_ok p'"
  proof (cases rule: main_step.cases)
    case (notify i W n k)
    with l show ?thesis by (auto simp: wake_ok_def pool_defs)
  next
    case (notify_none i W n)
    have "\<exists>k < gServWorkerThreads p. workers p k \<noteq> Falling" if "2 \<le> gServWorkerThreads p"
    proof (rule ccontr)
      assume "\<not> ?thesis"
      then have "workers p 0 = Falling" "workers p 1 = Falling" using that by auto
      then show False using l(1) that unfolding lock_ok_def by (metis holds_simps(2) zero_neq_one
        Suc_1 less_eq_Suc_le less_imp_le_nat Suc_le_eq zero_less_Suc order_less_le_trans lessI)
    qed
    with notify_none l show ?thesis by (auto simp: wake_ok_def pool_defs)
  qed (use ok l in \<open>auto simp: wake_ok_def pool_defs fd_clear_def Let_def split: if_splits\<close>)
next
  fix p k p' assume ok: "wake_ok p" and k: "k < gServWorkerThreads p" and st: "worker_step k p p'"
  have l: "lock_ok p" "lock_ok p'" using ok k st locks.by_worker by (auto simp: wake_ok_def)
  from st show "wake_ok p'"
    by (cases rule: worker_step.cases)
      (use ok k l in \<open>auto simp: wake_ok_def pool_defs split: list.splits\<close>)
qed

section \<open>What the server can rely on\<close>

lemma threads_fixed: "pool_reachable threads p \<Longrightarrow> gServWorkerThreads p = threads"
proof (induction rule: pool_reachable.induct)
  case (step p p')
  then show ?case
    by (auto elim!: pool_stepE main_stepE worker_stepE simp: pool_defs fd_clear_def Let_def
        split: if_splits list.splits)
qed (auto simp: socketStart_def split: if_splits)


text \<open>
  The branch of \<open>socketThread\<close> that would go on waiting with \<open>sockDescMutex\<close> locked is never
  taken, only one worker at a time is between the lock and its release, and a worker that found
  the queue filled finds it filled when it takes from it.
\<close>

lemma pool_no_stuck_worker:
  assumes "pool_reachable threads p" and "k < threads"
  shows "workers p k \<noteq> Stuck \<and> (workers p k = Ready \<longrightarrow> sockDescServiceList p \<noteq> []) \<and>
     (\<forall>k' < threads. holds (workers p k) \<longrightarrow> holds (workers p k') \<longrightarrow> k = k')"
  using locks.holds_always [OF assms(1)] threads_fixed [OF assms(1)] assms(2) by (auto simp: lock_ok_def)

text \<open>
  The loop that lowers the recorded maximum always ends: when the main thread clears a
  descriptor, a watched one is left below it.
\<close>

lemma fd_clear_returns:
  assumes "pool_reachable threads p" and "main_at p = Clearing i W n"
  shows "\<exists>p'. fd_clear i p = Some p' \<and> i \<notin> master_set p' \<and> max_sd p' \<in> master_set p'"
  using fd_clear_ok [OF sets.holds_always [OF assms(1)] assms(2)] by auto

section \<open>Executions\<close>

definition all_asleep :: "pool \<Rightarrow> bool" where
  "all_asleep p \<longleftrightarrow> (\<forall>k < gServWorkerThreads p. workers p k = Sleeping)"

definition ex_pool :: "nat \<Rightarrow> fd set \<Rightarrow> fd \<Rightarrow> fd list \<Rightarrow> fd set \<Rightarrow> worker \<Rightarrow> main \<Rightarrow> pool" where
  "ex_pool N M m Q F s a =
     \<lparr>master_set = M, max_sd = m, listen_sd = 3, sockDescServiceList = Q, numberActiveThreads = 0,
      gServWorkerThreads = N, end_server = False, opened = F, workers = (\<lambda>_. Wanting)(0 := s), main_at = a\<rparr>"

lemma ex_pool_simps [simp]:
  "master_set (ex_pool N M m Q F s a) = M" "max_sd (ex_pool N M m Q F s a) = m" "listen_sd (ex_pool N M m Q F s a) = 3"
  "sockDescServiceList (ex_pool N M m Q F s a) = Q" "gServWorkerThreads (ex_pool N M m Q F s a) = N"
  "numberActiveThreads (ex_pool N M m Q F s a) = 0" "opened (ex_pool N M m Q F s a) = F"
  "workers (ex_pool N M m Q F s a) 0 = s" "main_at (ex_pool N M m Q F s a) = a" "end_server (ex_pool N M m Q F s a) = False"
  "set_main a' (ex_pool N M m Q F s a) = ex_pool N M m Q F s a'"
  "set_worker 0 s' (ex_pool N M m Q F s a) = ex_pool N M m Q F s' a"
  "enqueue i (ex_pool N M m Q F s a) = ex_pool N M m (Q @ [i]) F s a"
  "0 < N \<Longrightarrow> accept_conn i (ex_pool N M m Q F s a) = ex_pool N (insert i M) (max i m) Q (insert i F) s a"
  by (simp_all add: ex_pool_def pool_defs)

lemma reach_main: "pool_reachable n p \<Longrightarrow> main_step p p' \<Longrightarrow> p' = q \<Longrightarrow> pool_reachable n q"
  using pool_reachable.step pool_step.main by blast

lemma reach_worker: "pool_reachable n p \<Longrightarrow> worker_step 0 p p' \<Longrightarrow> p' = q \<Longrightarrow> 0 < gServWorkerThreads p \<Longrightarrow> pool_reachable n q"
  using pool_reachable.step pool_step.worker by blast

lemma ex_skip:
  assumes "pool_reachable N (ex_pool N M m Q F s (Scanning 0 W c))" and "0 < c" and "\<forall>j < i. j \<notin> W \<and> j \<le> m"
  shows "pool_reachable N (ex_pool N M m Q F s (Scanning i W c))"
  using assms(3)
proof (induction i)
  case (Suc i)
  then have "pool_reachable N (ex_pool N M m Q F s (Scanning i W c))" by simp
  then show ?case by (rule reach_main [OF _ main_step.not_ready]) (use Suc.prems assms(2) in simp_all)
qed (rule assms(1))

text \<open>A client connects and sends: the descriptor is ready while the worker is about to sleep.\<close>

lemma ex_connected:
  assumes "0 < N"
  shows "pool_reachable N (ex_pool N {3, 4} 4 [] {3, 4} Falling (Scanning 4 {4} 1))"
proof -
  have "pool_reachable N (ex_pool N {3} 3 [] {3} Wanting Selecting)"
    by (rule pool_reachable.start [of 3 0 0 "\<lambda>_. 0" 0]) (simp add: socketStart_def ex_pool_def fun_eq_iff)
  then have "pool_reachable N (ex_pool N {3} 3 [] {3} Wanting (Scanning 0 {3} 1))"
    by (rule reach_main [OF _ main_step.select [of _ "{3}"]]) simp_all
  then have "pool_reachable N (ex_pool N {3} 3 [] {3} Wanting (Scanning 3 {3} 1))" by (rule ex_skip) simp_all
  then have "pool_reachable N (ex_pool N {3} 3 [] {3} Wanting (Accepting 3 {3} 0))"
    by (rule reach_main [OF _ main_step.listening [of _ 3 "{3}" 1]]) simp_all
  then have "pool_reachable N (ex_pool N {3, 4} 4 [] {3, 4} Wanting (Accepting 3 {3} 0))"
    by (rule reach_main [OF _ main_step.accept [of _ _ _ _ 4]]) (use assms in \<open>simp_all add: insert_commute\<close>)
  then have "pool_reachable N (ex_pool N {3, 4} 4 [] {3, 4} Wanting (Scanning 4 {3} 0))"
    by (rule reach_main [OF _ main_step.accept_all [of _ 3]]) simp_all
  then have "pool_reachable N (ex_pool N {3, 4} 4 [] {3, 4} Wanting Selecting)"
    by (rule reach_main [OF _ main_step.scanned [of _ 4 "{3}" 0]]) simp_all
  then have "pool_reachable N (ex_pool N {3, 4} 4 [] {3, 4} Wanting (Scanning 0 {4} 1))"
    by (rule reach_main [OF _ main_step.select [of _ "{4}"]]) simp_all
  then have "pool_reachable N (ex_pool N {3, 4} 4 [] {3, 4} Wanting (Scanning 4 {4} 1))" by (rule ex_skip) simp_all
  then have "pool_reachable N (ex_pool N {3, 4} 4 [] {3, 4} Checking (Scanning 4 {4} 1))"
    by (rule reach_worker [OF _ worker_step.lock]) (use assms in \<open>auto simp: lock_free_def ex_pool_def set_worker_def\<close>)
  then show ?thesis by (rule reach_worker [OF _ worker_step.test_false]) (use assms in simp_all)
qed

lemma ex_clearing:
  assumes "0 < N"
  shows "pool_reachable N (ex_pool N {3, 4} 4 [4] {3, 4} Falling (Clearing 4 {4} 0))"
  using ex_connected [OF assms] by (rule reach_main [OF _ main_step.readable [of _ 4 "{4}" 1]]) simp_all

lemma ex_asleep:
  assumes "0 < N"
  shows "pool_reachable N (ex_pool N {3} 3 [4] {3, 4} Sleeping Selecting)"
proof -
  have c: "fd_clear 4 (ex_pool N {3, 4} 4 [4] {3, 4} Falling (Clearing 4 {4} 0)) =
      Some (ex_pool N {3} 3 [4] {3, 4} Falling (Clearing 4 {4} 0))"
  proof -
    have "shrink_max {3} 4 = Some 3" by (simp add: eval_nat_numeral)
    moreover have "{3, 4} - {4 :: nat} = {3}" by auto
    ultimately show ?thesis by (simp add: fd_clear_def Let_def ex_pool_def)
  qed
  have "pool_reachable N (ex_pool N {3} 3 [4] {3, 4} Falling (Notifying 4 {4} 0))"
    using ex_clearing [OF assms] by (rule reach_main [OF _ main_step.cleared [OF _ c]]) simp_all
  then have "pool_reachable N (ex_pool N {3} 3 [4] {3, 4} Falling (Scanning 5 {4} 0))"
    by (rule reach_main [OF _ main_step.notify_none]) (auto simp: ex_pool_def set_main_def)
  then have "pool_reachable N (ex_pool N {3} 3 [4] {3, 4} Falling Selecting)"
    by (rule reach_main [OF _ main_step.scanned [of _ 5 "{4}" 0]]) simp_all
  then show ?thesis by (rule reach_worker [OF _ worker_step.sleep]) (use assms in simp_all)
qed


theorem pool_no_stuck_worker_witness: "workers (ex_pool 2 {3} 3 [4] {3, 4} Sleeping Selecting) 0 \<noteq> Stuck"
  using pool_no_stuck_worker [OF ex_asleep [of 2], of 0] by simp

theorem fd_clear_returns_witness:
  "\<exists>p'. fd_clear 4 (ex_pool 2 {3, 4} 4 [4] {3, 4} Falling (Clearing 4 {4} 0)) = Some p' \<and> max_sd p' \<in> master_set p'"
  using fd_clear_returns [OF ex_clearing [of 2], of 4 "{4}" 0] by auto

text \<open>
  C31. With at least two workers no wake-up is lost: whenever descriptors are queued and the main
  thread owes no notification, some worker is neither asleep nor about to fall asleep. With a
  single worker one can be: the notification may fall between its test of the queue and its sleep,
  and the connection waits although no thread is at work.
\<close>

theorem pool_wake_ups:
  "(2 \<le> threads \<longrightarrow> pool_reachable threads p \<longrightarrow> sockDescServiceList p \<noteq> [] \<longrightarrow> \<not> owes_notify (main_at p) \<longrightarrow>
      \<not> all_asleep p) \<and>
   (\<exists>q. pool_reachable 1 q \<and> sockDescServiceList q \<noteq> [] \<and> main_at q = Selecting \<and> all_asleep q)"
proof -
  have "\<not> all_asleep p" if "2 \<le> threads" "pool_reachable threads p" "sockDescServiceList p \<noteq> []" "\<not> owes_notify (main_at p)"
    using wakes.holds_always [OF that(2)] threads_fixed [OF that(2)] that by (auto simp: wake_ok_def all_asleep_def)
  moreover have "all_asleep (ex_pool 1 {3} 3 [4] {3, 4} Sleeping Selecting)" by (simp add: all_asleep_def)
  ultimately show ?thesis using ex_asleep [of 1] by (metis ex_pool_simps(4,9) list.distinct(1) zero_less_one)
qed

theorem pool_wake_ups_witness: "\<not> all_asleep (ex_pool 2 {3} 3 [4] {3, 4} Sleeping Selecting)"
  using pool_wake_ups [of 2 "ex_pool 2 {3} 3 [4] {3, 4} Sleeping Selecting"] ex_asleep [of 2] by simp

end
