(* ===== verification/SMain.thy ===== *)
theory SMain
  imports CppString DbLru ThreadPool
begin

text \<open>
  The start of the program, \<open>main\<close> of \<open>smain.cpp\<close>: it sets the global parameters to their
  defaults, reads the command line options and enters \<open>socketMain\<close>. The loop over the options
  need not end, so it is a partial function whose value is \<open>None\<close> when the program stays in the
  loop for ever. Its index is an \<open>unsigned short\<close>; \<open>argv\<close> ends with a null pointer.

  The lemmas show which parameters a list of options gives, which options are refused, and which
  ones make the loop run for ever.
\<close>

section \<open>Parameters\<close>

record params =
  servMemLimit :: uint
  servListPort :: uint
  servWorkerThreads :: uint

definition default_params :: params where
  "default_params = \<lparr>servMemLimit = SERV_DEF_MEM_LIMIT, servListPort = of_nat SERV_DEF_LIST_PORT,
     servWorkerThreads = of_nat SERV_DEF_WORKER_THREADS\<rparr>"

text \<open>How \<open>main\<close> goes on: it returns a status, or enters \<open>socketMain\<close>.\<close>

datatype main_end = EXIT_SUCCESS | EXIT_FAILURE | Serving params

section \<open>Reading an option\<close>

text \<open>The \<open>i\<close>-th byte of a C string of the command line; the terminating zero follows its last byte.\<close>

definition c_char :: "string \<Rightarrow> nat \<Rightarrow> char" where
  "c_char s i = (if i < length s then s ! i else CHR 0x00)"

text \<open>
  \<open>atoi\<close>: blanks, an optional sign, digits; no digits give zero. It is \<open>strtol\<close> on a 32-bit
  \<open>long\<close>, which stops at the ends of the range; the assignment to an \<open>unsigned int\<close> keeps the bits.
\<close>

definition atoi :: "string \<Rightarrow> uint" where
  "atoi s =
     (let t = dropWhile is_space s;
          neg = (case t of c # _ \<Rightarrow> c = CHR ''-'' | [] \<Rightarrow> False);
          u = (case t of c # r \<Rightarrow> if c = CHR ''-'' \<or> c = CHR ''+'' then r else t | [] \<Rightarrow> []);
          n = digits_val (takeWhile is_digit u)
      in if neg then - of_nat (min n (2 ^ 31)) else of_nat (min n (2 ^ 31 - 1)))"

definition argv_at :: "string list \<Rightarrow> 16 word \<Rightarrow> string option" where
  "argv_at argv i = (if unat i < length argv then Some (argv ! unat i) else None)"

section \<open>The loop over the options\<close>

partial_function (option) main_loop :: "string list \<Rightarrow> 16 word \<Rightarrow> params \<Rightarrow> main_end result option" where
  "main_loop argv optionIndex g =
     (case argv_at argv optionIndex of
        None \<Rightarrow> Some (Inr (Serving g))
      | Some opt \<Rightarrow>
          if c_char opt 0 \<noteq> CHR ''-'' then Some (Inr EXIT_FAILURE)
          else if c_char opt 1 = CHR ''t'' then
            (case argv_at argv (optionIndex + 1) of
               None \<Rightarrow> Some (Inr EXIT_FAILURE)
             | Some arg \<Rightarrow>
                 if c_char arg 0 = CHR ''-'' then Some (Inr EXIT_FAILURE)
                 else main_loop argv (optionIndex + 2) (g\<lparr>servWorkerThreads := atoi arg\<rparr>))
          else if c_char opt 1 = CHR ''p'' then
            (case argv_at argv (optionIndex + 1) of
               None \<Rightarrow> Some (Inl NullPointer)
             | Some arg \<Rightarrow>
                 if c_char arg 0 = CHR ''-'' then Some (Inr EXIT_FAILURE)
                 else main_loop argv (optionIndex + 2) (g\<lparr>servListPort := atoi arg\<rparr>))
          else if c_char opt 1 = CHR ''h'' then Some (Inr EXIT_SUCCESS)
          else main_loop argv optionIndex g)"

definition main_prog :: "string list \<Rightarrow> main_end result option" where
  "main_prog argv =
     (if length argv \<noteq> 1 then main_loop argv 1 default_params else Some (Inr (Serving default_params)))"

text \<open>
  The whole start: \<open>main\<close> and the part of \<open>socketMain\<close> in front of its loop, with the results of
  the system calls given; \<open>rcBind\<close> is the result of \<open>bind\<close> by port.
\<close>

definition server_start ::
  "int \<Rightarrow> int \<Rightarrow> int \<Rightarrow> (nat \<Rightarrow> int) \<Rightarrow> int \<Rightarrow> string list \<Rightarrow> (int + pool) option" where
  "server_start sd rcOpt rcIoctl rcBind rcListen argv =
     (case main_prog argv of
        Some (Inr (Serving g)) \<Rightarrow> Some (socketStart sd rcOpt rcIoctl rcBind rcListen (unat (servWorkerThreads g)))
      | _ \<Rightarrow> None)"

section \<open>Numbers on the command line\<close>

lemma atoi_decimal: "n < 2 ^ 31 \<Longrightarrow> atoi (decimal n) = of_nat n"
proof -
  assume n: "n < 2 ^ 31"
  obtain c r where d: "decimal n = c # r" using decimal_nonempty list.exhaust by blast
  have "\<forall>x \<in> set (decimal n). is_digit x" using decimal_digits by simp
  moreover from this have "\<not> is_space c" "c \<noteq> CHR ''-''" "c \<noteq> CHR ''+''"
    using d by (auto simp: is_space_def is_digit_def)
  ultimately show ?thesis using n d digits_val_decimal [of n]
    by (simp add: atoi_def Let_def takeWhile_eq_all_conv [THEN iffD2])
qed

lemma c_char_decimal: "c_char (decimal n) 0 \<noteq> CHR ''-''"
proof -
  have "is_digit (decimal n ! 0)" by (rule decimal_digits [OF nth_mem]) simp
  then show ?thesis by (auto simp: c_char_def is_digit_def)
qed

section \<open>Lists of options\<close>

text \<open>An option with its number, as it stands on the command line and as it acts on the parameters.\<close>

datatype opt = Threads nat | Port nat

fun opt_args :: "opt \<Rightarrow> string list" where
  "opt_args (Threads n) = [''-t'', decimal n]"
| "opt_args (Port n) = [''-p'', decimal n]"

fun opt_set :: "opt \<Rightarrow> params \<Rightarrow> params" where
  "opt_set (Threads n) g = g\<lparr>servWorkerThreads := of_nat n\<rparr>"
| "opt_set (Port n) g = g\<lparr>servListPort := of_nat n\<rparr>"

fun opt_num :: "opt \<Rightarrow> nat" where
  "opt_num (Threads n) = n"
| "opt_num (Port n) = n"

definition cmd_line :: "string \<Rightarrow> opt list \<Rightarrow> string list \<Rightarrow> string list" where
  "cmd_line prog opts rest = prog # concat (map opt_args opts) @ rest"

lemma length_opt_args [simp]: "length (opt_args x) = 2"
  by (cases x) simp_all

lemma length_concat_opt_args: "length (concat (map opt_args opts)) = 2 * length opts"
  by (induction opts) simp_all

lemma argv_at_of_nat: "i < 2 ^ 16 \<Longrightarrow> argv_at argv (of_nat i) = (if i < length argv then Some (argv ! i) else None)"
  by (simp add: argv_at_def unat_of_nat)

text \<open>One round of the loop consumes one option with its number.\<close>

lemma main_loop_opt:
  assumes "argv = pre @ opt_args x @ post" and "length pre + 1 < 2 ^ 16" and "opt_num x < 2 ^ 31"
  shows "main_loop argv (of_nat (length pre)) g = main_loop argv (of_nat (length pre + 2)) (opt_set x g)"
proof -
  define i :: "16 word" where "i = of_nat (length pre)"
  have i: "argv_at argv i = Some (opt_args x ! 0)" "argv_at argv (i + 1) = Some (opt_args x ! 1)"
    using assms(1,2) argv_at_of_nat [of "length pre" argv] argv_at_of_nat [of "length pre + 1" argv]
    by (simp_all add: i_def nth_append ac_simps)
  have "main_loop argv i g = main_loop argv (i + 2) (opt_set x g)"
    using assms(3) i by (cases x) (subst main_loop.simps, simp add: c_char_def [of "_ # _"] c_char_decimal atoi_decimal)+
  then show ?thesis by (simp add: i_def ac_simps)
qed

lemma main_loop_opts:
  assumes "\<forall>x \<in> set opts. opt_num x < 2 ^ 31" and "length pre + 2 * length opts < 2 ^ 16"
    and "argv = pre @ concat (map opt_args opts) @ rest"
  shows "main_loop argv (of_nat (length pre)) g =
    main_loop argv (of_nat (length pre + 2 * length opts)) (fold opt_set opts g)"
  using assms
proof (induction opts arbitrary: pre g)
  case (Cons x opts)
  have "main_loop argv (of_nat (length pre)) g = main_loop argv (of_nat (length pre + 2)) (opt_set x g)"
    by (rule main_loop_opt) (use Cons.prems in auto)
  also have "\<dots> = main_loop argv (of_nat (length (pre @ opt_args x) + 2 * length opts)) (fold opt_set opts (opt_set x g))"
    using Cons.IH [of "pre @ opt_args x" "opt_set x g"] Cons.prems by simp
  finally show ?case by (simp add: algebra_simps)
qed simp

text \<open>Behind the options the loop stands at the first argument that follows them.\<close>

lemma main_prog_opts:
  assumes "\<forall>x \<in> set opts. opt_num x < 2 ^ 31" and "2 * length opts + 1 < 2 ^ 16"
  shows "main_prog (cmd_line prog opts rest) =
    main_loop (cmd_line prog opts rest) (of_nat (2 * length opts + 1)) (fold opt_set opts default_params)"
    and "argv_at (cmd_line prog opts rest) (of_nat (2 * length opts + 1)) =
      (case rest of [] \<Rightarrow> None | a # _ \<Rightarrow> Some a)"
proof -
  let ?argv = "cmd_line prog opts rest"
  show at: "argv_at ?argv (of_nat (2 * length opts + 1)) = (case rest of [] \<Rightarrow> None | a # _ \<Rightarrow> Some a)"
    using assms(2) by (subst argv_at_of_nat)
      (auto simp: cmd_line_def length_concat_opt_args nth_append split: list.split)
  have run: "main_loop ?argv 1 default_params =
      main_loop ?argv (of_nat (2 * length opts + 1)) (fold opt_set opts default_params)"
    using main_loop_opts [of opts "[prog]" ?argv rest default_params] assms by (simp add: cmd_line_def)
  show "main_prog ?argv = main_loop ?argv (of_nat (2 * length opts + 1)) (fold opt_set opts default_params)"
  proof (cases "opts = [] \<and> rest = []")
    case True
    then show ?thesis using at by (simp add: main_prog_def cmd_line_def) (subst main_loop.simps, simp)
  next
    case False
    then have "length ?argv \<noteq> 1" by (cases opts) (auto simp: cmd_line_def)
    with run show ?thesis by (simp add: main_prog_def)
  qed
qed

text \<open>An option the switch does not know leaves the loop where it is.\<close>

definition unknown_option :: "string \<Rightarrow> bool" where
  "unknown_option a \<longleftrightarrow> c_char a 0 = CHR ''-'' \<and> c_char a 1 \<notin> {CHR ''t'', CHR ''p'', CHR ''h''}"

lemma main_loop_unknown:
  assumes "argv_at argv i = Some a" and "unknown_option a"
  shows "main_loop argv i g = None"
proof (rule ccontr)
  assume "main_loop argv i g \<noteq> None"
  then obtain r where "main_loop argv i g = Some r" by blast
  then have "\<not> (argv_at argv i = Some a \<and> unknown_option a)"
    by (rule main_loop.raw_induct [rotated, where P = "\<lambda>argv i g r. \<not> (argv_at argv i = Some a \<and> unknown_option a)"])
      (auto simp: unknown_option_def split: if_splits)
  with assms show False by simp
qed

section \<open>Properties\<close>

text \<open>
  The options: with any list of \<open>-t n\<close> and \<open>-p n\<close> options the loop ends and the server
  starts with the last number given for each of them, and with the default where none is given.
\<close>

lemma main_options:
  assumes "\<forall>x \<in> set opts. opt_num x < 2 ^ 31" and "2 * length opts + 1 < 2 ^ 16"
  shows "main_prog (cmd_line prog opts []) = Some (Inr (Serving (fold opt_set opts default_params)))"
  using main_prog_opts [OF assms, of prog "[]"] by (simp, subst main_loop.simps, simp)

lemma main_options_witness:
  "main_prog [''memstashed'', ''-t'', ''7'', ''-p'', ''80''] =
     Some (Inr (Serving (default_params\<lparr>servWorkerThreads := 7, servListPort := 80\<rparr>)))"
proof -
  have "decimal 7 = ''7''" "decimal 80 = ''80''" by code_simp+
  then show ?thesis using main_options [of "[Threads 7, Port 80]" "''memstashed''"] by (simp add: cmd_line_def)
qed

text \<open>
  C34. Wrong command lines, after any number of proper options: a missing number for \<open>-t\<close> ends
  the program with a failure, a missing number for \<open>-p\<close> hands a null pointer to \<open>atoi\<close>, and an
  option the program does not know, or a lone dash, makes it loop for ever.
\<close>

theorem main_wrong_options:
  assumes "\<forall>x \<in> set opts. opt_num x < 2 ^ 31" and "2 * length opts + 2 < 2 ^ 16"
  shows "main_prog (cmd_line prog opts [''-t'']) = Some (Inr EXIT_FAILURE) \<and>
    main_prog (cmd_line prog opts [''-p'']) = Some (Inl NullPointer) \<and>
    (\<forall>a rest. unknown_option a \<longrightarrow> main_prog (cmd_line prog opts (a # rest)) = None)"
proof -
  define i where "i = (of_nat (2 * length opts + 1) :: 16 word)"
  have l: "2 * length opts + 1 < 2 ^ 16" using assms(2) by simp
  have nxt: "argv_at (cmd_line prog opts [a]) (i + 1) = None" for a
    using assms(2) argv_at_of_nat [of "2 * length opts + 2" "cmd_line prog opts [a]"]
    by (simp add: i_def cmd_line_def length_concat_opt_args ac_simps)
  note at = main_prog_opts [OF assms(1) l, folded i_def]
  show ?thesis
  proof (intro conjI allI impI)
    show "main_prog (cmd_line prog opts [''-t'']) = Some (Inr EXIT_FAILURE)"
      unfolding at(1) by (subst main_loop.simps) (simp add: at(2) nxt c_char_def)
    show "main_prog (cmd_line prog opts [''-p'']) = Some (Inl NullPointer)"
      unfolding at(1) by (subst main_loop.simps) (simp add: at(2) nxt c_char_def)
    show "main_prog (cmd_line prog opts (a # rest)) = None" if "unknown_option a" for a rest
      unfolding at(1) using that by (rule main_loop_unknown [rotated]) (simp add: at(2))
  qed
qed

lemma main_wrong_options_witness:
  "main_prog [''memstashed'', ''-t'', ''7'', ''-p''] = Some (Inl NullPointer) \<and>
   main_prog [''memstashed'', ''-t'', ''7'', ''-v'', ''x''] = None"
proof -
  have "decimal 7 = ''7''" by code_simp
  moreover have "unknown_option ''-v''" by code_simp
  ultimately show ?thesis using main_wrong_options [of "[Threads 7]" "''memstashed''"] by (simp add: cmd_line_def)
qed

text \<open>
  The port: whatever ports the command line gives, the server binds the compiled-in port, so
  its start depends on no other port, and it runs with the last number of threads given.
\<close>

lemma server_start_port:
  assumes "\<forall>x \<in> set opts. opt_num x < 2 ^ 31" and "2 * length opts + 1 < 2 ^ 16"
    and "rcBind SERV_DEF_LIST_PORT = rcBind' SERV_DEF_LIST_PORT"
  shows "server_start sd rcOpt rcIoctl rcBind rcListen (cmd_line prog opts []) =
    server_start sd rcOpt rcIoctl rcBind' rcListen
      (cmd_line prog (filter (\<lambda>x. \<exists>n. x = Threads n) opts) [])"
proof -
  let ?ts = "filter (\<lambda>x. \<exists>n. x = Threads n) opts"
  have ts: "\<forall>x \<in> set ?ts. opt_num x < 2 ^ 31" "2 * length ?ts + 1 < 2 ^ 16"
    using assms(1,2) length_filter_le [of _ opts] by (auto intro: le_less_trans [rotated])
  have same: "servWorkerThreads (fold opt_set opts g) = servWorkerThreads (fold opt_set ?ts h)"
    if "servWorkerThreads g = servWorkerThreads h" for g h
    using that
  proof (induction opts arbitrary: g h)
    case (Cons x opts)
    then show ?case by (cases x) simp_all
  qed simp
  have end_opts: "main_prog (cmd_line prog xs []) = Some (Inr (Serving (fold opt_set xs default_params)))"
    if "\<forall>x \<in> set xs. opt_num x < 2 ^ 31" and "2 * length xs + 1 < 2 ^ 16" for xs
    using main_prog_opts [OF that, of prog "[]"] by (simp, subst main_loop.simps, simp)
  show ?thesis
    using end_opts [OF assms(1,2)] end_opts [OF ts] same [of default_params default_params] assms(3)
    by (simp add: server_start_def socketStart_def)
qed

lemma server_start_port_witness:
  "server_start 3 0 0 (\<lambda>p. if p = 80 then - 1 else 0) 0 [''memstashed'', ''-p'', ''80''] =
   server_start 3 0 0 (\<lambda>p. 0) 0 [''memstashed'']"
proof -
  have "decimal 80 = ''80''" by code_simp
  then show ?thesis
    using server_start_port [of "[Port 80]" "\<lambda>p. if p = 80 then - 1 else 0" "\<lambda>p. 0" 3 0 0 0 "''memstashed''"]
    by (simp add: cmd_line_def SERV_DEF_LIST_PORT_def)
qed

end
