(* ===== verification/HashBasic.thy ===== *)
theory HashBasic
  imports Prelude
begin

text \<open>
  The one-pass hash functions of \<open>libhashkit\<close>, which the client library of the repository uses to
  spread keys over servers: Jenkins' one-at-a-time, the FNV family, CRC-32, Hsieh, Murmur and
  Murmur 3. A key is its list of bytes; \<open>char\<close> is signed on the target, so a byte that is
  widened as a \<open>char\<close> is sign-extended (\<open>scast\<close>), and one read as \<open>unsigned char\<close> is not
  (\<open>ucast\<close>). Sums, products and shifts are on 32-bit words.

  The lemmas show that the table-driven CRC is the division of the message bits by the CRC-32
  polynomial, that the 32-bit arithmetic of \<open>hashkit_fnv1a_64\<close> gives the low half of the 64-bit
  hash, and that the indexed loop of Murmur 3 reads the key block by block from its start.
\<close>

unbundle bit_operations_syntax

type_synonym bytes = "8 word list"

text \<open>\<open>memcpy\<close> into a block of memory, from offset \<open>off\<close> on.\<close>

definition memcpy_at :: "bytes \<Rightarrow> nat \<Rightarrow> bytes \<Rightarrow> bytes" where
  "memcpy_at dst off src = take off dst @ src @ drop (off + length src) dst"

section \<open>The build\<close>

text \<open>
  What the preprocessor knows: the width of a machine word and the hash functions that are
  compiled in. \<open>mem_config\<close> is the configuration of the repository.
\<close>

record config =
  wordsize :: nat
  have_fnv64_hash :: bool
  have_hsieh_hash :: bool
  have_murmur_hash :: bool

definition mem_config :: config where
  "mem_config = \<lparr>wordsize = 32, have_fnv64_hash = True, have_hsieh_hash = False, have_murmur_hash = True\<rparr>"

section \<open>One at a time\<close>

definition one_at_a_time_step :: "uint \<Rightarrow> 8 word \<Rightarrow> uint" where
  "one_at_a_time_step h b =
     (let h = h + scast b; h = h + push_bit 10 h in h XOR drop_bit 6 h)"

definition hashkit_one_at_a_time :: "bytes \<Rightarrow> uint" where
  "hashkit_one_at_a_time key =
     (let h = foldl one_at_a_time_step 0 key; h = h + push_bit 3 h; h = h XOR drop_bit 11 h
      in h + push_bit 15 h)"

section \<open>Fowler, Noll and Vo\<close>

definition FNV_32_INIT :: uint where
  "FNV_32_INIT = 2166136261"

definition FNV_32_PRIME :: uint where
  "FNV_32_PRIME = 16777619"

definition hashkit_fnv1_32 :: "bytes \<Rightarrow> uint" where
  "hashkit_fnv1_32 key = foldl (\<lambda>h b. (h * FNV_32_PRIME) XOR scast b) FNV_32_INIT key"

definition hashkit_fnv1a_32 :: "bytes \<Rightarrow> uint" where
  "hashkit_fnv1a_32 key = foldl (\<lambda>h b. (h XOR scast b) * FNV_32_PRIME) FNV_32_INIT key"

definition FNV_64_INIT :: u64 where
  "FNV_64_INIT = 0xcbf29ce484222325"

definition FNV_64_PRIME :: u64 where
  "FNV_64_PRIME = 0x100000001b3"

definition fnv64_built :: "config \<Rightarrow> bool" where
  "fnv64_built cfg \<longleftrightarrow> wordsize cfg = 64 \<and> have_fnv64_hash cfg"

definition hashkit_fnv1_64 :: "config \<Rightarrow> bytes \<Rightarrow> uint" where
  "hashkit_fnv1_64 cfg key =
     (if fnv64_built cfg then ucast (foldl (\<lambda>h b. (h * FNV_64_PRIME) XOR scast b) FNV_64_INIT key) else 0)"

definition hashkit_fnv1a_64 :: "config \<Rightarrow> bytes \<Rightarrow> uint" where
  "hashkit_fnv1a_64 cfg key =
     (if fnv64_built cfg then foldl (\<lambda>h b. (h XOR scast b) * ucast FNV_64_PRIME) (ucast FNV_64_INIT) key else 0)"

section \<open>CRC-32\<close>

definition crc32tab :: "uint list" where
  "crc32tab =
     [0x00000000, 0x77073096, 0xee0e612c, 0x990951ba, 0x076dc419, 0x706af48f,
      0xe963a535, 0x9e6495a3, 0x0edb8832, 0x79dcb8a4, 0xe0d5e91e, 0x97d2d988,
      0x09b64c2b, 0x7eb17cbd, 0xe7b82d07, 0x90bf1d91, 0x1db71064, 0x6ab020f2,
      0xf3b97148, 0x84be41de, 0x1adad47d, 0x6ddde4eb, 0xf4d4b551, 0x83d385c7,
      0x136c9856, 0x646ba8c0, 0xfd62f97a, 0x8a65c9ec, 0x14015c4f, 0x63066cd9,
      0xfa0f3d63, 0x8d080df5, 0x3b6e20c8, 0x4c69105e, 0xd56041e4, 0xa2677172,
      0x3c03e4d1, 0x4b04d447, 0xd20d85fd, 0xa50ab56b, 0x35b5a8fa, 0x42b2986c,
      0xdbbbc9d6, 0xacbcf940, 0x32d86ce3, 0x45df5c75, 0xdcd60dcf, 0xabd13d59,
      0x26d930ac, 0x51de003a, 0xc8d75180, 0xbfd06116, 0x21b4f4b5, 0x56b3c423,
      0xcfba9599, 0xb8bda50f, 0x2802b89e, 0x5f058808, 0xc60cd9b2, 0xb10be924,
      0x2f6f7c87, 0x58684c11, 0xc1611dab, 0xb6662d3d, 0x76dc4190, 0x01db7106,
      0x98d220bc, 0xefd5102a, 0x71b18589, 0x06b6b51f, 0x9fbfe4a5, 0xe8b8d433,
      0x7807c9a2, 0x0f00f934, 0x9609a88e, 0xe10e9818, 0x7f6a0dbb, 0x086d3d2d,
      0x91646c97, 0xe6635c01, 0x6b6b51f4, 0x1c6c6162, 0x856530d8, 0xf262004e,
      0x6c0695ed, 0x1b01a57b, 0x8208f4c1, 0xf50fc457, 0x65b0d9c6, 0x12b7e950,
      0x8bbeb8ea, 0xfcb9887c, 0x62dd1ddf, 0x15da2d49, 0x8cd37cf3, 0xfbd44c65,
      0x4db26158, 0x3ab551ce, 0xa3bc0074, 0xd4bb30e2, 0x4adfa541, 0x3dd895d7,
      0xa4d1c46d, 0xd3d6f4fb, 0x4369e96a, 0x346ed9fc, 0xad678846, 0xda60b8d0,
      0x44042d73, 0x33031de5, 0xaa0a4c5f, 0xdd0d7cc9, 0x5005713c, 0x270241aa,
      0xbe0b1010, 0xc90c2086, 0x5768b525, 0x206f85b3, 0xb966d409, 0xce61e49f,
      0x5edef90e, 0x29d9c998, 0xb0d09822, 0xc7d7a8b4, 0x59b33d17, 0x2eb40d81,
      0xb7bd5c3b, 0xc0ba6cad, 0xedb88320, 0x9abfb3b6, 0x03b6e20c, 0x74b1d29a,
      0xead54739, 0x9dd277af, 0x04db2615, 0x73dc1683, 0xe3630b12, 0x94643b84,
      0x0d6d6a3e, 0x7a6a5aa8, 0xe40ecf0b, 0x9309ff9d, 0x0a00ae27, 0x7d079eb1,
      0xf00f9344, 0x8708a3d2, 0x1e01f268, 0x6906c2fe, 0xf762575d, 0x806567cb,
      0x196c3671, 0x6e6b06e7, 0xfed41b76, 0x89d32be0, 0x10da7a5a, 0x67dd4acc,
      0xf9b9df6f, 0x8ebeeff9, 0x17b7be43, 0x60b08ed5, 0xd6d6a3e8, 0xa1d1937e,
      0x38d8c2c4, 0x4fdff252, 0xd1bb67f1, 0xa6bc5767, 0x3fb506dd, 0x48b2364b,
      0xd80d2bda, 0xaf0a1b4c, 0x36034af6, 0x41047a60, 0xdf60efc3, 0xa867df55,
      0x316e8eef, 0x4669be79, 0xcb61b38c, 0xbc66831a, 0x256fd2a0, 0x5268e236,
      0xcc0c7795, 0xbb0b4703, 0x220216b9, 0x5505262f, 0xc5ba3bbe, 0xb2bd0b28,
      0x2bb45a92, 0x5cb36a04, 0xc2d7ffa7, 0xb5d0cf31, 0x2cd99e8b, 0x5bdeae1d,
      0x9b64c2b0, 0xec63f226, 0x756aa39c, 0x026d930a, 0x9c0906a9, 0xeb0e363f,
      0x72076785, 0x05005713, 0x95bf4a82, 0xe2b87a14, 0x7bb12bae, 0x0cb61b38,
      0x92d28e9b, 0xe5d5be0d, 0x7cdcefb7, 0x0bdbdf21, 0x86d3d2d4, 0xf1d4e242,
      0x68ddb3f8, 0x1fda836e, 0x81be16cd, 0xf6b9265b, 0x6fb077e1, 0x18b74777,
      0x88085ae6, 0xff0f6a70, 0x66063bca, 0x11010b5c, 0x8f659eff, 0xf862ae69,
      0x616bffd3, 0x166ccf45, 0xa00ae278, 0xd70dd2ee, 0x4e048354, 0x3903b3c2,
      0xa7672661, 0xd06016f7, 0x4969474d, 0x3e6e77db, 0xaed16a4a, 0xd9d65adc,
      0x40df0b66, 0x37d83bf0, 0xa9bcae53, 0xdebb9ec5, 0x47b2cf7f, 0x30b5ffe9,
      0xbdbdf21c, 0xcabac28a, 0x53b39330, 0x24b4a3a6, 0xbad03605, 0xcdd70693,
      0x54de5729, 0x23d967bf, 0xb3667a2e, 0xc4614ab8, 0x5d681b02, 0x2a6f2b94,
      0xb40bbe37, 0xc30c8ea1, 0x5a05df1b, 0x2d02ef8d]"

definition crc32_step :: "uint \<Rightarrow> 8 word \<Rightarrow> uint" where
  "crc32_step crc b = drop_bit 8 crc XOR crc32tab ! unat ((ucast crc XOR scast b :: u64) AND 0xff)"

definition hashkit_crc32 :: "bytes \<Rightarrow> uint" where
  "hashkit_crc32 key = drop_bit 16 (NOT (foldl crc32_step 0xFFFFFFFF key)) AND 0x7fff"

section \<open>Hsieh\<close>

definition get16bits :: "8 word \<Rightarrow> 8 word \<Rightarrow> uint" where
  "get16bits b0 b1 = push_bit 8 (ucast b1) + ucast b0"

fun hsieh_loop :: "uint \<Rightarrow> bytes \<Rightarrow> uint \<times> bytes" where
  "hsieh_loop h (b0 # b1 # b2 # b3 # key) =
     (let h = h + get16bits b0 b1; tmp = push_bit 11 (get16bits b2 b3) XOR h; h = push_bit 16 h XOR tmp
      in hsieh_loop (h + drop_bit 11 h) key)"
| "hsieh_loop h rest = (h, rest)"

fun hsieh_tail :: "uint \<Rightarrow> bytes \<Rightarrow> uint" where
  "hsieh_tail h [b0, b1, b2] =
     (let h = h + get16bits b0 b1; h = h XOR push_bit 16 h; h = h XOR push_bit 18 (scast b2) in h + drop_bit 11 h)"
| "hsieh_tail h [b0, b1] = (let h = h + get16bits b0 b1; h = h XOR push_bit 11 h in h + drop_bit 17 h)"
| "hsieh_tail h [b0] = (let h = h + ucast b0; h = h XOR push_bit 10 h in h + drop_bit 1 h)"
| "hsieh_tail h _ = h"

definition hsieh_avalanche :: "uint \<Rightarrow> uint" where
  "hsieh_avalanche h =
     (let h = h XOR push_bit 3 h; h = h + drop_bit 5 h; h = h XOR push_bit 4 h; h = h + drop_bit 17 h;
          h = h XOR push_bit 25 h
      in h + drop_bit 6 h)"

definition hashkit_hsieh :: "config \<Rightarrow> bytes \<Rightarrow> uint" where
  "hashkit_hsieh cfg key =
     (if have_hsieh_hash cfg
      then if key = [] then 0 else case hsieh_loop 0 key of (h, rest) \<Rightarrow> hsieh_avalanche (hsieh_tail h rest)
      else 0)"

section \<open>Murmur\<close>

text \<open>A 4-byte load on the little-endian target.\<close>

definition le32 :: "8 word \<Rightarrow> 8 word \<Rightarrow> 8 word \<Rightarrow> 8 word \<Rightarrow> uint" where
  "le32 b0 b1 b2 b3 = ucast b0 OR push_bit 8 (ucast b1) OR push_bit 16 (ucast b2) OR push_bit 24 (ucast b3)"

definition murmur_m :: uint where
  "murmur_m = 0x5bd1e995"

fun murmur_loop :: "uint \<Rightarrow> bytes \<Rightarrow> uint \<times> bytes" where
  "murmur_loop h (b0 # b1 # b2 # b3 # data) =
     (let k = le32 b0 b1 b2 b3 * murmur_m; k = k XOR drop_bit 24 k; k = k * murmur_m
      in murmur_loop ((h * murmur_m) XOR k) data)"
| "murmur_loop h rest = (h, rest)"

fun murmur_tail :: "uint \<Rightarrow> bytes \<Rightarrow> uint" where
  "murmur_tail h [b0, b1, b2] =
     (h XOR push_bit 16 (ucast b2) XOR push_bit 8 (ucast b1) XOR ucast b0) * murmur_m"
| "murmur_tail h [b0, b1] = (h XOR push_bit 8 (ucast b1) XOR ucast b0) * murmur_m"
| "murmur_tail h [b0] = (h XOR ucast b0) * murmur_m"
| "murmur_tail h _ = h"

definition hashkit_murmur :: "config \<Rightarrow> bytes \<Rightarrow> uint" where
  "hashkit_murmur cfg key =
     (if have_murmur_hash cfg
      then let len = of_nat (length key) in
           case murmur_loop ((0xdeadbeef * len) XOR len) key of
             (h, rest) \<Rightarrow>
               let h = murmur_tail h rest; h = h XOR drop_bit 13 h; h = h * murmur_m in h XOR drop_bit 15 h
      else 0)"

section \<open>Murmur 3\<close>

definition rotl32 :: "uint \<Rightarrow> nat \<Rightarrow> uint" where
  "rotl32 x r = push_bit r x OR drop_bit (32 - r) x"

definition fmix32 :: "uint \<Rightarrow> uint" where
  "fmix32 h =
     (let h = h XOR drop_bit 16 h; h = h * 0x85ebca6b; h = h XOR drop_bit 13 h; h = h * 0xc2b2ae35
      in h XOR drop_bit 16 h)"

text \<open>
  The body counts \<open>i\<close> from \<open>- nblocks\<close> to zero and reads the blocks backwards from the end of the
  last complete one; \<open>len\<close> is an \<open>int\<close>, so keys are shorter than two gigabytes.
\<close>

definition getblock :: "bytes \<Rightarrow> int \<Rightarrow> int \<Rightarrow> uint" where
  "getblock data nblocks i =
     (let p = nat (nblocks * 4 + i * 4) in le32 (data ! p) (data ! (p + 1)) (data ! (p + 2)) (data ! (p + 3)))"

definition murmur3_k :: "uint \<Rightarrow> uint" where
  "murmur3_k k1 = rotl32 (k1 * 0xcc9e2d51) 15 * 0x1b873593"

definition murmur3_mix :: "uint \<Rightarrow> uint \<Rightarrow> uint" where
  "murmur3_mix h1 k1 = rotl32 (h1 XOR murmur3_k k1) 13 * 5 + 0xe6546b64"

fun murmur3_tail :: "uint \<Rightarrow> bytes \<Rightarrow> uint" where
  "murmur3_tail h [t0, t1, t2] =
     h XOR murmur3_k (push_bit 16 (ucast t2) XOR push_bit 8 (ucast t1) XOR ucast t0)"
| "murmur3_tail h [t0, t1] = h XOR murmur3_k (push_bit 8 (ucast t1) XOR ucast t0)"
| "murmur3_tail h [t0] = h XOR murmur3_k (ucast t0)"
| "murmur3_tail h _ = h"

definition MurmurHash3_x86_32 :: "bytes \<Rightarrow> uint \<Rightarrow> uint" where
  "MurmurHash3_x86_32 key seed =
     (let len = int (length key); nblocks = len div 4;
          h1 = foldl (\<lambda>h i. murmur3_mix h (getblock key nblocks i)) seed [- nblocks..-1];
          h1 = murmur3_tail h1 (drop (nat (nblocks * 4)) key)
      in fmix32 (h1 XOR of_int len))"

definition hashkit_murmur3 :: "bytes \<Rightarrow> uint" where
  "hashkit_murmur3 key = MurmurHash3_x86_32 key (0xdeadbeef * of_nat (length key))"

section \<open>The table of the CRC\<close>

text \<open>
  The reference: a register divided bit by bit by the reflected polynomial, after a byte has been
  added at its low end.
\<close>

definition crc_shift :: "uint \<Rightarrow> uint" where
  "crc_shift x = drop_bit 1 x XOR (if bit x 0 then 0xedb88320 else 0)"

definition crc_reference :: "bytes \<Rightarrow> uint" where
  "crc_reference key = NOT (foldl (\<lambda>crc b. (crc_shift ^^ 8) (crc XOR ucast b)) 0xFFFFFFFF key)"

lemma crc_shift_xor: "crc_shift (x XOR y) = crc_shift x XOR crc_shift y"
  by (rule bit_word_eqI) (auto simp: crc_shift_def bit_simps)

lemma crc_shift_pow_xor: "(crc_shift ^^ n) (x XOR y) = (crc_shift ^^ n) x XOR (crc_shift ^^ n) y"
  by (induction n) (simp_all add: crc_shift_xor)

text \<open>Bits above the low \<open>n\<close> are only shifted by \<open>n\<close> steps.\<close>

lemma crc_shift_pow_high: "take_bit n x = 0 \<Longrightarrow> (crc_shift ^^ n) x = drop_bit n x"
proof (induction n)
  case (Suc n)
  have low: "\<not> bit x i" if "i < Suc n" for i
    using Suc.prems that by (metis bit_0_eq bit_take_bit_iff bot_apply bot_bool_def)
  have "take_bit n x = 0" by (rule bit_word_eqI) (use low in \<open>auto simp: bit_simps\<close>)
  moreover have "\<not> bit (drop_bit n x) 0" using low [of n] by (simp add: bit_simps)
  ultimately show ?case using Suc.IH by (simp only: funpow.simps o_apply crc_shift_def drop_bit_drop_bit) simp
qed simp

text \<open>Eight steps for the eight powers of two give, by linearity, all entries of the table.\<close>

definition xor_span :: "uint list \<Rightarrow> uint list" where
  "xor_span basis = foldl (\<lambda>xs b. xs @ map (\<lambda>x. b XOR x) xs) [0] basis"

lemma of_nat_add_bit: "i < 2 ^ n \<Longrightarrow> (of_nat (2 ^ n + i) :: uint) = 2 ^ n XOR of_nat i"
proof -
  assume i: "i < 2 ^ n"
  have "\<not> bit i k" if "n \<le> k" for k
  proof -
    have "i < 2 ^ k" by (rule less_le_trans [OF i power_increasing [OF that]]) simp
    then show ?thesis by (simp add: bit_iff_odd)
  qed
  then have "(2 ^ n :: uint) AND of_nat i = 0" by (intro bit_word_eqI) (auto simp: bit_and_iff bit_exp_iff bit_of_nat_iff)
  then show ?thesis by (simp add: disjunctive_add_eq_xor)
qed

lemma xor_span_linear:
  fixes f :: "uint \<Rightarrow> uint"
  assumes lin: "\<And>x y. f (x XOR y) = f x XOR f y"
  shows "xor_span (map (\<lambda>k. f (2 ^ k)) [0..<n]) = map (\<lambda>i. f (of_nat i)) [0..<2 ^ n]"
proof (induction n)
  case 0
  have "f 0 = f (0 XOR 0)" by simp
  also have "\<dots> = 0" unfolding lin by simp
  finally show ?case by (simp add: xor_span_def)
next
  case (Suc n)
  have "[0..<2 ^ Suc n] = [0..<2 ^ n] @ map (\<lambda>i. 2 ^ n + i) [0..<2 ^ n]"
    by (simp add: map_add_upt upt_add_eq_append mult_2 flip: map_add_upt)
  then have "map (\<lambda>i. f (of_nat i)) [0..<2 ^ Suc n] =
      map (\<lambda>i. f (of_nat i)) [0..<2 ^ n] @ map (\<lambda>i. f (2 ^ n) XOR f (of_nat i)) [0..<2 ^ n]"
    by (auto simp: of_nat_add_bit simp flip: lin simp del: of_nat_add)
  then show ?case using Suc by (simp add: xor_span_def o_def)
qed

lemma crc_shift_numeral:
  "crc_shift (numeral n) = drop_bit 1 (numeral n) XOR (if bit (numeral n :: uint) 0 then 0xedb88320 else 0)"
  "crc_shift 1 = 0xedb88320"
  by (simp_all add: crc_shift_def)

lemma crc_shift_8:
  "(crc_shift ^^ 8) x = crc_shift (crc_shift (crc_shift (crc_shift (crc_shift (crc_shift (crc_shift (crc_shift x)))))))"
  by (simp add: eval_nat_numeral)

lemma crc32tab_nth:
  assumes "i < 256"
  shows "crc32tab ! i = (crc_shift ^^ 8) (of_nat i)"
proof -
  have "[0..<8] = [0, 1, 2, 3, 4, 5, 6, 7 :: nat]" by code_simp
  then have basis: "map (\<lambda>k. (crc_shift ^^ 8) (2 ^ k)) [0..<8] =
      [0x77073096, 0xee0e612c, 0x076dc419, 0x0edb8832, 0x1db71064, 0x3b6e20c8, 0x76dc4190, 0xedb88320]"
    by (simp add: crc_shift_8 crc_shift_numeral)
  have "crc32tab = xor_span (map (\<lambda>k. (crc_shift ^^ 8) (2 ^ k)) [0..<8])"
    unfolding basis by (simp add: crc32tab_def xor_span_def)
  also have "\<dots> = map (\<lambda>i. (crc_shift ^^ 8) (of_nat i)) [0..<256]"
    by (subst xor_span_linear) (simp_all add: crc_shift_pow_xor)
  finally have tab: "crc32tab = map (\<lambda>i. (crc_shift ^^ 8) (of_nat i)) [0..<256]" .
  show ?thesis unfolding tab by (subst nth_map) (use assms in simp_all)
qed

lemma mask_8: "(0xff :: 'a::len word) = mask 8"
  by (simp add: mask_eq_exp_minus_1)

lemma crc32_step_reference: "crc32_step crc b = (crc_shift ^^ 8) (crc XOR ucast b)"
proof -
  define x where "x = crc XOR ucast b"
  define i where "i = (ucast crc XOR scast b :: u64) AND 0xff"
  have sgn: "min 7 n = n" if "n < 8" for n :: nat using that by simp
  have low: "ucast i = x AND 0xff"
    unfolding x_def i_def mask_8 by (rule bit_word_eqI) (auto simp: bit_simps sgn)
  have high: "drop_bit 8 crc = drop_bit 8 (x AND NOT 0xff)"
    unfolding x_def mask_8 by (rule bit_word_eqI) (auto simp: bit_simps dest: bit_imp_le_length)
  have "i < 256" unfolding i_def by (rule le_less_trans [OF word_and_le1]) simp
  then have "unat i < 256" by (simp add: word_less_nat_alt)
  then have "crc32tab ! unat i = (crc_shift ^^ 8) (x AND 0xff)"
    using low by (simp add: crc32tab_nth flip: low)
  moreover have "(crc_shift ^^ 8) (x AND NOT 0xff) = drop_bit 8 crc"
    unfolding high mask_8 by (rule crc_shift_pow_high) (rule bit_word_eqI, auto simp: bit_simps)
  moreover have "x = (x AND NOT 0xff) XOR (x AND 0xff)" by (rule bit_word_eqI) (auto simp: bit_simps)
  ultimately show ?thesis
    by (metis crc32_step_def crc_shift_pow_xor i_def x_def)
qed

section \<open>Properties\<close>

text \<open>
  C38. The table-driven CRC is the bitwise one: for every key the hash is bits 16 to 30 of the
  CRC-32 of the key, so it is below \<open>2 ^ 15\<close>; the sign extension of the key bytes has no effect.
\<close>

theorem hashkit_crc32_reference:
  "hashkit_crc32 key = drop_bit 16 (crc_reference key) AND 0x7fff \<and> hashkit_crc32 key < 2 ^ 15"
proof -
  have "foldl crc32_step c key = foldl (\<lambda>crc b. (crc_shift ^^ 8) (crc XOR ucast b)) c key" for c
    by (simp add: crc32_step_reference [abs_def])
  moreover have "x AND 0x7fff < 2 ^ 15" for x :: uint by (rule le_less_trans [OF word_and_le1]) simp
  ultimately show ?thesis by (simp add: hashkit_crc32_def crc_reference_def)
qed

section \<open>The 64-bit FNV hash in 32 bits\<close>

lemma take_bit_mult_32: "take_bit 32 (take_bit 64 x * take_bit 64 y) = take_bit 32 (x * y)" for x y :: int
proof -
  have "take_bit 32 (take_bit 64 x * take_bit 64 y) = take_bit 32 (take_bit 32 (take_bit 64 x) * take_bit 32 (take_bit 64 y))"
    by (simp only: take_bit_mult)
  also have "\<dots> = take_bit 32 (take_bit 32 x * take_bit 32 y)" by simp
  finally show ?thesis by (simp only: take_bit_mult)
qed

lemma ucast_mult: "(ucast (x * y) :: uint) = ucast (x :: u64) * ucast y"
  by transfer (simp add: take_bit_mult_32 min_def)

lemma ucast_xor: "(ucast (x XOR y) :: uint) = ucast (x :: u64) XOR ucast y"
  by (rule bit_word_eqI) (simp add: bit_simps)

lemma ucast_scast: "(ucast (scast (b :: 8 word) :: u64) :: uint) = scast b"
  by (rule bit_word_eqI) (simp add: bit_simps)

lemma fnv1a_64_low_half:
  assumes "fnv64_built cfg"
  shows "hashkit_fnv1a_64 cfg key = ucast (foldl (\<lambda>h b. (h XOR scast b) * FNV_64_PRIME) FNV_64_INIT key)"
proof -
  have "ucast (foldl (\<lambda>h b. (h XOR scast b) * FNV_64_PRIME) h key) =
      foldl (\<lambda>h b. (h XOR scast b) * ucast FNV_64_PRIME) (ucast h :: uint) key" for h
    by (induction key arbitrary: h) (simp_all add: ucast_mult ucast_xor ucast_scast)
  then show ?thesis using assms by (simp add: hashkit_fnv1a_64_def)
qed

section \<open>Murmur 3 as one pass\<close>

text \<open>The reference: one pass over the key, four bytes at a time.\<close>

fun murmur3_pass :: "uint \<Rightarrow> bytes \<Rightarrow> uint" where
  "murmur3_pass h (b0 # b1 # b2 # b3 # key) = murmur3_pass (murmur3_mix h (le32 b0 b1 b2 b3)) key"
| "murmur3_pass h rest = murmur3_tail h rest"

definition block_at :: "bytes \<Rightarrow> nat \<Rightarrow> uint" where
  "block_at key j = le32 (key ! (4 * j)) (key ! (4 * j + 1)) (key ! (4 * j + 2)) (key ! (4 * j + 3))"

lemma murmur3_pass_blocks:
  "murmur3_tail (foldl (\<lambda>h j. murmur3_mix h (block_at key j)) h [0..<length key div 4]) (drop (4 * (length key div 4)) key) =
   murmur3_pass h key"
proof (induction h key rule: murmur3_pass.induct)
  case (1 h b0 b1 b2 b3 key)
  let ?key = "b0 # b1 # b2 # b3 # key"
  have l: "length ?key div 4 = Suc (length key div 4)" by simp
  then have "[0..<length ?key div 4] = 0 # map Suc [0..<length key div 4]"
    by (simp add: upt_conv_Cons map_Suc_upt del: upt_Suc)
  moreover have "block_at ?key (Suc j) = block_at key j" for j by (simp add: block_at_def numeral_eq_Suc)
  moreover have "block_at ?key 0 = le32 b0 b1 b2 b3" by (simp add: block_at_def numeral_eq_Suc)
  moreover have "drop (4 * (length ?key div 4)) ?key = drop (4 * (length key div 4)) key"
    unfolding l mult_Suc_right by (subst add.commute) (simp flip: drop_drop)
  ultimately show ?case using 1 by (simp only: murmur3_pass.simps foldl.simps foldl_map)
qed simp_all

lemma MurmurHash3_x86_32_pass:
  "MurmurHash3_x86_32 key seed = fmix32 (murmur3_pass seed key XOR of_nat (length key))"
proof -
  let ?n = "length key div 4"
  have n: "int (length key) div 4 = int ?n" by simp
  have "[- int ?n..-1] = map (\<lambda>j. int j - int ?n) [0..<?n]"
    by (rule nth_equalityI) (simp_all add: nth_upto)
  moreover have "getblock key (int ?n) (int j - int ?n) = block_at key j" for j
  proof -
    have p: "int ?n * 4 + (int j - int ?n) * 4 = int (4 * j)" by (simp add: algebra_simps)
    show ?thesis unfolding getblock_def block_at_def p by (simp add: Let_def del: of_nat_mult)
  qed
  moreover have "nat (int ?n * 4) = 4 * ?n" by simp
  ultimately show ?thesis
    unfolding MurmurHash3_x86_32_def n Let_def by (simp add: foldl_map murmur3_pass_blocks)
qed

end
