(* ===== verification/RijndaelTables.thy ===== *)
theory RijndaelTables
  imports Rijndael
begin

text \<open>
  What the tables of \<open>rijndael.cc\<close> hold. Each table is the composition of the substitution box,
  or its inverse, with a map that is linear over exclusive or: the column of the mixing matrix
  that the comment in the source gives. The eight maps are kept as the images of the eight bits.
  From this follows that the unmixing used by decryption undoes the mixing used by encryption.
\<close>

unbundle bit_operations_syntax

section \<open>Boxes and linear maps\<close>

definition sbox_list :: "8 word list" where
  "sbox_list =
     [0x63, 0x7c, 0x77, 0x7b, 0xf2, 0x6b, 0x6f, 0xc5, 0x30, 0x01, 0x67, 0x2b, 0xfe, 0xd7, 0xab, 0x76,
      0xca, 0x82, 0xc9, 0x7d, 0xfa, 0x59, 0x47, 0xf0, 0xad, 0xd4, 0xa2, 0xaf, 0x9c, 0xa4, 0x72, 0xc0,
      0xb7, 0xfd, 0x93, 0x26, 0x36, 0x3f, 0xf7, 0xcc, 0x34, 0xa5, 0xe5, 0xf1, 0x71, 0xd8, 0x31, 0x15,
      0x04, 0xc7, 0x23, 0xc3, 0x18, 0x96, 0x05, 0x9a, 0x07, 0x12, 0x80, 0xe2, 0xeb, 0x27, 0xb2, 0x75,
      0x09, 0x83, 0x2c, 0x1a, 0x1b, 0x6e, 0x5a, 0xa0, 0x52, 0x3b, 0xd6, 0xb3, 0x29, 0xe3, 0x2f, 0x84,
      0x53, 0xd1, 0x00, 0xed, 0x20, 0xfc, 0xb1, 0x5b, 0x6a, 0xcb, 0xbe, 0x39, 0x4a, 0x4c, 0x58, 0xcf,
      0xd0, 0xef, 0xaa, 0xfb, 0x43, 0x4d, 0x33, 0x85, 0x45, 0xf9, 0x02, 0x7f, 0x50, 0x3c, 0x9f, 0xa8,
      0x51, 0xa3, 0x40, 0x8f, 0x92, 0x9d, 0x38, 0xf5, 0xbc, 0xb6, 0xda, 0x21, 0x10, 0xff, 0xf3, 0xd2,
      0xcd, 0x0c, 0x13, 0xec, 0x5f, 0x97, 0x44, 0x17, 0xc4, 0xa7, 0x7e, 0x3d, 0x64, 0x5d, 0x19, 0x73,
      0x60, 0x81, 0x4f, 0xdc, 0x22, 0x2a, 0x90, 0x88, 0x46, 0xee, 0xb8, 0x14, 0xde, 0x5e, 0x0b, 0xdb,
      0xe0, 0x32, 0x3a, 0x0a, 0x49, 0x06, 0x24, 0x5c, 0xc2, 0xd3, 0xac, 0x62, 0x91, 0x95, 0xe4, 0x79,
      0xe7, 0xc8, 0x37, 0x6d, 0x8d, 0xd5, 0x4e, 0xa9, 0x6c, 0x56, 0xf4, 0xea, 0x65, 0x7a, 0xae, 0x08,
      0xba, 0x78, 0x25, 0x2e, 0x1c, 0xa6, 0xb4, 0xc6, 0xe8, 0xdd, 0x74, 0x1f, 0x4b, 0xbd, 0x8b, 0x8a,
      0x70, 0x3e, 0xb5, 0x66, 0x48, 0x03, 0xf6, 0x0e, 0x61, 0x35, 0x57, 0xb9, 0x86, 0xc1, 0x1d, 0x9e,
      0xe1, 0xf8, 0x98, 0x11, 0x69, 0xd9, 0x8e, 0x94, 0x9b, 0x1e, 0x87, 0xe9, 0xce, 0x55, 0x28, 0xdf,
      0x8c, 0xa1, 0x89, 0x0d, 0xbf, 0xe6, 0x42, 0x68, 0x41, 0x99, 0x2d, 0x0f, 0xb0, 0x54, 0xbb, 0x16]"

definition isbox_list :: "8 word list" where
  "isbox_list =
     [0x52, 0x09, 0x6a, 0xd5, 0x30, 0x36, 0xa5, 0x38, 0xbf, 0x40, 0xa3, 0x9e, 0x81, 0xf3, 0xd7, 0xfb,
      0x7c, 0xe3, 0x39, 0x82, 0x9b, 0x2f, 0xff, 0x87, 0x34, 0x8e, 0x43, 0x44, 0xc4, 0xde, 0xe9, 0xcb,
      0x54, 0x7b, 0x94, 0x32, 0xa6, 0xc2, 0x23, 0x3d, 0xee, 0x4c, 0x95, 0x0b, 0x42, 0xfa, 0xc3, 0x4e,
      0x08, 0x2e, 0xa1, 0x66, 0x28, 0xd9, 0x24, 0xb2, 0x76, 0x5b, 0xa2, 0x49, 0x6d, 0x8b, 0xd1, 0x25,
      0x72, 0xf8, 0xf6, 0x64, 0x86, 0x68, 0x98, 0x16, 0xd4, 0xa4, 0x5c, 0xcc, 0x5d, 0x65, 0xb6, 0x92,
      0x6c, 0x70, 0x48, 0x50, 0xfd, 0xed, 0xb9, 0xda, 0x5e, 0x15, 0x46, 0x57, 0xa7, 0x8d, 0x9d, 0x84,
      0x90, 0xd8, 0xab, 0x00, 0x8c, 0xbc, 0xd3, 0x0a, 0xf7, 0xe4, 0x58, 0x05, 0xb8, 0xb3, 0x45, 0x06,
      0xd0, 0x2c, 0x1e, 0x8f, 0xca, 0x3f, 0x0f, 0x02, 0xc1, 0xaf, 0xbd, 0x03, 0x01, 0x13, 0x8a, 0x6b,
      0x3a, 0x91, 0x11, 0x41, 0x4f, 0x67, 0xdc, 0xea, 0x97, 0xf2, 0xcf, 0xce, 0xf0, 0xb4, 0xe6, 0x73,
      0x96, 0xac, 0x74, 0x22, 0xe7, 0xad, 0x35, 0x85, 0xe2, 0xf9, 0x37, 0xe8, 0x1c, 0x75, 0xdf, 0x6e,
      0x47, 0xf1, 0x1a, 0x71, 0x1d, 0x29, 0xc5, 0x89, 0x6f, 0xb7, 0x62, 0x0e, 0xaa, 0x18, 0xbe, 0x1b,
      0xfc, 0x56, 0x3e, 0x4b, 0xc6, 0xd2, 0x79, 0x20, 0x9a, 0xdb, 0xc0, 0xfe, 0x78, 0xcd, 0x5a, 0xf4,
      0x1f, 0xdd, 0xa8, 0x33, 0x88, 0x07, 0xc7, 0x31, 0xb1, 0x12, 0x10, 0x59, 0x27, 0x80, 0xec, 0x5f,
      0x60, 0x51, 0x7f, 0xa9, 0x19, 0xb5, 0x4a, 0x0d, 0x2d, 0xe5, 0x7a, 0x9f, 0x93, 0xc9, 0x9c, 0xef,
      0xa0, 0xe0, 0x3b, 0x4d, 0xae, 0x2a, 0xf5, 0xb0, 0xc8, 0xeb, 0xbb, 0x3c, 0x83, 0x53, 0x99, 0x61,
      0x17, 0x2b, 0x04, 0x7e, 0xba, 0x77, 0xd6, 0x26, 0xe1, 0x69, 0x14, 0x63, 0x55, 0x21, 0x0c, 0x7d]"

definition sbox :: "8 word \<Rightarrow> 8 word" where
  "sbox x = sbox_list ! unat x"

definition isbox :: "8 word \<Rightarrow> 8 word" where
  "isbox x = isbox_list ! unat x"

fun lin :: "uint list \<Rightarrow> 8 word \<Rightarrow> uint" where
  "lin [] s = 0"
| "lin (b # bs) s = (if bit s 0 then b else 0) XOR lin bs (drop_bit 1 s)"

definition mix0 :: "uint list" where
  "mix0 = [0x02010103, 0x04020206, 0x0804040c, 0x10080818, 0x20101030, 0x40202060, 0x804040c0, 0x1b80809b]"

definition mix1 :: "uint list" where
  "mix1 = [0x03020101, 0x06040202, 0x0c080404, 0x18100808, 0x30201010, 0x60402020, 0xc0804040, 0x9b1b8080]"

definition mix2 :: "uint list" where
  "mix2 = [0x01030201, 0x02060402, 0x040c0804, 0x08181008, 0x10302010, 0x20604020, 0x40c08040, 0x809b1b80]"

definition mix3 :: "uint list" where
  "mix3 = [0x01010302, 0x02020604, 0x04040c08, 0x08081810, 0x10103020, 0x20206040, 0x4040c080, 0x80809b1b]"

definition unmix0 :: "uint list" where
  "unmix0 = [0x0e090d0b, 0x1c121a16, 0x3824342c, 0x70486858, 0xe090d0b0, 0xdb3bbb7b, 0xad766df6, 0x41ecdaf7]"

definition unmix1 :: "uint list" where
  "unmix1 = [0x0b0e090d, 0x161c121a, 0x2c382434, 0x58704868, 0xb0e090d0, 0x7bdb3bbb, 0xf6ad766d, 0xf741ecda]"

definition unmix2 :: "uint list" where
  "unmix2 = [0x0d0b0e09, 0x1a161c12, 0x342c3824, 0x68587048, 0xd0b0e090, 0xbb7bdb3b, 0x6df6ad76, 0xdaf741ec]"

definition unmix3 :: "uint list" where
  "unmix3 = [0x090d0b0e, 0x121a161c, 0x24342c38, 0x48685870, 0x90d0b0e0, 0x3bbb7bdb, 0x766df6ad, 0xecdaf741]"

definition pack :: "8 word \<Rightarrow> 8 word \<Rightarrow> 8 word \<Rightarrow> 8 word \<Rightarrow> uint" where
  "pack a b c d = push_bit 24 (ucast a) XOR push_bit 16 (ucast b) XOR push_bit 8 (ucast c) XOR ucast d"

section \<open>The tables\<close>

lemma Te0_sbox: "Te0 = map (lin mix0) sbox_list"
  by (simp add: Te0_def mix0_def sbox_list_def)

lemma Te1_sbox: "Te1 = map (lin mix1) sbox_list"
  by (simp add: Te1_def mix1_def sbox_list_def)

lemma Te2_sbox: "Te2 = map (lin mix2) sbox_list"
  by (simp add: Te2_def mix2_def sbox_list_def)

lemma Te3_sbox: "Te3 = map (lin mix3) sbox_list"
  by (simp add: Te3_def mix3_def sbox_list_def)

lemma Td0_isbox: "Td0 = map (lin unmix0) isbox_list"
  by (simp add: Td0_def unmix0_def isbox_list_def)

lemma Td1_isbox: "Td1 = map (lin unmix1) isbox_list"
  by (simp add: Td1_def unmix1_def isbox_list_def)

lemma Td2_isbox: "Td2 = map (lin unmix2) isbox_list"
  by (simp add: Td2_def unmix2_def isbox_list_def)

lemma Td3_isbox: "Td3 = map (lin unmix3) isbox_list"
  by (simp add: Td3_def unmix3_def isbox_list_def)

lemma Te4_sbox: "Te4 = map (\<lambda>s. pack s s s s) sbox_list"
  by (simp add: Te4_def sbox_list_def pack_def)

lemma Td4_isbox: "Td4 = map (\<lambda>s. pack s s s s) isbox_list"
  by (simp add: Td4_def isbox_list_def pack_def)

lemma length_boxes: "length sbox_list = 256" "length isbox_list = 256"
  by (simp_all add: sbox_list_def isbox_list_def)

lemma isbox_sbox_list: "map (\<lambda>s. isbox_list ! unat s) sbox_list = map of_nat [0..<256]"
proof -
  have "map of_nat [0..<256] = ([0, 1, 2, 3, 4, 5, 6, 7, 8, 9, 10, 11, 12, 13, 14, 15, 16, 17, 18, 19, 20, 21, 22, 23, 24, 25, 26, 27, 28, 29, 30, 31,
      32, 33, 34, 35, 36, 37, 38, 39, 40, 41, 42, 43, 44, 45, 46, 47, 48, 49, 50, 51, 52, 53, 54, 55, 56, 57, 58, 59, 60, 61, 62, 63,
      64, 65, 66, 67, 68, 69, 70, 71, 72, 73, 74, 75, 76, 77, 78, 79, 80, 81, 82, 83, 84, 85, 86, 87, 88, 89, 90, 91, 92, 93, 94, 95,
      96, 97, 98, 99, 100, 101, 102, 103, 104, 105, 106, 107, 108, 109, 110, 111, 112, 113, 114, 115, 116, 117, 118, 119, 120, 121, 122, 123, 124, 125, 126, 127,
      128, 129, 130, 131, 132, 133, 134, 135, 136, 137, 138, 139, 140, 141, 142, 143, 144, 145, 146, 147, 148, 149, 150, 151, 152, 153, 154, 155, 156, 157, 158, 159,
      160, 161, 162, 163, 164, 165, 166, 167, 168, 169, 170, 171, 172, 173, 174, 175, 176, 177, 178, 179, 180, 181, 182, 183, 184, 185, 186, 187, 188, 189, 190, 191,
      192, 193, 194, 195, 196, 197, 198, 199, 200, 201, 202, 203, 204, 205, 206, 207, 208, 209, 210, 211, 212, 213, 214, 215, 216, 217, 218, 219, 220, 221, 222, 223,
      224, 225, 226, 227, 228, 229, 230, 231, 232, 233, 234, 235, 236, 237, 238, 239, 240, 241, 242, 243, 244, 245, 246, 247, 248, 249, 250, 251, 252, 253, 254, 255] :: 8 word list)"
    by code_simp
  then show ?thesis by (simp add: isbox_list_def sbox_list_def)
qed

lemma isbox_sbox [simp]: "isbox (sbox x) = x"
proof -
  have x: "unat x < 256" using unsigned_less [of x] by simp
  have "isbox (sbox x) = map (\<lambda>s. isbox_list ! unat s) sbox_list ! unat x"
    using x by (simp add: isbox_def sbox_def length_boxes)
  also have "\<dots> = of_nat (unat x)" unfolding isbox_sbox_list by (subst nth_map) (use x in simp_all)
  finally show ?thesis by simp
qed

end
