(* ===== verification/RijndaelInv.thy ===== *)
theory RijndaelInv
  imports RijndaelTables
begin

text \<open>
  Decryption undoes encryption. A round of encryption substitutes the bytes and shifts the rows,
  mixes the columns and adds a round key; a round of decryption inverts the first two steps,
  unmixes the columns and adds an unmixed round key. Mixing is linear, so the unmixed key cancels
  the key of the corresponding round of encryption.
\<close>

unbundle bit_operations_syntax

section \<open>Bytes of a word\<close>

definition byte3 :: "uint \<Rightarrow> 8 word" where "byte3 w = ucast (drop_bit 24 w)"
definition byte2 :: "uint \<Rightarrow> 8 word" where "byte2 w = ucast (drop_bit 16 w)"
definition byte1 :: "uint \<Rightarrow> 8 word" where "byte1 w = ucast (drop_bit 8 w)"
definition byte0 :: "uint \<Rightarrow> 8 word" where "byte0 w = ucast w"

lemmas byte_defs = byte3_def byte2_def byte1_def byte0_def

lemma bytes_xor:
  "byte3 (x XOR y) = byte3 x XOR byte3 y" "byte2 (x XOR y) = byte2 x XOR byte2 y"
  "byte1 (x XOR y) = byte1 x XOR byte1 y" "byte0 (x XOR y) = byte0 x XOR byte0 y"
  by (rule bit_word_eqI; simp add: byte_defs bit_simps)+

lemma bytes_pack [simp]:
  "byte3 (pack a b c d) = a" "byte2 (pack a b c d) = b" "byte1 (pack a b c d) = c" "byte0 (pack a b c d) = d"
  by (rule bit_word_eqI; auto simp: byte_defs pack_def bit_simps dest: bit_imp_le_length)+

lemma pack_bytes [simp]: "pack (byte3 w) (byte2 w) (byte1 w) (byte0 w) = w"
proof (rule bit_word_eqI)
  fix n assume "n < LENGTH(32)"
  then consider "n < 8" | "8 \<le> n" "n < 16" | "16 \<le> n" "n < 24" | "24 \<le> n" "n < 32" by fastforce
  then show "bit (pack (byte3 w) (byte2 w) (byte1 w) (byte0 w)) n = bit w n"
    by cases (auto simp: byte_defs pack_def bit_simps)
qed

text \<open>The indices of the source are the bytes of the word.\<close>

lemma byte_index:
  "unat (drop_bit 24 w) = unat (byte3 w)" "unat (drop_bit 16 w AND 0xff) = unat (byte2 w)"
  "unat (drop_bit 8 w AND 0xff) = unat (byte1 w)" "unat (w AND 0xff) = unat (byte0 w)"
proof -
  have up: "unat (ucast b :: uint) = unat b" for b :: "8 word"
    using unsigned_less [of b, where ?'a = nat] by (simp add: unsigned_ucast_eq take_bit_nat_eq_self)
  have "drop_bit 24 w = ucast (byte3 w)" "drop_bit 16 w AND 0xff = ucast (byte2 w)"
    "drop_bit 8 w AND 0xff = ucast (byte1 w)" "w AND 0xff = ucast (byte0 w)"
    unfolding mask_8 byte_defs by (rule bit_word_eqI; auto simp: bit_simps dest: bit_imp_le_length)+
  then show "unat (drop_bit 24 w) = unat (byte3 w)" "unat (drop_bit 16 w AND 0xff) = unat (byte2 w)"
    "unat (drop_bit 8 w AND 0xff) = unat (byte1 w)" "unat (w AND 0xff) = unat (byte0 w)" by (simp_all only: up)
qed

lemma byte0_drop: "byte0 (drop_bit 24 w) = byte3 w" "byte0 (drop_bit 16 w) = byte2 w" "byte0 (drop_bit 8 w) = byte1 w"
  by (simp_all add: byte_defs)

lemma pack_masks:
  "pack s s s s AND 0xff000000 = pack s 0 0 0" "pack s s s s AND 0x00ff0000 = pack 0 s 0 0"
  "pack s s s s AND 0x0000ff00 = pack 0 0 s 0" "pack s s s s AND 0x000000ff = pack 0 0 0 s"
proof -
  have m: "(0xff000000 :: uint) = push_bit 24 (mask 8)" "(0x00ff0000 :: uint) = push_bit 16 (mask 8)"
    "(0x0000ff00 :: uint) = push_bit 8 (mask 8)" "(0x000000ff :: uint) = mask 8"
    by (simp_all add: mask_eq_exp_minus_1)
  show "pack s s s s AND 0xff000000 = pack s 0 0 0" "pack s s s s AND 0x00ff0000 = pack 0 s 0 0"
    "pack s s s s AND 0x0000ff00 = pack 0 0 s 0" "pack s s s s AND 0x000000ff = pack 0 0 0 s"
    unfolding pack_def m by (rule bit_word_eqI; auto simp: bit_simps dest: bit_imp_le_length)+
qed

lemma pack_split: "pack a 0 0 0 XOR pack 0 b 0 0 XOR pack 0 0 c 0 XOR pack 0 0 0 d = pack a b c d"
  by (simp add: pack_def)

section \<open>Linear maps\<close>

lemma lin_xor: "lin bs (x XOR y) = lin bs x XOR lin bs y"
  by (induction bs arbitrary: x y) (auto simp: bit_xor_iff drop_bit_xor ac_simps)

lemma additive_ext:
  fixes f g :: "uint \<Rightarrow> uint"
  assumes "\<And>x y. f (x XOR y) = f x XOR f y" and "\<And>x y. g (x XOR y) = g x XOR g y"
    and "\<And>k. k < 32 \<Longrightarrow> f (2 ^ k) = g (2 ^ k)"
  shows "f = g"
proof (rule ext)
  fix w :: uint
  have "map (\<lambda>k. f (2 ^ k)) [0..<32] = map (\<lambda>k. g (2 ^ k)) [0..<32]" using assms(3) by simp
  then have eq: "map (\<lambda>i. f (of_nat i)) [0..<2 ^ 32] = map (\<lambda>i. g (of_nat i)) [0..<2 ^ 32]"
    using xor_span_linear [OF assms(1), of 32] xor_span_linear [OF assms(2), of 32] by (simp only:)
  have "unat w < length [0..<2 ^ 32]" using unat_lt32 [of w] by (simp only: length_upt)
  then have "f (of_nat ([0..<2 ^ 32] ! unat w)) = g (of_nat ([0..<2 ^ 32] ! unat w))"
    by (metis (no_types, lifting) eq nth_map)
  moreover have "[0..<2 ^ 32] ! unat w = unat w" using unat_lt32 [of w] by (simp only: nth_upt add_0)
  ultimately show "f w = g w" by (simp only: of_nat_unat ucast_id)
qed

definition mix_word :: "uint \<Rightarrow> uint" where
  "mix_word w = lin mix0 (byte3 w) XOR lin mix1 (byte2 w) XOR lin mix2 (byte1 w) XOR lin mix3 (byte0 w)"

definition unmix_word :: "uint \<Rightarrow> uint" where
  "unmix_word w = lin unmix0 (byte3 w) XOR lin unmix1 (byte2 w) XOR lin unmix2 (byte1 w) XOR lin unmix3 (byte0 w)"

lemma mix_word_xor: "mix_word (x XOR y) = mix_word x XOR mix_word y"
  by (simp add: mix_word_def bytes_xor lin_xor ac_simps)

lemma unmix_word_xor: "unmix_word (x XOR y) = unmix_word x XOR unmix_word y"
  by (simp add: unmix_word_def bytes_xor lin_xor ac_simps)

lemma below_32: "k < 32 \<Longrightarrow> k \<in> {0, 1, 2, 3, 4, 5, 6, 7, 8, 9, 10, 11, 12, 13, 14, 15, 16, 17, 18, 19, 20, 21, 22, 23, 24, 25,
    26, 27, 28, 29, 30, 31 :: nat}"
  by (simp only: insert_iff empty_iff) arith

text \<open>Unmixing undoes mixing, on the 32 bits and so on all words.\<close>

lemma unmix_mix [simp]: "unmix_word (mix_word w) = w"
proof -
  have "(\<lambda>w. unmix_word (mix_word w)) = (\<lambda>w. w)"
  proof (rule additive_ext)
    show "unmix_word (mix_word (2 ^ k)) = 2 ^ k" if "k < 32" for k :: nat
      using below_32 [OF that]
      by (elim insertE emptyE; simp add: mix_word_def unmix_word_def byte_defs mix0_def mix1_def mix2_def mix3_def
          unmix0_def unmix1_def unmix2_def unmix3_def)
  qed (simp_all add: mix_word_xor unmix_word_xor)
  then show ?thesis by (rule fun_cong)
qed

section \<open>Columns\<close>

fun xor_cols :: "cols \<Rightarrow> cols \<Rightarrow> cols" where
  "xor_cols (a, b, c, d) (a', b', c', d') = (a XOR a', b XOR b', c XOR c', d XOR d')"

fun map_cols :: "(uint \<Rightarrow> uint) \<Rightarrow> cols \<Rightarrow> cols" where
  "map_cols f (a, b, c, d) = (f a, f b, f c, f d)"

definition key_at :: "uint list \<Rightarrow> nat \<Rightarrow> cols" where
  "key_at rk b = (rk ! b, rk ! (b + 1), rk ! (b + 2), rk ! (b + 3))"

definition sub_word :: "uint \<Rightarrow> uint \<Rightarrow> uint \<Rightarrow> uint \<Rightarrow> uint" where
  "sub_word a b c d = pack (sbox (byte3 a)) (sbox (byte2 b)) (sbox (byte1 c)) (sbox (byte0 d))"

definition isub_word :: "uint \<Rightarrow> uint \<Rightarrow> uint \<Rightarrow> uint \<Rightarrow> uint" where
  "isub_word a b c d = pack (isbox (byte3 a)) (isbox (byte2 b)) (isbox (byte1 c)) (isbox (byte0 d))"

text \<open>Substitution of the bytes and shift of the rows, and their inverse.\<close>

fun sub_shift :: "cols \<Rightarrow> cols" where
  "sub_shift (s0, s1, s2, s3) = (sub_word s0 s1 s2 s3, sub_word s1 s2 s3 s0, sub_word s2 s3 s0 s1, sub_word s3 s0 s1 s2)"

fun inv_sub_shift :: "cols \<Rightarrow> cols" where
  "inv_sub_shift (s0, s1, s2, s3) =
     (isub_word s0 s3 s2 s1, isub_word s1 s0 s3 s2, isub_word s2 s1 s0 s3, isub_word s3 s2 s1 s0)"

lemma inv_sub_shift_sub_shift [simp]: "inv_sub_shift (sub_shift s) = s"
  by (cases s) (simp add: sub_word_def isub_word_def)

lemma xor_twice: "(x XOR k) XOR k = (x :: uint)"
  by (simp add: xor.assoc)

lemma xor_cols_twice [simp]: "xor_cols (xor_cols s k) k = s"
  by (cases s; cases k) (simp add: xor_twice)

lemma unmix_cols_cancel: "xor_cols (map_cols unmix_word (xor_cols (map_cols mix_word s) k)) (map_cols unmix_word k) = s"
  by (cases s; cases k) (simp add: unmix_word_xor xor_twice)

section \<open>Rounds\<close>

lemma nth_boxes:
  "map f sbox_list ! unat x = f (sbox x)" "map f isbox_list ! unat x = f (isbox x)"
  using unsigned_less [of x, where ?'a = nat] by (simp_all add: sbox_def isbox_def length_boxes)

lemma te_col_mix: "te_col a b c d = mix_word (sub_word a b c d)"
  by (simp only: te_col_def byte_index byte0_drop Te0_sbox Te1_sbox Te2_sbox Te3_sbox nth_boxes mix_word_def sub_word_def bytes_pack)

lemma te_last_sub: "te_last a b c d = sub_word a b c d"
  by (simp only: te_last_def byte_index byte0_drop Te4_sbox nth_boxes pack_masks pack_split sub_word_def)

lemma td_col_unmix: "td_col a b c d = unmix_word (isub_word a b c d)"
  by (simp only: td_col_def byte_index byte0_drop Td0_isbox Td1_isbox Td2_isbox Td3_isbox nth_boxes unmix_word_def isub_word_def
      bytes_pack)

lemma td_last_isub: "td_last a b c d = isub_word a b c d"
  by (simp only: td_last_def byte_index byte0_drop Td4_isbox nth_boxes pack_masks pack_split isub_word_def)

lemma inv_mix_unmix: "inv_mix w = unmix_word w"
  by (simp only: inv_mix_def byte_index byte0_drop Te4_sbox Td0_isbox Td1_isbox Td2_isbox Td3_isbox
      nth_boxes bytes_pack isbox_sbox unmix_word_def)

lemma encrypt_round_cols:
  "encrypt_round te_col rk b s = xor_cols (map_cols mix_word (sub_shift s)) (key_at rk b)"
  "encrypt_round te_last rk b s = xor_cols (sub_shift s) (key_at rk b)"
  by (cases s; simp add: encrypt_round_def key_at_def te_col_mix te_last_sub)+

lemma decrypt_round_cols:
  "decrypt_round td_col rk b s = xor_cols (map_cols unmix_word (inv_sub_shift s)) (key_at rk b)"
  "decrypt_round td_last rk b s = xor_cols (inv_sub_shift s) (key_at rk b)"
  by (cases s; simp add: decrypt_round_def key_at_def td_col_unmix td_last_isub)+

section \<open>The state after n rounds\<close>

fun enc_state :: "uint list \<Rightarrow> nat \<Rightarrow> cols \<Rightarrow> cols" where
  "enc_state rk 0 s = s"
| "enc_state rk (Suc n) s = encrypt_round te_col rk (4 * Suc n) (enc_state rk n s)"

fun dec_state :: "uint list \<Rightarrow> nat \<Rightarrow> cols \<Rightarrow> cols" where
  "dec_state rk 0 s = s"
| "dec_state rk (Suc n) s = decrypt_round td_col rk (4 * Suc n) (dec_state rk n s)"

lemma encrypt_loop_state:
  "0 < r \<Longrightarrow> encrypt_loop rk (4 * n) r (enc_state rk n s) = (enc_state rk (n + 2 * r - 1) s, 4 * (n + 2 * r))"
proof (induction r arbitrary: n)
  case (Suc r)
  have odd: "encrypt_round te_col rk (4 * n + 4) (enc_state rk n s) = enc_state rk (Suc n) s" by (simp add: ac_simps)
  have even: "encrypt_round te_col rk (4 * n + 8) (enc_state rk (Suc n) s) = enc_state rk (Suc (Suc n)) s" by (simp add: ac_simps)
  show ?case
  proof (cases "r = 0")
    case True
    then show ?thesis by (subst encrypt_loop.simps) (simp only: odd Let_def, simp)
  next
    case False
    have "encrypt_loop rk (4 * n) (Suc r) (enc_state rk n s) = encrypt_loop rk (4 * n + 8) r (enc_state rk (Suc (Suc n)) s)"
      using False by (subst encrypt_loop.simps) (simp only: odd even Let_def, simp)
    also have "4 * n + 8 = 4 * Suc (Suc n)" by simp
    finally show ?thesis using Suc.IH [of "Suc (Suc n)"] False by (simp del: enc_state.simps)
  qed
qed simp

lemma decrypt_loop_state:
  "0 < r \<Longrightarrow> decrypt_loop rk (4 * n) r (dec_state rk n s) = (dec_state rk (n + 2 * r - 1) s, 4 * (n + 2 * r))"
proof (induction r arbitrary: n)
  case (Suc r)
  have odd: "decrypt_round td_col rk (4 * n + 4) (dec_state rk n s) = dec_state rk (Suc n) s" by (simp add: ac_simps)
  have even: "decrypt_round td_col rk (4 * n + 8) (dec_state rk (Suc n) s) = dec_state rk (Suc (Suc n)) s" by (simp add: ac_simps)
  show ?case
  proof (cases "r = 0")
    case True
    then show ?thesis by (subst decrypt_loop.simps) (simp only: odd Let_def, simp)
  next
    case False
    have "decrypt_loop rk (4 * n) (Suc r) (dec_state rk n s) = decrypt_loop rk (4 * n + 8) r (dec_state rk (Suc (Suc n)) s)"
      using False by (subst decrypt_loop.simps) (simp only: odd even Let_def, simp)
    also have "4 * n + 8 = 4 * Suc (Suc n)" by simp
    finally show ?thesis using Suc.IH [of "Suc (Suc n)"] False by (simp del: dec_state.simps)
  qed
qed simp

text \<open>
  When the keys for decryption are those for encryption in reverse, unmixed but for the first and
  the last, decryption walks back through the states of encryption.
\<close>

definition reversed_keys :: "uint list \<Rightarrow> uint list \<Rightarrow> nat \<Rightarrow> bool" where
  "reversed_keys rk dk n \<longleftrightarrow> key_at dk 0 = key_at rk (4 * n) \<and> key_at dk (4 * n) = key_at rk 0 \<and>
     (\<forall>i. 0 < i \<longrightarrow> i < n \<longrightarrow> key_at dk (4 * i) = map_cols unmix_word (key_at rk (4 * (n - i))))"

lemma dec_state_enc_state:
  assumes "reversed_keys rk dk n" and "i < n"
  shows "dec_state dk i (sub_shift (enc_state rk (n - 1) s)) = sub_shift (enc_state rk (n - 1 - i) s)"
  using assms(2)
proof (induction i)
  case (Suc i)
  have "n - 1 - i = Suc (n - 1 - Suc i)" "n - Suc i = Suc (n - 1 - Suc i)" using Suc.prems by simp_all
  moreover have "key_at dk (4 * Suc i) = map_cols unmix_word (key_at rk (4 * (n - Suc i)))"
    using assms(1) Suc.prems by (simp only: reversed_keys_def)
  ultimately show ?case using Suc
    by (simp add: encrypt_round_cols decrypt_round_cols unmix_cols_cancel del: mult_Suc_right)
qed simp

section \<open>Blocks\<close>

lemma load_store_cols: "load_cols (store_cols s) rk = xor_cols s (key_at rk 0)"
proof (cases s)
  case (fields a b c d)
  have "push_bit 24 (ucast (byte3 w)) XOR push_bit 16 (ucast (byte2 w)) XOR push_bit 8 (ucast (byte1 w)) XOR ucast (byte0 w) = w" for w
    using pack_bytes [of w] by (simp only: pack_def)
  then show ?thesis
    by (simp add: fields load_cols_def store_cols_def PUTU32_def GETU32_def key_at_def byte_defs numeral_2_eq_2)
qed

lemma store_load_cols:
  assumes "length pt = 16"
  shows "store_cols (xor_cols (load_cols pt rk) (key_at rk 0)) = pt"
proof -
  have pt: "pt = map (\<lambda>i. pt ! i) [0, 1, 2, 3, 4, 5, 6, 7, 8, 9, 10, 11, 12, 13, 14, 15]"
  proof -
    have "[0..<16] = [0, 1, 2, 3, 4, 5, 6, 7, 8, 9, 10, 11, 12, 13, 14, 15 :: nat]" by code_simp
    then show ?thesis using map_nth [of pt] assms by simp
  qed
  have put: "PUTU32 (push_bit 24 (ucast a) XOR push_bit 16 (ucast b) XOR push_bit 8 (ucast c) XOR ucast d) = [a, b, c, d]" for a b c d
    using bytes_pack [of a b c d] by (simp only: PUTU32_def pack_def byte_defs)
  have "store_cols (xor_cols (load_cols pt rk) (key_at rk 0)) = map (\<lambda>i. pt ! i) [0, 1, 2, 3, 4, 5, 6, 7, 8, 9, 10, 11, 12, 13, 14, 15]"
    by (simp add: store_cols_def load_cols_def key_at_def GETU32_def put xor_twice numeral_2_eq_2)
  with pt show ?thesis by simp
qed

lemma length_store_cols [simp]: "length (store_cols s) = 16"
  by (cases s) (simp add: store_cols_def PUTU32_def)

lemma rijndael_inverse:
  assumes "reversed_keys rk dk (2 * r)" and "0 < r" and "length pt = 16"
  shows "rijndaelDecrypt dk (2 * int r) (rijndaelEncrypt rk (2 * int r) pt) = pt"
proof -
  let ?n = "2 * r"
  define s where "s = load_cols pt rk"
  have r: "nat (2 * int r) div 2 = r" by simp
  have ends: "key_at dk 0 = key_at rk (4 * ?n)" "key_at dk (4 * ?n) = key_at rk 0"
    using assms(1) by (simp_all only: reversed_keys_def)
  have enc: "rijndaelEncrypt rk (2 * int r) pt =
      store_cols (xor_cols (sub_shift (enc_state rk (?n - 1) s)) (key_at rk (4 * ?n)))"
    using encrypt_loop_state [OF assms(2), of rk 0 s]
    by (simp add: rijndaelEncrypt_def r encrypt_round_cols flip: s_def)
  have start: "load_cols (rijndaelEncrypt rk (2 * int r) pt) dk = sub_shift (enc_state rk (?n - 1) s)"
    unfolding enc load_store_cols ends(1) by simp
  have "dec_state dk (?n - 1) (sub_shift (enc_state rk (?n - 1) s)) = sub_shift s"
    using dec_state_enc_state [OF assms(1), of "?n - 1" s] assms(2) by simp
  then have "rijndaelDecrypt dk (2 * int r) (rijndaelEncrypt rk (2 * int r) pt) =
      store_cols (xor_cols (inv_sub_shift (sub_shift s)) (key_at dk (4 * ?n)))"
    using decrypt_loop_state [OF assms(2), of dk 0 "sub_shift (enc_state rk (?n - 1) s)"]
    by (simp add: rijndaelDecrypt_def r start decrypt_round_cols)
  then show ?thesis using ends(2) store_load_cols [OF assms(3), of rk] by (simp add: s_def)
qed

section \<open>The keys for decryption\<close>

lemma length_turns [simp]:
  "length (key256_turn rk b i) = length rk" "length (key256_rest rk b) = length rk"
  by (simp_all add: key256_turn_def key256_rest_def Let_def)

lemma length_key256_loop [simp]: "length (key256_loop rk b i) = length rk"
  by (induction rk b i rule: key256_loop.induct) (simp add: key256_loop.simps Let_def)

lemma length_key_setup [simp]: "length (fst (rijndaelKeySetupEnc rk key 256)) = length rk"
  by (simp add: rijndaelKeySetupEnc_def Let_def)

text \<open>Swapping and unmixing the 60 words of a 256-bit schedule, evaluated.\<close>

lemma upt_60: "[0..<60] = [0, 1, 2, 3, 4, 5, 6, 7, 8, 9, 10, 11, 12, 13, 14, 15, 16, 17, 18, 19, 20, 21, 22, 23, 24, 25, 26, 27, 28, 29, 30, 31, 32, 33, 34, 35, 36, 37, 38, 39, 40, 41, 42, 43, 44, 45, 46, 47, 48, 49, 50, 51, 52, 53, 54, 55, 56, 57, 58, 59]"
  by code_simp

lemma dec_keys_reversed:
  assumes "length rk = 60"
  shows "reversed_keys rk (foldl (\<lambda>rk i. mix_key rk (4 * i)) (swap_keys rk 0 56) [1..<14]) 14"
proof -
  define k where "k = (\<lambda>i. rk ! i)"
  have "rk = map k [0..<60]" using map_nth [of rk] assms by (simp add: k_def)
  then have rk: "rk = map k [0, 1, 2, 3, 4, 5, 6, 7, 8, 9, 10, 11, 12, 13, 14, 15, 16, 17, 18, 19, 20, 21, 22, 23, 24, 25, 26, 27, 28, 29, 30, 31, 32, 33, 34, 35, 36, 37, 38, 39, 40, 41, 42, 43, 44, 45, 46, 47, 48, 49, 50, 51, 52, 53, 54, 55, 56, 57, 58, 59]" unfolding upt_60 .
  have upt: "[1..<14] = [1, 2, 3, 4, 5, 6, 7, 8, 9, 10, 11, 12, 13 :: nat]" by code_simp
  have swapped: "swap_keys rk 0 56 = map k [56, 57, 58, 59, 52, 53, 54, 55, 48, 49, 50, 51, 44, 45, 46, 47, 40, 41, 42, 43, 36, 37, 38, 39, 32, 33, 34, 35, 28, 29, 30, 31, 24, 25, 26, 27, 20, 21, 22, 23, 16, 17, 18, 19, 12, 13, 14, 15, 8, 9, 10, 11, 4, 5, 6, 7, 0, 1, 2, 3]"
    unfolding rk by (simp add: swap_keys.simps swap_key_def)
  have mixed: "foldl (\<lambda>rk i. mix_key rk (4 * i)) (swap_keys rk 0 56) [1..<14] =
     [k 56, k 57, k 58, k 59,
      unmix_word (k 52), unmix_word (k 53), unmix_word (k 54), unmix_word (k 55),
      unmix_word (k 48), unmix_word (k 49), unmix_word (k 50), unmix_word (k 51),
      unmix_word (k 44), unmix_word (k 45), unmix_word (k 46), unmix_word (k 47),
      unmix_word (k 40), unmix_word (k 41), unmix_word (k 42), unmix_word (k 43),
      unmix_word (k 36), unmix_word (k 37), unmix_word (k 38), unmix_word (k 39),
      unmix_word (k 32), unmix_word (k 33), unmix_word (k 34), unmix_word (k 35),
      unmix_word (k 28), unmix_word (k 29), unmix_word (k 30), unmix_word (k 31),
      unmix_word (k 24), unmix_word (k 25), unmix_word (k 26), unmix_word (k 27),
      unmix_word (k 20), unmix_word (k 21), unmix_word (k 22), unmix_word (k 23),
      unmix_word (k 16), unmix_word (k 17), unmix_word (k 18), unmix_word (k 19),
      unmix_word (k 12), unmix_word (k 13), unmix_word (k 14), unmix_word (k 15),
      unmix_word (k 8), unmix_word (k 9), unmix_word (k 10), unmix_word (k 11),
      unmix_word (k 4), unmix_word (k 5), unmix_word (k 6), unmix_word (k 7),
      k 0, k 1, k 2, k 3]"
    unfolding swapped upt by (simp add: mix_key_def inv_mix_unmix)
  have range: "i \<in> {1, 2, 3, 4, 5, 6, 7, 8, 9, 10, 11, 12, 13}" if "0 < i" "i < 14" for i :: nat
    using that by (simp only: insert_iff empty_iff) arith
  show ?thesis
    unfolding reversed_keys_def mixed
  proof (intro conjI allI impI)
    fix i :: nat
    assume "0 < i" "i < 14"
    from range [OF this] show "key_at [k 56, k 57, k 58, k 59,
        unmix_word (k 52), unmix_word (k 53), unmix_word (k 54), unmix_word (k 55),
        unmix_word (k 48), unmix_word (k 49), unmix_word (k 50), unmix_word (k 51),
        unmix_word (k 44), unmix_word (k 45), unmix_word (k 46), unmix_word (k 47),
        unmix_word (k 40), unmix_word (k 41), unmix_word (k 42), unmix_word (k 43),
        unmix_word (k 36), unmix_word (k 37), unmix_word (k 38), unmix_word (k 39),
        unmix_word (k 32), unmix_word (k 33), unmix_word (k 34), unmix_word (k 35),
        unmix_word (k 28), unmix_word (k 29), unmix_word (k 30), unmix_word (k 31),
        unmix_word (k 24), unmix_word (k 25), unmix_word (k 26), unmix_word (k 27),
        unmix_word (k 20), unmix_word (k 21), unmix_word (k 22), unmix_word (k 23),
        unmix_word (k 16), unmix_word (k 17), unmix_word (k 18), unmix_word (k 19),
        unmix_word (k 12), unmix_word (k 13), unmix_word (k 14), unmix_word (k 15),
        unmix_word (k 8), unmix_word (k 9), unmix_word (k 10), unmix_word (k 11),
        unmix_word (k 4), unmix_word (k 5), unmix_word (k 6), unmix_word (k 7),
        k 0, k 1, k 2, k 3] (4 * i) = map_cols unmix_word (key_at rk (4 * (14 - i)))"
      by (elim insertE emptyE; simp add: key_at_def k_def)
  qed (simp_all add: key_at_def k_def numeral_2_eq_2)
qed

section \<open>Properties\<close>

text \<open>
  The block cipher is invertible: for every 256-bit key and every block of 16 bytes, decryption
  with the keys that \<open>rijndaelKeySetupDec\<close> makes of the key undoes encryption with those of
  \<open>rijndaelKeySetupEnc\<close>. The tables of the two directions fit together in all 256 entries.
\<close>

lemma rijndael_round_trip:
  assumes "length rk = 60" and "length pt = 16"
    and "rijndaelKeySetupEnc rk cipherKey 256 = (ek, nr)" and "rijndaelKeySetupDec rk cipherKey 256 = (dk, nr')"
  shows "rijndaelDecrypt dk nr' (rijndaelEncrypt ek nr pt) = pt"
proof -
  have nr: "nr = 14" using assms(3) by (simp add: rijndaelKeySetupEnc_def Let_def)
  have "length ek = 60" using length_key_setup [of rk cipherKey] assms(1,3) by simp
  moreover have "nr' = 14" "dk = foldl (\<lambda>rk i. mix_key rk (4 * i)) (swap_keys ek 0 56) [1..<14]"
    using assms(3,4) nr by (simp_all add: rijndaelKeySetupDec_def)
  ultimately show ?thesis
    using rijndael_inverse [of ek dk 7 pt] dec_keys_reversed [of ek] assms(2) nr by simp
qed


lemma rijndael_round_trip_witness:
  "rijndaelDecrypt (fst (rijndaelKeySetupDec (replicate 60 0) (replicate 32 1) 256)) 14
     (rijndaelEncrypt (fst (rijndaelKeySetupEnc (replicate 60 0) (replicate 32 1) 256)) 14 (replicate 16 7)) = replicate 16 7"
proof -
  have nr: "snd (rijndaelKeySetupEnc (replicate 60 0) (replicate 32 1) 256) = 14"
    "snd (rijndaelKeySetupDec (replicate 60 0) (replicate 32 1) 256) = 14"
    by (simp_all add: rijndaelKeySetupDec_def rijndaelKeySetupEnc_def Let_def)
  show ?thesis
    using rijndael_round_trip [of "replicate 60 0" "replicate 16 7" "replicate 32 1", OF _ _ prod.collapse [symmetric] prod.collapse [symmetric]]
    by (simp only: nr length_replicate)
qed

end
