(* ===== verification/HashJenkins.thy ===== *)
theory HashJenkins
  imports HashBasic
begin

text \<open>
  Bob Jenkins' hash of \<open>jenkins.cc\<close>. The function looks at the address of the key and has three
  copies of the algorithm: one that loads 32-bit words, one that loads 16-bit words and one that
  loads bytes. The first reads whole words at the end of the key and masks what lies behind it,
  so the model has the memory around the key: a byte for every address.

  The lemmas show that the three copies compute the same function of the bytes of the key,
  wherever the key lies and whatever surrounds it.
\<close>

type_synonym memory = "nat \<Rightarrow> 8 word"
type_synonym abc = "uint \<times> uint \<times> uint"

section \<open>Mixing\<close>

definition rot :: "uint \<Rightarrow> nat \<Rightarrow> uint" where
  "rot x k = push_bit k x OR drop_bit (32 - k) x"

fun mix :: "abc \<Rightarrow> abc" where
  "mix (a, b, c) =
     (let a = (a - c) XOR rot c 4; c = c + b;
          b = (b - a) XOR rot a 6; a = a + c;
          c = (c - b) XOR rot b 8; b = b + a;
          a = (a - c) XOR rot c 16; c = c + b;
          b = (b - a) XOR rot a 19; a = a + c;
          c = (c - b) XOR rot b 4; b = b + a
      in (a, b, c))"

fun final :: "abc \<Rightarrow> uint" where
  "final (a, b, c) =
     (let c = (c XOR b) - rot b 14;
          a = (a XOR c) - rot c 11;
          b = (b XOR a) - rot a 25;
          c = (c XOR b) - rot b 16;
          a = (a XOR c) - rot c 4;
          b = (b XOR a) - rot a 14
      in (c XOR b) - rot b 24)"

declare mix.simps [simp del] final.simps [simp del]

definition JENKINS_INITVAL :: uint where
  "JENKINS_INITVAL = 13"

section \<open>Loads\<close>

definition load32 :: "memory \<Rightarrow> nat \<Rightarrow> uint" where
  "load32 m p = le32 (m p) (m (p + 1)) (m (p + 2)) (m (p + 3))"

definition load16 :: "memory \<Rightarrow> nat \<Rightarrow> uint" where
  "load16 m p = ucast (m p) OR push_bit 8 (ucast (m (p + 1)))"

definition load8 :: "memory \<Rightarrow> nat \<Rightarrow> uint" where
  "load8 m p = ucast (m p)"

section \<open>The three copies\<close>

text \<open>What a round of the loop adds to the state, by the width of the loads.\<close>

fun add_words :: "memory \<Rightarrow> nat \<Rightarrow> abc \<Rightarrow> abc" where
  "add_words m p (a, b, c) = (a + load32 m p, b + load32 m (p + 4), c + load32 m (p + 8))"

fun add_halves :: "memory \<Rightarrow> nat \<Rightarrow> abc \<Rightarrow> abc" where
  "add_halves m p (a, b, c) =
     (a + (load16 m p + push_bit 16 (load16 m (p + 2))),
      b + (load16 m (p + 4) + push_bit 16 (load16 m (p + 6))),
      c + (load16 m (p + 8) + push_bit 16 (load16 m (p + 10))))"

fun add_bytes :: "memory \<Rightarrow> nat \<Rightarrow> abc \<Rightarrow> abc" where
  "add_bytes m p (a, b, c) =
     (a + load8 m p + push_bit 8 (load8 m (p + 1)) + push_bit 16 (load8 m (p + 2)) + push_bit 24 (load8 m (p + 3)),
      b + load8 m (p + 4) + push_bit 8 (load8 m (p + 5)) + push_bit 16 (load8 m (p + 6)) + push_bit 24 (load8 m (p + 7)),
      c + load8 m (p + 8) + push_bit 8 (load8 m (p + 9)) + push_bit 16 (load8 m (p + 10)) + push_bit 24 (load8 m (p + 11)))"

text \<open>The loops over all blocks but the last: where they end, what is left, and the state.\<close>

fun jenkins_loop :: "(memory \<Rightarrow> nat \<Rightarrow> abc \<Rightarrow> abc) \<Rightarrow> memory \<Rightarrow> nat \<Rightarrow> nat \<Rightarrow> abc \<Rightarrow> nat \<times> nat \<times> abc" where
  "jenkins_loop add m p len s =
     (if 12 < len then jenkins_loop add m (p + 12) (len - 12) (mix (add m p s)) else (p, len, s))"

declare jenkins_loop.simps [simp del]

text \<open>The last block, of at most twelve bytes: one \<open>case\<close> of the source per length.\<close>

fun last_words :: "memory \<Rightarrow> nat \<Rightarrow> nat \<Rightarrow> abc \<Rightarrow> abc" where
  "last_words m p len (a, b, c) =
     (let k0 = load32 m p; k1 = load32 m (p + 4); k2 = load32 m (p + 8)
      in if len = 12 then (a + k0, b + k1, c + k2)
         else if len = 11 then (a + k0, b + k1, c + (k2 AND 0xffffff))
         else if len = 10 then (a + k0, b + k1, c + (k2 AND 0xffff))
         else if len = 9 then (a + k0, b + k1, c + (k2 AND 0xff))
         else if len = 8 then (a + k0, b + k1, c)
         else if len = 7 then (a + k0, b + (k1 AND 0xffffff), c)
         else if len = 6 then (a + k0, b + (k1 AND 0xffff), c)
         else if len = 5 then (a + k0, b + (k1 AND 0xff), c)
         else if len = 4 then (a + k0, b, c)
         else if len = 3 then (a + (k0 AND 0xffffff), b, c)
         else if len = 2 then (a + (k0 AND 0xffff), b, c)
         else (a + (k0 AND 0xff), b, c))"

fun last_halves :: "memory \<Rightarrow> nat \<Rightarrow> nat \<Rightarrow> abc \<Rightarrow> abc" where
  "last_halves m p len (a, b, c) =
     (let k0 = load16 m p + push_bit 16 (load16 m (p + 2));
          k2 = load16 m (p + 4) + push_bit 16 (load16 m (p + 6))
      in if len = 12 then (a + k0, b + k2, c + (load16 m (p + 8) + push_bit 16 (load16 m (p + 10))))
         else if len = 11 then (a + k0, b + k2, c + push_bit 16 (load8 m (p + 10)) + load16 m (p + 8))
         else if len = 10 then (a + k0, b + k2, c + load16 m (p + 8))
         else if len = 9 then (a + k0, b + k2, c + load8 m (p + 8))
         else if len = 8 then (a + k0, b + k2, c)
         else if len = 7 then (a + k0, b + push_bit 16 (load8 m (p + 6)) + load16 m (p + 4), c)
         else if len = 6 then (a + k0, b + load16 m (p + 4), c)
         else if len = 5 then (a + k0, b + load8 m (p + 4), c)
         else if len = 4 then (a + k0, b, c)
         else if len = 3 then (a + push_bit 16 (load8 m (p + 2)) + load16 m p, b, c)
         else if len = 2 then (a + load16 m p, b, c)
         else (a + load8 m p, b, c))"

text \<open>Here every \<open>case\<close> falls through to the next: a byte is added when the length reaches it.\<close>

fun last_bytes :: "memory \<Rightarrow> nat \<Rightarrow> nat \<Rightarrow> abc \<Rightarrow> abc" where
  "last_bytes m p len (a, b, c) =
     (let c = (if 12 \<le> len then c + push_bit 24 (load8 m (p + 11)) else c);
          c = (if 11 \<le> len then c + push_bit 16 (load8 m (p + 10)) else c);
          c = (if 10 \<le> len then c + push_bit 8 (load8 m (p + 9)) else c);
          c = (if 9 \<le> len then c + load8 m (p + 8) else c);
          b = (if 8 \<le> len then b + push_bit 24 (load8 m (p + 7)) else b);
          b = (if 7 \<le> len then b + push_bit 16 (load8 m (p + 6)) else b);
          b = (if 6 \<le> len then b + push_bit 8 (load8 m (p + 5)) else b);
          b = (if 5 \<le> len then b + load8 m (p + 4) else b);
          a = (if 4 \<le> len then a + push_bit 24 (load8 m (p + 3)) else a);
          a = (if 3 \<le> len then a + push_bit 16 (load8 m (p + 2)) else a);
          a = (if 2 \<le> len then a + push_bit 8 (load8 m (p + 1)) else a)
      in (a + load8 m p, b, c))"

text \<open>A copy of the algorithm: the loop, the last block unless nothing is left, the final mix.\<close>

definition jenkins_copy ::
  "(memory \<Rightarrow> nat \<Rightarrow> abc \<Rightarrow> abc) \<Rightarrow> (memory \<Rightarrow> nat \<Rightarrow> nat \<Rightarrow> abc \<Rightarrow> abc) \<Rightarrow> memory \<Rightarrow> nat \<Rightarrow> nat \<Rightarrow> abc \<Rightarrow> uint" where
  "jenkins_copy add fin m p len s =
     (case jenkins_loop add m p len s of
        (p, len, a, b, c) \<Rightarrow> if len = 0 then c else final (fin m p len (a, b, c)))"

definition hashkit_jenkins :: "memory \<Rightarrow> nat \<Rightarrow> nat \<Rightarrow> uint" where
  "hashkit_jenkins m key len =
     (let i = 0xdeadbeef + of_nat len + JENKINS_INITVAL
      in if key mod 4 = 0 then jenkins_copy add_words last_words m key len (i, i, i)
         else if key mod 2 = 0 then jenkins_copy add_halves last_halves m key len (i, i, i)
         else jenkins_copy add_bytes last_bytes m key len (i, i, i))"

section \<open>The reference\<close>

text \<open>
  On the bytes of the key alone: blocks of three little-endian words, the last one padded with
  zeros.
\<close>

definition word_at :: "bytes \<Rightarrow> nat \<Rightarrow> uint" where
  "word_at key i =
     (let byte = (\<lambda>j. if j < length key then key ! j else 0)
      in le32 (byte i) (byte (i + 1)) (byte (i + 2)) (byte (i + 3)))"

fun add_block :: "bytes \<Rightarrow> abc \<Rightarrow> abc" where
  "add_block key (a, b, c) = (a + word_at key 0, b + word_at key 4, c + word_at key 8)"

fun jenkins_pass :: "bytes \<Rightarrow> abc \<Rightarrow> uint" where
  "jenkins_pass key s =
     (if 12 < length key then jenkins_pass (drop 12 key) (mix (add_block key s))
      else if key = [] then snd (snd s) else final (add_block key s))"

declare jenkins_pass.simps [simp del]

definition jenkins_reference :: "bytes \<Rightarrow> uint" where
  "jenkins_reference key = (let i = 0xdeadbeef + of_nat (length key) + JENKINS_INITVAL in jenkins_pass key (i, i, i))"

definition key_bytes :: "memory \<Rightarrow> nat \<Rightarrow> nat \<Rightarrow> bytes" where
  "key_bytes m p len = map (\<lambda>i. m (p + i)) [0..<len]"

section \<open>Words from bytes\<close>

lemma le32_mask:
  "le32 b0 b1 b2 b3 AND 0xffffff = le32 b0 b1 b2 0"
  "le32 b0 b1 b2 b3 AND 0xffff = le32 b0 b1 0 0"
  "le32 b0 b1 b2 b3 AND 0xff = le32 b0 0 0 0"
proof -
  have m: "(0xffffff :: uint) = mask 24" "(0xffff :: uint) = mask 16" "(0xff :: uint) = mask 8"
    by (simp_all add: mask_eq_exp_minus_1)
  show "le32 b0 b1 b2 b3 AND 0xffffff = le32 b0 b1 b2 0" "le32 b0 b1 b2 b3 AND 0xffff = le32 b0 b1 0 0"
    "le32 b0 b1 b2 b3 AND 0xff = le32 b0 0 0 0"
    unfolding le32_def m by (rule bit_word_eqI; auto simp: bit_simps dest: bit_imp_le_length)+
qed

lemma le32_sum: "le32 b0 b1 b2 b3 = ucast b0 + push_bit 8 (ucast b1) + push_bit 16 (ucast b2) + push_bit 24 (ucast b3)"
proof -
  let ?w = "\<lambda>n b. push_bit n (ucast (b :: 8 word)) :: uint"
  have "ucast b0 + ?w 8 b1 = ucast b0 OR ?w 8 b1"
    by (rule disjunctive_add_eq_or) (rule bit_word_eqI, auto simp: bit_simps dest: bit_imp_le_length)
  moreover have "(ucast b0 OR ?w 8 b1) + ?w 16 b2 = ucast b0 OR ?w 8 b1 OR ?w 16 b2"
    by (subst disjunctive_add_eq_or) (rule bit_word_eqI, auto simp: bit_simps ac_simps dest: bit_imp_le_length)
  moreover have "(ucast b0 OR ?w 8 b1 OR ?w 16 b2) + ?w 24 b3 = ucast b0 OR ?w 8 b1 OR ?w 16 b2 OR ?w 24 b3"
    by (subst disjunctive_add_eq_or) (rule bit_word_eqI, auto simp: bit_simps ac_simps dest: bit_imp_le_length)
  ultimately show ?thesis by (simp add: le32_def)
qed

lemma load_sums:
  "load32 m p = load8 m p + push_bit 8 (load8 m (p + 1)) + push_bit 16 (load8 m (p + 2)) + push_bit 24 (load8 m (p + 3))"
  "load16 m p = load8 m p + push_bit 8 (load8 m (p + 1))"
proof -
  show "load32 m p = load8 m p + push_bit 8 (load8 m (p + 1)) + push_bit 16 (load8 m (p + 2)) + push_bit 24 (load8 m (p + 3))"
    by (simp add: load32_def load8_def le32_sum)
  have "load16 m p = le32 (m p) (m (p + 1)) 0 0" by (simp add: load16_def le32_def)
  then show "load16 m p = load8 m p + push_bit 8 (load8 m (p + 1))" by (simp add: load8_def le32_sum)
qed

lemma load32_mask:
  "load32 m p AND 0xffffff = load8 m p + push_bit 8 (load8 m (p + 1)) + push_bit 16 (load8 m (p + 2))"
  "load32 m p AND 0xffff = load8 m p + push_bit 8 (load8 m (p + 1))"
  "load32 m p AND 0xff = load8 m p"
  by (simp_all add: load32_def load8_def le32_mask) (simp_all add: le32_sum)

lemma offsets:
  "p + 2 + 1 = p + (3 :: nat)" "p + 4 + 1 = p + (5 :: nat)" "p + 4 + 2 = p + (6 :: nat)" "p + 4 + 3 = p + (7 :: nat)"
  "p + 6 + 1 = p + (7 :: nat)" "p + 8 + 1 = p + (9 :: nat)" "p + 8 + 2 = p + (10 :: nat)" "p + 8 + 3 = p + (11 :: nat)"
  "p + 10 + 1 = p + (11 :: nat)"
  by simp_all

text \<open>All the loads of a block, as sums of its bytes.\<close>

lemmas block_loads = load_sums push_bit_add push_bit_push_bit offsets

lemma add_same: "add_halves = add_words" "add_bytes = add_words"
  by (simp_all only: fun_eq_iff split_paired_All add_halves.simps add_words.simps add_bytes.simps block_loads)
    (simp_all add: ac_simps)

lemma length_key_bytes [simp]: "length (key_bytes m p len) = len"
  by (simp add: key_bytes_def)

lemma drop_key_bytes: "drop n (key_bytes m p len) = key_bytes m (p + n) (len - n)"
  by (rule nth_equalityI) (auto simp: key_bytes_def add.assoc less_diff_conv add.commute [of n])

lemma word_at_key_bytes:
  "word_at (key_bytes m p len) i =
     (if i < len then load8 m (p + i) else 0) + (if i + 1 < len then push_bit 8 (load8 m (p + (i + 1))) else 0) +
     (if i + 2 < len then push_bit 16 (load8 m (p + (i + 2))) else 0) +
     (if i + 3 < len then push_bit 24 (load8 m (p + (i + 3))) else 0)"
  by (simp add: word_at_def Let_def le32_sum key_bytes_def load8_def)

lemma add_words_key_bytes: "12 \<le> len \<Longrightarrow> add_words m p s = add_block (key_bytes m p len) s"
  by (cases s, simp only: add_words.simps add_block.simps word_at_key_bytes block_loads) (simp add: ac_simps)

lemma upto_12: "0 < len \<Longrightarrow> len \<le> 12 \<Longrightarrow> len \<in> {1, 2, 3, 4, 5, 6, 7, 8, 9, 10, 11, 12 :: nat}"
  by (simp only: insert_iff empty_iff) arith

lemma last_same:
  assumes "0 < len" "len \<le> 12"
  shows "last_words m p len (a, b, c) = add_block (key_bytes m p len) (a, b, c) \<and>
    last_halves m p len (a, b, c) = add_block (key_bytes m p len) (a, b, c) \<and>
    last_bytes m p len (a, b, c) = add_block (key_bytes m p len) (a, b, c)"
  by (insert upto_12 [OF assms], elim insertE emptyE;
      simp only: last_words.simps last_halves.simps last_bytes.simps add_block.simps word_at_key_bytes load32_mask Let_def)
    (simp_all only: block_loads, simp_all add: ac_simps)

section \<open>The copies agree\<close>

text \<open>Any copy whose loop and last block add the bytes of the key runs the reference.\<close>

lemma jenkins_copy_pass:
  assumes fin: "\<And>p len a b c. 0 < len \<Longrightarrow> len \<le> 12 \<Longrightarrow> fin m p len (a, b, c) = add_block (key_bytes m p len) (a, b, c)"
  shows "jenkins_copy add_words fin m p len s = jenkins_pass (key_bytes m p len) s"
proof (induction len arbitrary: p s rule: less_induct)
  case (less len)
  obtain a b c where s: "s = (a, b, c)" by (cases s)
  show ?case
  proof (cases "12 < len")
    case True
    then have "jenkins_copy add_words fin m p len s = jenkins_copy add_words fin m (p + 12) (len - 12) (mix (add_words m p s))"
      by (subst jenkins_copy_def, subst jenkins_loop.simps) (simp add: jenkins_copy_def)
    also have "\<dots> = jenkins_pass (key_bytes m (p + 12) (len - 12)) (mix (add_words m p s))"
      using True by (intro less) simp
    finally show ?thesis
      using True add_words_key_bytes [of len m p s] by (subst jenkins_pass.simps) (simp add: drop_key_bytes)
  next
    case False
    have "key_bytes m p len = [] \<longleftrightarrow> len = 0" by (simp flip: length_0_conv)
    with False fin [of len p a b c] s show ?thesis
      by (subst jenkins_pass.simps) (simp add: jenkins_copy_def jenkins_loop.simps [of _ _ _ len])
  qed
qed

section \<open>Properties\<close>

text \<open>
  C37. The three copies of Jenkins' hash agree: the hash of a key depends on its bytes only,
  whatever the alignment of its address and whatever bytes follow it, and it is the hash of
  the key in zero-padded little-endian blocks.
\<close>

theorem hashkit_jenkins_reference:
  "hashkit_jenkins m key len = jenkins_reference (key_bytes m key len)"
proof -
  have "jenkins_copy add_words last_words m key len s = jenkins_pass (key_bytes m key len) s"
    "jenkins_copy add_halves last_halves m key len s = jenkins_pass (key_bytes m key len) s"
    "jenkins_copy add_bytes last_bytes m key len s = jenkins_pass (key_bytes m key len) s" for s
    unfolding add_same using last_same by (intro jenkins_copy_pass; blast)+
  then show ?thesis by (simp add: hashkit_jenkins_def jenkins_reference_def Let_def)
qed

end
