(* ===== verification/HashMd5.thy ===== *)
theory HashMd5
  imports HashBasic
begin

text \<open>
  The MD5 digest of \<open>md5.cc\<close>, as the client library uses it to hash keys: the context with its
  64-byte buffer, the block transformation with its 64 unrolled lines, the update that buffers
  input until a block is full, and the finalization that pads the message. A message handed to
  \<open>MD5Update\<close> is its list of bytes, its length an \<open>unsigned int\<close>.

  The lemmas show that the unrolled transformation is the loop of the published algorithm, that
  a context always stands for the message fed into it so far, and that the digest is the
  published one: padding and length appended to the message, then one transformation per block.
\<close>

unbundle bit_operations_syntax

type_synonym md5_state = "uint \<times> uint \<times> uint \<times> uint"

section \<open>Context\<close>

record MD5_CTX =
  md5_st :: md5_state
  md5_count0 :: uint
  md5_count1 :: uint
  md5_buffer :: bytes

section \<open>Lines of the transformation\<close>

abbreviation (input) S11 :: nat where
  "S11 \<equiv> 7"

abbreviation (input) S12 :: nat where
  "S12 \<equiv> 12"

abbreviation (input) S13 :: nat where
  "S13 \<equiv> 17"

abbreviation (input) S14 :: nat where
  "S14 \<equiv> 22"

abbreviation (input) S21 :: nat where
  "S21 \<equiv> 5"

abbreviation (input) S22 :: nat where
  "S22 \<equiv> 9"

abbreviation (input) S23 :: nat where
  "S23 \<equiv> 14"

abbreviation (input) S24 :: nat where
  "S24 \<equiv> 20"

abbreviation (input) S31 :: nat where
  "S31 \<equiv> 4"

abbreviation (input) S32 :: nat where
  "S32 \<equiv> 11"

abbreviation (input) S33 :: nat where
  "S33 \<equiv> 16"

abbreviation (input) S34 :: nat where
  "S34 \<equiv> 23"

abbreviation (input) S41 :: nat where
  "S41 \<equiv> 6"

abbreviation (input) S42 :: nat where
  "S42 \<equiv> 10"

abbreviation (input) S43 :: nat where
  "S43 \<equiv> 15"

abbreviation (input) S44 :: nat where
  "S44 \<equiv> 21"

definition md5_F :: "uint \<Rightarrow> uint \<Rightarrow> uint \<Rightarrow> uint" where
  "md5_F x y z = (x AND y) OR (NOT x AND z)"

definition md5_G :: "uint \<Rightarrow> uint \<Rightarrow> uint \<Rightarrow> uint" where
  "md5_G x y z = (x AND z) OR (y AND NOT z)"

definition md5_H :: "uint \<Rightarrow> uint \<Rightarrow> uint \<Rightarrow> uint" where
  "md5_H x y z = x XOR y XOR z"

definition md5_I :: "uint \<Rightarrow> uint \<Rightarrow> uint \<Rightarrow> uint" where
  "md5_I x y z = y XOR (x OR NOT z)"

definition ROTATE_LEFT :: "uint \<Rightarrow> nat \<Rightarrow> uint" where
  "ROTATE_LEFT x n = push_bit n x OR drop_bit (32 - n) x"

definition FF :: "uint \<Rightarrow> uint \<Rightarrow> uint \<Rightarrow> uint \<Rightarrow> uint \<Rightarrow> nat \<Rightarrow> uint \<Rightarrow> uint" where
  "FF a b c d x s ac = ROTATE_LEFT (a + (md5_F b c d + x + ac)) s + b"

definition GG :: "uint \<Rightarrow> uint \<Rightarrow> uint \<Rightarrow> uint \<Rightarrow> uint \<Rightarrow> nat \<Rightarrow> uint \<Rightarrow> uint" where
  "GG a b c d x s ac = ROTATE_LEFT (a + (md5_G b c d + x + ac)) s + b"

definition HH :: "uint \<Rightarrow> uint \<Rightarrow> uint \<Rightarrow> uint \<Rightarrow> uint \<Rightarrow> nat \<Rightarrow> uint \<Rightarrow> uint" where
  "HH a b c d x s ac = ROTATE_LEFT (a + (md5_H b c d + x + ac)) s + b"

definition II :: "uint \<Rightarrow> uint \<Rightarrow> uint \<Rightarrow> uint \<Rightarrow> uint \<Rightarrow> nat \<Rightarrow> uint \<Rightarrow> uint" where
  "II a b c d x s ac = ROTATE_LEFT (a + (md5_I b c d + x + ac)) s + b"

section \<open>Encoding\<close>

fun Decode :: "bytes \<Rightarrow> uint list" where
  "Decode (b0 # b1 # b2 # b3 # input) = le32 b0 b1 b2 b3 # Decode input"
| "Decode _ = []"

fun Encode :: "uint list \<Rightarrow> bytes" where
  "Encode [] = []"
| "Encode (w # input) =
     ucast (w AND 0xff) # ucast (drop_bit 8 w AND 0xff) # ucast (drop_bit 16 w AND 0xff) #
     ucast (drop_bit 24 w AND 0xff) # Encode input"

section \<open>The block transformation\<close>

definition md5_round1 :: "uint list \<Rightarrow> md5_state \<Rightarrow> md5_state" where
  "md5_round1 x st =
     (case st of (a, b, c, d) \<Rightarrow>
      let a = FF a b c d (x ! 0) S11 0xd76aa478;
          d = FF d a b c (x ! 1) S12 0xe8c7b756;
          c = FF c d a b (x ! 2) S13 0x242070db;
          b = FF b c d a (x ! 3) S14 0xc1bdceee;
          a = FF a b c d (x ! 4) S11 0xf57c0faf;
          d = FF d a b c (x ! 5) S12 0x4787c62a;
          c = FF c d a b (x ! 6) S13 0xa8304613;
          b = FF b c d a (x ! 7) S14 0xfd469501;
          a = FF a b c d (x ! 8) S11 0x698098d8;
          d = FF d a b c (x ! 9) S12 0x8b44f7af;
          c = FF c d a b (x ! 10) S13 0xffff5bb1;
          b = FF b c d a (x ! 11) S14 0x895cd7be;
          a = FF a b c d (x ! 12) S11 0x6b901122;
          d = FF d a b c (x ! 13) S12 0xfd987193;
          c = FF c d a b (x ! 14) S13 0xa679438e;
          b = FF b c d a (x ! 15) S14 0x49b40821
      in (a, b, c, d))"

definition md5_round2 :: "uint list \<Rightarrow> md5_state \<Rightarrow> md5_state" where
  "md5_round2 x st =
     (case st of (a, b, c, d) \<Rightarrow>
      let a = GG a b c d (x ! 1) S21 0xf61e2562;
          d = GG d a b c (x ! 6) S22 0xc040b340;
          c = GG c d a b (x ! 11) S23 0x265e5a51;
          b = GG b c d a (x ! 0) S24 0xe9b6c7aa;
          a = GG a b c d (x ! 5) S21 0xd62f105d;
          d = GG d a b c (x ! 10) S22 0x2441453;
          c = GG c d a b (x ! 15) S23 0xd8a1e681;
          b = GG b c d a (x ! 4) S24 0xe7d3fbc8;
          a = GG a b c d (x ! 9) S21 0x21e1cde6;
          d = GG d a b c (x ! 14) S22 0xc33707d6;
          c = GG c d a b (x ! 3) S23 0xf4d50d87;
          b = GG b c d a (x ! 8) S24 0x455a14ed;
          a = GG a b c d (x ! 13) S21 0xa9e3e905;
          d = GG d a b c (x ! 2) S22 0xfcefa3f8;
          c = GG c d a b (x ! 7) S23 0x676f02d9;
          b = GG b c d a (x ! 12) S24 0x8d2a4c8a
      in (a, b, c, d))"

definition md5_round3 :: "uint list \<Rightarrow> md5_state \<Rightarrow> md5_state" where
  "md5_round3 x st =
     (case st of (a, b, c, d) \<Rightarrow>
      let a = HH a b c d (x ! 5) S31 0xfffa3942;
          d = HH d a b c (x ! 8) S32 0x8771f681;
          c = HH c d a b (x ! 11) S33 0x6d9d6122;
          b = HH b c d a (x ! 14) S34 0xfde5380c;
          a = HH a b c d (x ! 1) S31 0xa4beea44;
          d = HH d a b c (x ! 4) S32 0x4bdecfa9;
          c = HH c d a b (x ! 7) S33 0xf6bb4b60;
          b = HH b c d a (x ! 10) S34 0xbebfbc70;
          a = HH a b c d (x ! 13) S31 0x289b7ec6;
          d = HH d a b c (x ! 0) S32 0xeaa127fa;
          c = HH c d a b (x ! 3) S33 0xd4ef3085;
          b = HH b c d a (x ! 6) S34 0x4881d05;
          a = HH a b c d (x ! 9) S31 0xd9d4d039;
          d = HH d a b c (x ! 12) S32 0xe6db99e5;
          c = HH c d a b (x ! 15) S33 0x1fa27cf8;
          b = HH b c d a (x ! 2) S34 0xc4ac5665
      in (a, b, c, d))"

definition md5_round4 :: "uint list \<Rightarrow> md5_state \<Rightarrow> md5_state" where
  "md5_round4 x st =
     (case st of (a, b, c, d) \<Rightarrow>
      let a = II a b c d (x ! 0) S41 0xf4292244;
          d = II d a b c (x ! 7) S42 0x432aff97;
          c = II c d a b (x ! 14) S43 0xab9423a7;
          b = II b c d a (x ! 5) S44 0xfc93a039;
          a = II a b c d (x ! 12) S41 0x655b59c3;
          d = II d a b c (x ! 3) S42 0x8f0ccc92;
          c = II c d a b (x ! 10) S43 0xffeff47d;
          b = II b c d a (x ! 1) S44 0x85845dd1;
          a = II a b c d (x ! 8) S41 0x6fa87e4f;
          d = II d a b c (x ! 15) S42 0xfe2ce6e0;
          c = II c d a b (x ! 6) S43 0xa3014314;
          b = II b c d a (x ! 13) S44 0x4e0811a1;
          a = II a b c d (x ! 4) S41 0xf7537e82;
          d = II d a b c (x ! 11) S42 0xbd3af235;
          c = II c d a b (x ! 2) S43 0x2ad7d2bb;
          b = II b c d a (x ! 9) S44 0xeb86d391
      in (a, b, c, d))"

definition add_state :: "md5_state \<Rightarrow> md5_state \<Rightarrow> md5_state" where
  "add_state s t = (case (s, t) of ((a, b, c, d), (a', b', c', d')) \<Rightarrow> (a + a', b + b', c + c', d + d'))"

definition MD5Transform :: "md5_state \<Rightarrow> bytes \<Rightarrow> md5_state" where
  "MD5Transform st block =
     (let x = Decode block in add_state st (md5_round4 x (md5_round3 x (md5_round2 x (md5_round1 x st)))))"

section \<open>Initialization, update, finalization\<close>

text \<open>The buffer of a fresh context keeps whatever bytes it had.\<close>

definition MD5Init :: "bytes \<Rightarrow> MD5_CTX" where
  "MD5Init buf = \<lparr>md5_st = (0x67452301, 0xefcdab89, 0x98badcfe, 0x10325476), md5_count0 = 0, md5_count1 = 0,
     md5_buffer = buf\<rparr>"

text \<open>
  The loop over the complete blocks behind position \<open>i\<close>. The sum \<open>i + 63\<close> does not wrap: \<open>i\<close>
  starts at 64 where the input is a key, and the other inputs are shorter than 128 bytes.
\<close>

function update_loop :: "md5_state \<Rightarrow> bytes \<Rightarrow> nat \<Rightarrow> md5_state \<times> nat" where
  "update_loop st input i =
     (if i + 63 < length input then update_loop (MD5Transform st (take 64 (drop i input))) input (i + 64) else (st, i))"
  by pat_completeness auto
termination
  by (relation "measure (\<lambda>(st, input, i). length input - i)") auto

declare update_loop.simps [simp del]

definition count_bits :: "nat \<Rightarrow> MD5_CTX \<Rightarrow> MD5_CTX" where
  "count_bits inputLen ctx =
     (let n = (of_nat inputLen :: uint); c0 = md5_count0 ctx + push_bit 3 n;
          c1 = (if c0 < push_bit 3 n then md5_count1 ctx + 1 else md5_count1 ctx)
      in ctx\<lparr>md5_count0 := c0, md5_count1 := c1 + drop_bit 29 n\<rparr>)"

definition buffered :: "MD5_CTX \<Rightarrow> nat" where
  "buffered ctx = unat (drop_bit 3 (md5_count0 ctx) AND 0x3F)"

definition MD5Update :: "MD5_CTX \<Rightarrow> bytes \<Rightarrow> MD5_CTX" where
  "MD5Update ctx input =
     (let idx = buffered ctx; ctx = count_bits (length input) ctx; partLen = 64 - idx
      in if partLen \<le> length input
         then let buf = memcpy_at (md5_buffer ctx) idx (take partLen input) in
              case update_loop (MD5Transform (md5_st ctx) buf) input partLen of
                (st, i) \<Rightarrow> ctx\<lparr>md5_st := st, md5_buffer := memcpy_at buf 0 (drop i input)\<rparr>
         else ctx\<lparr>md5_buffer := memcpy_at (md5_buffer ctx) idx input\<rparr>)"

definition PADDING :: bytes where
  "PADDING = 0x80 # replicate 63 0"

definition MD5Final :: "MD5_CTX \<Rightarrow> bytes" where
  "MD5Final ctx =
     (let bits = Encode [md5_count0 ctx, md5_count1 ctx]; idx = buffered ctx;
          padLen = (if idx < 56 then 56 - idx else 120 - idx);
          ctx = MD5Update (MD5Update ctx (take padLen PADDING)) bits
      in case md5_st ctx of (a, b, c, d) \<Rightarrow> Encode [a, b, c, d])"

definition md5_signature :: "bytes \<Rightarrow> bytes \<Rightarrow> bytes" where
  "md5_signature buf key = MD5Final (MD5Update (MD5Init buf) key)"

definition hashkit_md5 :: "bytes \<Rightarrow> bytes \<Rightarrow> uint" where
  "hashkit_md5 buf key =
     (let results = md5_signature buf key
      in push_bit 24 (ucast (results ! 3) AND 0xFF) OR push_bit 16 (ucast (results ! 2) AND 0xFF) OR
         push_bit 8 (ucast (results ! 1) AND 0xFF) OR (ucast (results ! 0) AND 0xFF))"

section \<open>The published algorithm\<close>

text \<open>Step \<open>i\<close> of 64: its function, the message word it takes, its rotation and its constant.\<close>

definition md5_T :: "uint list" where
  "md5_T =
     [0xd76aa478, 0xe8c7b756, 0x242070db, 0xc1bdceee, 0xf57c0faf, 0x4787c62a, 0xa8304613, 0xfd469501,
      0x698098d8, 0x8b44f7af, 0xffff5bb1, 0x895cd7be, 0x6b901122, 0xfd987193, 0xa679438e, 0x49b40821,
      0xf61e2562, 0xc040b340, 0x265e5a51, 0xe9b6c7aa, 0xd62f105d, 0x2441453, 0xd8a1e681, 0xe7d3fbc8,
      0x21e1cde6, 0xc33707d6, 0xf4d50d87, 0x455a14ed, 0xa9e3e905, 0xfcefa3f8, 0x676f02d9, 0x8d2a4c8a,
      0xfffa3942, 0x8771f681, 0x6d9d6122, 0xfde5380c, 0xa4beea44, 0x4bdecfa9, 0xf6bb4b60, 0xbebfbc70,
      0x289b7ec6, 0xeaa127fa, 0xd4ef3085, 0x4881d05, 0xd9d4d039, 0xe6db99e5, 0x1fa27cf8, 0xc4ac5665,
      0xf4292244, 0x432aff97, 0xab9423a7, 0xfc93a039, 0x655b59c3, 0x8f0ccc92, 0xffeff47d, 0x85845dd1,
      0x6fa87e4f, 0xfe2ce6e0, 0xa3014314, 0x4e0811a1, 0xf7537e82, 0xbd3af235, 0x2ad7d2bb, 0xeb86d391]"

definition md5_fun :: "nat \<Rightarrow> uint \<Rightarrow> uint \<Rightarrow> uint \<Rightarrow> uint" where
  "md5_fun i = (if i < 16 then md5_F else if i < 32 then md5_G else if i < 48 then md5_H else md5_I)"

definition md5_index :: "nat \<Rightarrow> nat" where
  "md5_index i =
     (if i < 16 then i else if i < 32 then (5 * i + 1) mod 16 else if i < 48 then (3 * i + 5) mod 16 else (7 * i) mod 16)"

definition md5_shift :: "nat \<Rightarrow> nat" where
  "md5_shift i =
     (if i < 16 then [7, 12, 17, 22] else if i < 32 then [5, 9, 14, 20] else if i < 48 then [4, 11, 16, 23]
      else [6, 10, 15, 21]) ! (i mod 4)"

fun md5_step :: "uint list \<Rightarrow> md5_state \<Rightarrow> nat \<Rightarrow> md5_state" where
  "md5_step x (a, b, c, d) i =
     (d, b + ROTATE_LEFT (a + md5_fun i b c d + x ! md5_index i + md5_T ! i) (md5_shift i), b, c)"

declare md5_step.simps [simp del]

definition md5_block :: "md5_state \<Rightarrow> bytes \<Rightarrow> md5_state" where
  "md5_block st block = add_state st (foldl (md5_step (Decode block)) st [0..<64])"

text \<open>The message in blocks of 64 bytes; a shorter rest is dropped.\<close>

fun md5_blocks :: "bytes \<Rightarrow> bytes list" where
  "md5_blocks msg = (if length msg < 64 then [] else take 64 msg # md5_blocks (drop 64 msg))"

declare md5_blocks.simps [simp del]

definition md5_length :: "bytes \<Rightarrow> bytes" where
  "md5_length msg = (let n = (of_nat (8 * length msg) :: u64) in Encode [ucast n, ucast (drop_bit 32 n)])"

definition md5_pad :: "bytes \<Rightarrow> bytes" where
  "md5_pad msg = msg @ [0x80] @ replicate (nat ((55 - int (length msg)) mod 64)) 0 @ md5_length msg"

definition md5_reference :: "bytes \<Rightarrow> bytes" where
  "md5_reference msg =
     (case foldl md5_block (0x67452301, 0xefcdab89, 0x98badcfe, 0x10325476) (md5_blocks (md5_pad msg)) of
        (a, b, c, d) \<Rightarrow> Encode [a, b, c, d])"

section \<open>The unrolled transformation\<close>

text \<open>One line of a round is one step of the loop, with the registers rotated.\<close>

lemma md5_line:
  assumes "\<And>v. f v = foldl (md5_step x) (d, v, b, c) is" and "md5_index i = k" "md5_shift i = s" "md5_T ! i = ac"
  shows "md5_fun i = md5_F \<Longrightarrow> Let (FF a b c d (x ! k) s ac) f = foldl (md5_step x) (a, b, c, d) (i # is)"
    and "md5_fun i = md5_G \<Longrightarrow> Let (GG a b c d (x ! k) s ac) f = foldl (md5_step x) (a, b, c, d) (i # is)"
    and "md5_fun i = md5_H \<Longrightarrow> Let (HH a b c d (x ! k) s ac) f = foldl (md5_step x) (a, b, c, d) (i # is)"
    and "md5_fun i = md5_I \<Longrightarrow> Let (II a b c d (x ! k) s ac) f = foldl (md5_step x) (a, b, c, d) (i # is)"
  using assms by (simp_all add: FF_def GG_def HH_def II_def Let_def md5_step.simps ac_simps)

lemma md5_steps:
  "[0..<64] = [0, 1, 2, 3, 4, 5, 6, 7, 8, 9, 10, 11, 12, 13, 14, 15] @
     [16, 17, 18, 19, 20, 21, 22, 23, 24, 25, 26, 27, 28, 29, 30, 31] @
     [32, 33, 34, 35, 36, 37, 38, 39, 40, 41, 42, 43, 44, 45, 46, 47] @
     [48, 49, 50, 51, 52, 53, 54, 55, 56, 57, 58, 59, 60, 61, 62, 63]"
  by code_simp

lemmas md5_schedule = md5_index_def md5_shift_def md5_T_def md5_fun_def

lemma md5_round1_steps:
  "md5_round1 x (a, b, c, d) = foldl (md5_step x) (a, b, c, d) [0, 1, 2, 3, 4, 5, 6, 7, 8, 9, 10, 11, 12, 13, 14, 15]"
  unfolding md5_round1_def prod.case by (intro md5_line) (simp_all add: md5_schedule)

lemma md5_round2_steps:
  "md5_round2 x (a, b, c, d) = foldl (md5_step x) (a, b, c, d) [16, 17, 18, 19, 20, 21, 22, 23, 24, 25, 26, 27, 28, 29, 30, 31]"
  unfolding md5_round2_def prod.case by (intro md5_line) (simp_all add: md5_schedule)

lemma md5_round3_steps:
  "md5_round3 x (a, b, c, d) = foldl (md5_step x) (a, b, c, d) [32, 33, 34, 35, 36, 37, 38, 39, 40, 41, 42, 43, 44, 45, 46, 47]"
  unfolding md5_round3_def prod.case by (intro md5_line) (simp_all add: md5_schedule)

lemma md5_round4_steps:
  "md5_round4 x (a, b, c, d) = foldl (md5_step x) (a, b, c, d) [48, 49, 50, 51, 52, 53, 54, 55, 56, 57, 58, 59, 60, 61, 62, 63]"
  unfolding md5_round4_def prod.case by (intro md5_line) (simp_all add: md5_schedule)

lemma MD5Transform_block: "MD5Transform = md5_block"
proof (intro ext)
  fix st block
  define x where "x = Decode block"
  have "md5_round1 x s = foldl (md5_step x) s [0, 1, 2, 3, 4, 5, 6, 7, 8, 9, 10, 11, 12, 13, 14, 15]"
    "md5_round2 x s = foldl (md5_step x) s [16, 17, 18, 19, 20, 21, 22, 23, 24, 25, 26, 27, 28, 29, 30, 31]"
    "md5_round3 x s = foldl (md5_step x) s [32, 33, 34, 35, 36, 37, 38, 39, 40, 41, 42, 43, 44, 45, 46, 47]"
    "md5_round4 x s = foldl (md5_step x) s [48, 49, 50, 51, 52, 53, 54, 55, 56, 57, 58, 59, 60, 61, 62, 63]" for s
    by (cases s; simp only: md5_round1_steps md5_round2_steps md5_round3_steps md5_round4_steps)+
  then show "MD5Transform st block = md5_block st block"
    unfolding MD5Transform_def md5_block_def md5_steps foldl_append Let_def x_def by simp
qed

section \<open>Blocks of a message\<close>

definition md5_absorb :: "md5_state \<Rightarrow> bytes \<Rightarrow> md5_state" where
  "md5_absorb st msg = foldl MD5Transform st (md5_blocks msg)"

definition md5_rest :: "bytes \<Rightarrow> bytes" where
  "md5_rest msg = drop (64 * (length msg div 64)) msg"

lemma length_md5_rest: "length (md5_rest msg) = length msg mod 64"
  by (simp add: md5_rest_def modulo_nat_def)

lemma md5_rest_short: "length msg < 64 \<Longrightarrow> md5_rest msg = msg"
  by (simp add: md5_rest_def)

lemma md5_blocks_short: "length msg < 64 \<Longrightarrow> md5_blocks msg = []"
  by (simp add: md5_blocks.simps)

lemma md5_blocks_full: "length xs = 64 \<Longrightarrow> md5_blocks (xs @ ys) = xs # md5_blocks ys"
  by (simp add: md5_blocks.simps [of "xs @ ys"])

lemma md5_rest_full: "length xs = 64 \<Longrightarrow> md5_rest (xs @ ys) = md5_rest ys"
proof -
  assume "length xs = 64"
  moreover have "(64 + length ys) div 64 = Suc (length ys div 64)" by simp
  ultimately show ?thesis by (simp only: md5_rest_def length_append) simp
qed

lemma md5_blocks_append: "length xs = 64 * n \<Longrightarrow> md5_blocks (xs @ ys) = md5_blocks xs @ md5_blocks ys"
proof (induction n arbitrary: xs)
  case (Suc n)
  define h t where "h = take 64 xs" and "t = drop 64 xs"
  have xs: "xs = h @ t" and len: "length h = 64" "length t = 64 * n"
    using Suc.prems by (simp_all add: h_def t_def)
  then show ?case using Suc.IH [of t] by (simp add: md5_blocks_full)
qed (simp add: md5_blocks_short)

lemma md5_whole_rest:
  obtains whole where "msg = whole @ md5_rest msg" "length whole = 64 * (length msg div 64)"
    "md5_blocks whole = md5_blocks msg"
proof -
  define whole where "whole = take (64 * (length msg div 64)) msg"
  have msg: "msg = whole @ md5_rest msg" by (simp add: whole_def md5_rest_def)
  have len: "length whole = 64 * (length msg div 64)" by (simp add: whole_def min_absorb2)
  have "md5_blocks msg = md5_blocks whole @ md5_blocks (md5_rest msg)"
    by (subst msg) (rule md5_blocks_append [OF len])
  then have "md5_blocks whole = md5_blocks msg" by (simp add: md5_blocks_short length_md5_rest)
  with msg len that show ?thesis by blast
qed

text \<open>What follows a message acts on its rest only.\<close>

lemma md5_absorb_append: "md5_absorb st (msg @ input) = md5_absorb (md5_absorb st msg) (md5_rest msg @ input)"
proof -
  obtain whole where w: "msg = whole @ md5_rest msg" "length whole = 64 * (length msg div 64)"
    "md5_blocks whole = md5_blocks msg" by (rule md5_whole_rest)
  have "md5_blocks (msg @ input) = md5_blocks whole @ md5_blocks (md5_rest msg @ input)"
    by (subst w(1)) (simp add: md5_blocks_append [OF w(2)])
  then show ?thesis by (simp add: md5_absorb_def w(3))
qed

lemma md5_rest_append: "md5_rest (msg @ input) = md5_rest (md5_rest msg @ input)"
proof -
  obtain whole where w: "msg = whole @ md5_rest msg" "length whole = 64 * (length msg div 64)" by (rule md5_whole_rest)
  have "length (msg @ input) div 64 = length msg div 64 + length (md5_rest msg @ input) div 64"
    by (subst w(1)) (simp add: w(2))
  then have "md5_rest (msg @ input) = drop (length whole + 64 * (length (md5_rest msg @ input) div 64)) (whole @ md5_rest msg @ input)"
    unfolding md5_rest_def [of "msg @ input"] using w by (metis append_assoc distrib_left)
  then show ?thesis by (simp add: md5_rest_def [of "md5_rest msg @ input"])
qed

lemma update_loop_absorb:
  "i \<le> length input \<Longrightarrow>
   update_loop st input i = (md5_absorb st (drop i input), i + 64 * ((length input - i) div 64))"
proof (induction st input i rule: update_loop.induct)
  case (1 st input i)
  show ?case
  proof (cases "i + 63 < length input")
    case True
    have "take 64 (drop i input) @ drop (i + 64) input = drop i input"
      by (metis add.commute append_take_drop_id drop_drop)
    then have "md5_blocks (drop i input) = take 64 (drop i input) # md5_blocks (drop (i + 64) input)"
      using md5_blocks_full [of "take 64 (drop i input)" "drop (i + 64) input"] True by (simp add: add.commute)
    moreover have "(length input - i) div 64 = Suc ((length input - (i + 64)) div 64)"
      using True by (simp add: le_div_geq)
    ultimately show ?thesis using True 1 by (simp add: update_loop.simps [of st] md5_absorb_def)
  next
    case False
    then show ?thesis using 1 by (simp add: update_loop.simps [of st] md5_absorb_def md5_blocks_short)
  qed
qed

lemma md5_rest_drop: "i \<le> length input \<Longrightarrow> drop (i + 64 * ((length input - i) div 64)) input = md5_rest (drop i input)"
  by (simp add: md5_rest_def add.commute)

section \<open>The context stands for the message\<close>

definition md5_init :: md5_state where
  "md5_init = (0x67452301, 0xefcdab89, 0x98badcfe, 0x10325476)"

definition md5_rep :: "MD5_CTX \<Rightarrow> bytes \<Rightarrow> bool" where
  "md5_rep ctx msg \<longleftrightarrow>
     md5_st ctx = md5_absorb md5_init msg \<and> length (md5_buffer ctx) = 64 \<and>
     take (length msg mod 64) (md5_buffer ctx) = md5_rest msg \<and>
     md5_count0 ctx = of_nat (8 * length msg) \<and> md5_count1 ctx = of_nat (8 * length msg div 2 ^ 32)"

lemma md5_rep_init: "length buf = 64 \<Longrightarrow> md5_rep (MD5Init buf) []"
  by (simp add: md5_rep_def MD5Init_def md5_init_def md5_absorb_def md5_blocks_short md5_rest_short)

lemma bits_to_bytes: "8 * n mod 2 ^ 32 div 8 mod 64 = n mod (64 :: nat)"
proof -
  have "8 * n mod 2 ^ 32 = 8 * (n mod 2 ^ 29)" by (simp add: mult_mod_right)
  then show ?thesis by (simp add: mod_mod_cancel)
qed

lemma buffered_rep: "md5_rep ctx msg \<Longrightarrow> buffered ctx = length msg mod 64"
proof -
  assume "md5_rep ctx msg"
  then have c: "md5_count0 ctx = of_nat (8 * length msg)" by (simp add: md5_rep_def)
  have m: "(0x3F :: uint) = mask 6" by (simp add: mask_eq_exp_minus_1)
  have "buffered ctx = unat (of_nat (8 * length msg) :: uint) div 8 mod 64"
    unfolding buffered_def c m by (simp add: unat_div unat_mod take_bit_eq_mod drop_bit_eq_div flip: take_bit_eq_mask)
  also have "unat (of_nat (8 * length msg) :: uint) = 8 * length msg mod 2 ^ 32" by (simp only: unat_of_nat) simp
  finally show ?thesis by (simp only: bits_to_bytes)
qed

text \<open>The two counters together count the bits of the message.\<close>

lemma carry32: "(a + b < b) \<longleftrightarrow> 2 ^ 32 \<le> unat a + unat b" for a b :: uint
proof
  assume "a + b < b"
  then show "2 ^ 32 \<le> unat a + unat b" using unat_add32 [of a b] by (fastforce simp: word_less_nat_alt)
next
  assume "2 ^ 32 \<le> unat a + unat b"
  then have "unat (a + b) = unat a + unat b - 2 ^ 32"
    using unat_lt32 [of a] unat_lt32 [of b] by (simp add: unat_word_ariths mod_if)
  then show "a + b < b" using unat_lt32 [of a] \<open>2 ^ 32 \<le> unat a + unat b\<close> by (simp add: word_less_nat_alt)
qed

lemma div_add_carry:
  "0 < m \<Longrightarrow> (x + y) div m = x div m + y div m + (if m \<le> x mod m + y mod m then 1 else 0)" for m :: nat
proof -
  assume m: "0 < m"
  have "x mod m + y mod m < 2 * m" using m mod_less_divisor [of m x] mod_less_divisor [of m y] by linarith
  then have "(x mod m + y mod m) div m = (if m \<le> x mod m + y mod m then 1 else 0)"
    using m by (auto simp: le_div_geq)
  then show ?thesis by (simp add: div_add1_eq [of x y])
qed

lemma count_bits_sum:
  assumes "md5_count0 ctx = of_nat (8 * n)" "md5_count1 ctx = of_nat (8 * n div 2 ^ 32)" and "k < 2 ^ 32"
  shows "md5_count0 (count_bits k ctx) = of_nat (8 * (n + k))"
    "md5_count1 (count_bits k ctx) = of_nat (8 * (n + k) div 2 ^ 32)"
proof -
  have p: "push_bit 3 (of_nat k :: uint) = of_nat (8 * k)" by (simp add: push_bit_eq_mult)
  have d: "drop_bit 29 (of_nat k :: uint) = of_nat (8 * k div 2 ^ 32)"
  proof -
    have "drop_bit 29 (of_nat k :: uint) = of_nat (k div 2 ^ 29)"
      by (rule word_unat_eq_iff [THEN iffD2]) (use assms(3) in \<open>simp add: unat_div unat_of_nat drop_bit_eq_div\<close>)
    moreover have "k div 2 ^ 29 = 8 * k div 2 ^ 32"
      using div_mult_mult1 [of 8 k "2 ^ 29"] by simp
    ultimately show ?thesis by simp
  qed
  show "md5_count0 (count_bits k ctx) = of_nat (8 * (n + k))"
    using assms(1) p by (simp add: count_bits_def Let_def)
  have u: "unat (of_nat (8 * i) :: uint) = 8 * i mod 2 ^ 32" for i by (simp only: unat_of_nat) simp
  let ?carry = "if 2 ^ 32 \<le> 8 * n mod 2 ^ 32 + 8 * k mod 2 ^ 32 then 1 else (0 :: nat)"
  have "8 * (n + k) div 2 ^ 32 = 8 * n div 2 ^ 32 + 8 * k div 2 ^ 32 + ?carry"
    unfolding distrib_left by (rule div_add_carry) simp
  then show "md5_count1 (count_bits k ctx) = of_nat (8 * (n + k) div 2 ^ 32)"
    using assms(1,2) p d carry32 [of "of_nat (8 * n)" "of_nat (8 * k)"] u [of n] u [of k]
    by (simp add: count_bits_def Let_def)
qed

lemma md5_rep_update:
  assumes "md5_rep ctx msg" and "length input < 2 ^ 32"
  shows "md5_rep (MD5Update ctx input) (msg @ input)"
proof -
  note rep = assms(1) [unfolded md5_rep_def]
  define idx where "idx = length msg mod 64"
  have idx: "buffered ctx = idx" "idx < 64" "length (md5_rest msg) = idx"
    using buffered_rep [OF assms(1)] by (simp_all add: idx_def length_md5_rest)
  have cnt: "md5_count0 (count_bits (length input) ctx) = of_nat (8 * length (msg @ input))"
    "md5_count1 (count_bits (length input) ctx) = of_nat (8 * length (msg @ input) div 2 ^ 32)"
    using count_bits_sum [OF _ _ assms(2), of ctx "length msg"] rep by simp_all
  have keep: "md5_st (count_bits (length input) ctx) = md5_st ctx" "md5_buffer (count_bits (length input) ctx) = md5_buffer ctx"
    by (simp_all add: count_bits_def Let_def)
  have buf: "take idx (md5_buffer ctx) = md5_rest msg" "length (md5_buffer ctx) = 64" using rep by (simp_all add: idx_def)
  show ?thesis
  proof (cases "64 - idx \<le> length input")
    case True
    define block where "block = md5_rest msg @ take (64 - idx) input"
    have block: "length block = 64" "memcpy_at (md5_buffer ctx) idx (take (64 - idx) input) = block"
      using True idx buf by (simp_all add: block_def memcpy_at_def min_absorb2)
    have split: "md5_rest msg @ input = block @ drop (64 - idx) input" by (simp add: block_def)
    have rest: "md5_rest (msg @ input) = md5_rest (drop (64 - idx) input)"
      unfolding md5_rest_append [of msg] split using block(1) by (rule md5_rest_full)
    have "md5_absorb md5_init (msg @ input) = md5_absorb (MD5Transform (md5_st ctx) block) (drop (64 - idx) input)"
      unfolding md5_absorb_append [of _ msg] split using block(1) rep by (simp add: md5_absorb_def md5_blocks_full)
    moreover have "length (msg @ input) mod 64 = length (md5_rest (drop (64 - idx) input))"
      by (simp flip: rest add: length_md5_rest)
    ultimately show ?thesis
      unfolding md5_rep_def MD5Update_def
      using True block idx keep cnt update_loop_absorb [OF True] md5_rest_drop [OF True] rest length_md5_rest [of "drop (64 - idx) input"]
      by (simp add: Let_def memcpy_at_def)
  next
    case False
    then have short: "length (md5_rest msg @ input) < 64" using idx by simp
    have "md5_rest (msg @ input) = md5_rest msg @ input" "md5_absorb md5_init (msg @ input) = md5_st ctx"
      using short rep by (simp_all add: md5_rest_append [of msg] md5_rest_short md5_absorb_append [of _ msg] md5_absorb_def [of "md5_absorb _ _"] md5_blocks_short)
    moreover from this have "length (msg @ input) mod 64 = idx + length input"
      using length_md5_rest [of "msg @ input"] idx by simp
    ultimately show ?thesis
      unfolding md5_rep_def MD5Update_def
      using False idx keep cnt buf by (simp add: Let_def memcpy_at_def)
  qed
qed

section \<open>Padding\<close>

lemma length_md5_length: "length (md5_length msg) = 8"
  by (simp add: md5_length_def Let_def)

definition pad_len :: "nat \<Rightarrow> nat" where
  "pad_len n = (if n mod 64 < 56 then 56 - n mod 64 else 120 - n mod 64)"

lemma pad_len_zeros: "pad_len n = Suc (nat ((55 - int n) mod 64))"
proof -
  have "(55 - int n) mod 64 = (55 - int (n mod 64)) mod 64" by (simp add: zmod_int mod_diff_right_eq)
  moreover have "(55 - int r) mod 64 = (if r < 56 then 55 - int r else 119 - int r)" if "r < 64" for r
  proof (cases "r < 56")
    case False
    have "(55 - int r) mod 64 = (119 - int r) mod 64" using mod_add_self2 [of "55 - int r" 64] by simp
    then show ?thesis using that False by simp
  qed simp
  ultimately show ?thesis by (auto simp: pad_len_def)
qed

lemma pad_len_bounds: "0 < pad_len n" "pad_len n \<le> 64" "(n + pad_len n + 8) mod 64 = 0"
proof -
  have "n = 64 * (n div 64) + n mod 64" by simp
  then obtain q r where n: "n = 64 * q + r" "r < 64" by (metis mod_less_divisor zero_less_numeral)
  then show "0 < pad_len n" "pad_len n \<le> 64" "(n + pad_len n + 8) mod 64 = 0" by (auto simp: pad_len_def)
qed

lemma md5_pad_parts: "md5_pad msg = msg @ take (pad_len (length msg)) PADDING @ md5_length msg"
  using pad_len_bounds(2) [of "length msg"] by (simp add: md5_pad_def PADDING_def pad_len_zeros min_absorb2)

lemma md5_length_counts:
  assumes "length msg < 2 ^ 32"
  shows "md5_length msg = Encode [of_nat (8 * length msg), of_nat (8 * length msg div 2 ^ 32)]"
proof -
  let ?n = "of_nat (8 * length msg) :: u64"
  have n: "unat ?n = 8 * length msg" using assms by (simp only: unat_of_nat) simp
  have cast: "(ucast w :: uint) = of_nat (unat w)" for w :: u64 by simp
  have "(ucast ?n :: uint) = of_nat (8 * length msg)"
    unfolding cast [of ?n] n ..
  moreover have "(ucast (drop_bit 32 ?n) :: uint) = of_nat (8 * length msg div 2 ^ 32)"
    using cast [of "drop_bit 32 ?n"] by (simp only: unat_drop_bit_eq n) (simp only: drop_bit_eq_div)
  ultimately show ?thesis by (simp only: md5_length_def Let_def)
qed

section \<open>Properties\<close>

text \<open>
  C36. The digest is MD5 as published: for every key shorter than four gigabytes, whatever the
  buffer held before, the signature is the one obtained by padding the key, appending its bit
  length and running the 64-step loop on every block.
\<close>

theorem md5_signature_reference:
  assumes "length buf = 64" and "length key < 2 ^ 32"
  shows "md5_signature buf key = md5_reference key"
proof -
  define ctx where "ctx = MD5Update (MD5Init buf) key"
  define padded where "padded = key @ take (pad_len (length key)) PADDING"
  have rep: "md5_rep ctx key"
    unfolding ctx_def using md5_rep_update [OF md5_rep_init [OF assms(1)] assms(2)] by simp
  have "length (take (pad_len (length key)) PADDING) < 2 ^ 32" "length (md5_length key) < 2 ^ 32"
    by (simp_all add: PADDING_def length_md5_length)
  then have "md5_rep (MD5Update (MD5Update ctx (take (pad_len (length key)) PADDING)) (md5_length key)) (md5_pad key)"
    unfolding md5_pad_parts append_assoc [symmetric] by (intro md5_rep_update rep)
  then have "md5_st (MD5Update (MD5Update ctx (take (pad_len (length key)) PADDING)) (md5_length key)) =
      foldl md5_block md5_init (md5_blocks (md5_pad key))"
    by (simp add: md5_rep_def md5_absorb_def MD5Transform_block)
  moreover have "Encode [md5_count0 ctx, md5_count1 ctx] = md5_length key"
    using rep md5_length_counts [OF assms(2)] by (simp add: md5_rep_def)
  moreover have "(if buffered ctx < 56 then 56 - buffered ctx else 120 - buffered ctx) = pad_len (length key)"
    using buffered_rep [OF rep] by (simp add: pad_len_def)
  ultimately show ?thesis
    by (simp only: md5_signature_def MD5Final_def Let_def md5_reference_def flip: ctx_def md5_init_def)
qed

text \<open>The digest of the empty message, evaluated.\<close>

lemma md5_reference_empty:
  "md5_reference [] = [0xd4, 0x1d, 0x8c, 0xd9, 0x8f, 0x00, 0xb2, 0x04, 0xe9, 0x80, 0x09, 0x98, 0xec, 0xf8, 0x42, 0x7e]"
proof -
  have "md5_pad [] = 0x80 # replicate 63 0" by code_simp
  then have b: "md5_blocks (md5_pad []) = [0x80 # replicate 63 0]"
    by (simp add: md5_blocks.simps [of "_ # _"] md5_blocks.simps [of "[]"])
  have d: "Decode (0x80 # replicate 63 0) = [0x80, 0, 0, 0, 0, 0, 0, 0, 0, 0, 0, 0, 0, 0, 0, 0]" by code_simp
  show ?thesis unfolding md5_reference_def b md5_block_def foldl.simps d md5_steps
    by (simp add: md5_step.simps md5_schedule md5_F_def md5_G_def md5_H_def md5_I_def ROTATE_LEFT_def add_state_def)
qed

lemma md5_signature_reference_witness:
  "md5_signature (replicate 64 0) [] =
     [0xd4, 0x1d, 0x8c, 0xd9, 0x8f, 0x00, 0xb2, 0x04, 0xe9, 0x80, 0x09, 0x98, 0xec, 0xf8, 0x42, 0x7e]"
  using md5_signature_reference [of "replicate 64 0" "[]"] md5_reference_empty by simp

end
