(* ===== verification/HashKit.thy ===== *)
theory HashKit
  imports HashJenkins HashMd5
begin

text \<open>
  The hash objects of \<open>libhashkit\<close>: a \<open>hashkit_st\<close> holds a function pointer with its context for
  hashing keys and another for distributing them, and possibly an encryption key. Functions are
  set by algorithm (\<open>function.cc\<close>), used through \<open>digest.cc\<close>, and the objects are created,
  copied, compared and freed by \<open>hashkit.cc\<close>. A key is \<open>len\<close> bytes of memory from address \<open>p\<close>.

  The lemmas show which algorithms can be set, that the object then hashes as the algorithm does,
  that the algorithm can be read back, and that a copy hashes and compares as its original.
\<close>

unbundle bit_operations_syntax

section \<open>Algorithms and results\<close>

datatype hashkit_return_t = HASHKIT_SUCCESS | HASHKIT_FAILURE | HASHKIT_MEMORY_ALLOCATION_FAILURE
  | HASHKIT_INVALID_HASH | HASHKIT_INVALID_ARGUMENT | HASHKIT_MAXIMUM_RETURN

datatype hashkit_hash_algorithm_t = HASHKIT_HASH_DEFAULT | HASHKIT_HASH_MD5 | HASHKIT_HASH_CRC
  | HASHKIT_HASH_FNV1_64 | HASHKIT_HASH_FNV1A_64 | HASHKIT_HASH_FNV1_32 | HASHKIT_HASH_FNV1A_32
  | HASHKIT_HASH_HSIEH | HASHKIT_HASH_MURMUR | HASHKIT_HASH_JENKINS | HASHKIT_HASH_MURMUR3
  | HASHKIT_HASH_CUSTOM | HASHKIT_HASH_MAX

fun libhashkit_has_algorithm :: "config \<Rightarrow> hashkit_hash_algorithm_t \<Rightarrow> bool" where
  "libhashkit_has_algorithm cfg HASHKIT_HASH_FNV1_64 = (wordsize cfg = 64 \<and> have_fnv64_hash cfg)"
| "libhashkit_has_algorithm cfg HASHKIT_HASH_FNV1A_64 = (wordsize cfg = 64 \<and> have_fnv64_hash cfg)"
| "libhashkit_has_algorithm cfg HASHKIT_HASH_HSIEH = have_hsieh_hash cfg"
| "libhashkit_has_algorithm cfg HASHKIT_HASH_MURMUR3 = have_murmur_hash cfg"
| "libhashkit_has_algorithm cfg HASHKIT_HASH_MURMUR = have_murmur_hash cfg"
| "libhashkit_has_algorithm cfg HASHKIT_HASH_MAX = False"
| "libhashkit_has_algorithm cfg _ = True"

fun libhashkit_string_hash :: "hashkit_hash_algorithm_t \<Rightarrow> string" where
  "libhashkit_string_hash HASHKIT_HASH_DEFAULT = ''DEFAULT''"
| "libhashkit_string_hash HASHKIT_HASH_MD5 = ''MD5''"
| "libhashkit_string_hash HASHKIT_HASH_CRC = ''CRC''"
| "libhashkit_string_hash HASHKIT_HASH_FNV1_64 = ''FNV1_64''"
| "libhashkit_string_hash HASHKIT_HASH_FNV1A_64 = ''FNV1A_64''"
| "libhashkit_string_hash HASHKIT_HASH_FNV1_32 = ''FNV1_32''"
| "libhashkit_string_hash HASHKIT_HASH_FNV1A_32 = ''FNV1A_32''"
| "libhashkit_string_hash HASHKIT_HASH_HSIEH = ''HSIEH''"
| "libhashkit_string_hash HASHKIT_HASH_MURMUR = ''MURMUR''"
| "libhashkit_string_hash HASHKIT_HASH_MURMUR3 = ''MURMUR3''"
| "libhashkit_string_hash HASHKIT_HASH_JENKINS = ''JENKINS''"
| "libhashkit_string_hash HASHKIT_HASH_CUSTOM = ''CUSTOM''"
| "libhashkit_string_hash HASHKIT_HASH_MAX = ''INVALID''"

fun hashkit_strerror :: "hashkit_return_t \<Rightarrow> string" where
  "hashkit_strerror HASHKIT_SUCCESS = ''SUCCESS''"
| "hashkit_strerror HASHKIT_FAILURE = ''FAILURE''"
| "hashkit_strerror HASHKIT_MEMORY_ALLOCATION_FAILURE = ''MEMORY ALLOCATION FAILURE''"
| "hashkit_strerror HASHKIT_INVALID_ARGUMENT = ''INVALID ARGUMENT''"
| "hashkit_strerror HASHKIT_INVALID_HASH = ''INVALID hashkit_hash_algorithm_t''"
| "hashkit_strerror HASHKIT_MAXIMUM_RETURN = ''INVALID hashkit_return_t''"

section \<open>Function pointers\<close>

text \<open>The functions of the library and those of the user, told apart by address.\<close>

datatype hash_fn = one_at_a_time_fn | md5_fn | crc32_fn | fnv1_64_fn | fnv1a_64_fn | fnv1_32_fn | fnv1a_32_fn
  | hsieh_fn | murmur_fn | jenkins_fn | user_fn nat

text \<open>
  What surrounds a call: the build, the bytes an uninitialized buffer on the stack holds, and the
  user's functions, which are given the context pointer they were set with.
\<close>

record surroundings =
  sr_config :: config
  sr_stack :: bytes
  sr_user :: "nat \<Rightarrow> memory \<Rightarrow> nat \<Rightarrow> nat \<Rightarrow> nat option \<Rightarrow> uint"

fun call_fn :: "surroundings \<Rightarrow> hash_fn \<Rightarrow> memory \<Rightarrow> nat \<Rightarrow> nat \<Rightarrow> nat option \<Rightarrow> uint" where
  "call_fn e one_at_a_time_fn m p len ctx = hashkit_one_at_a_time (key_bytes m p len)"
| "call_fn e md5_fn m p len ctx = hashkit_md5 (sr_stack e) (key_bytes m p len)"
| "call_fn e crc32_fn m p len ctx = hashkit_crc32 (key_bytes m p len)"
| "call_fn e fnv1_64_fn m p len ctx = hashkit_fnv1_64 (sr_config e) (key_bytes m p len)"
| "call_fn e fnv1a_64_fn m p len ctx = hashkit_fnv1a_64 (sr_config e) (key_bytes m p len)"
| "call_fn e fnv1_32_fn m p len ctx = hashkit_fnv1_32 (key_bytes m p len)"
| "call_fn e fnv1a_32_fn m p len ctx = hashkit_fnv1a_32 (key_bytes m p len)"
| "call_fn e hsieh_fn m p len ctx = hashkit_hsieh (sr_config e) (key_bytes m p len)"
| "call_fn e murmur_fn m p len ctx = hashkit_murmur (sr_config e) (key_bytes m p len)"
| "call_fn e jenkins_fn m p len ctx = hashkit_jenkins m p len"
| "call_fn e (user_fn n) m p len ctx = sr_user e n m p len ctx"

section \<open>Hash objects\<close>

record hashkit_function_st =
  fn_function :: hash_fn
  fn_context :: "nat option"

text \<open>The expanded encryption keys of \<open>aes.cc\<close>: the number of rounds and the round keys.\<close>

record aes_round_keys =
  rk_nr :: int
  rk_words :: "uint list"

record aes_key_t =
  encode_key :: aes_round_keys
  decode_key :: aes_round_keys

record hashkit_st =
  base_hash :: hashkit_function_st
  distribution_hash :: hashkit_function_st
  is_base_same_distributed :: bool
  is_allocated :: bool
  kit_key :: "aes_key_t option"

subsection \<open>Setting functions\<close>

fun u_set_function ::
  "config \<Rightarrow> hashkit_function_st option \<Rightarrow> hashkit_hash_algorithm_t \<Rightarrow> hashkit_return_t \<times> hashkit_function_st option" where
  "u_set_function cfg None alg = (HASHKIT_INVALID_ARGUMENT, None)"
| "u_set_function cfg (Some f) alg =
     (let done = (\<lambda>g. (HASHKIT_SUCCESS, Some (f\<lparr>fn_function := g, fn_context := None\<rparr>)));
          invalid = (HASHKIT_INVALID_ARGUMENT, Some f)
      in case alg of
           HASHKIT_HASH_MD5 \<Rightarrow> done md5_fn
         | HASHKIT_HASH_CRC \<Rightarrow> done crc32_fn
         | HASHKIT_HASH_FNV1_64 \<Rightarrow>
             if libhashkit_has_algorithm cfg HASHKIT_HASH_FNV1_64 then done fnv1_64_fn else invalid
         | HASHKIT_HASH_FNV1A_64 \<Rightarrow>
             if libhashkit_has_algorithm cfg HASHKIT_HASH_FNV1_64 then done fnv1a_64_fn else invalid
         | HASHKIT_HASH_FNV1_32 \<Rightarrow> done fnv1_32_fn
         | HASHKIT_HASH_FNV1A_32 \<Rightarrow> done fnv1a_32_fn
         | HASHKIT_HASH_HSIEH \<Rightarrow>
             if libhashkit_has_algorithm cfg HASHKIT_HASH_HSIEH then done hsieh_fn else invalid
         | HASHKIT_HASH_MURMUR3 \<Rightarrow>
             if libhashkit_has_algorithm cfg HASHKIT_HASH_MURMUR then done murmur_fn else invalid
         | HASHKIT_HASH_MURMUR \<Rightarrow>
             if libhashkit_has_algorithm cfg HASHKIT_HASH_MURMUR then done murmur_fn else invalid
         | HASHKIT_HASH_JENKINS \<Rightarrow> done jenkins_fn
         | HASHKIT_HASH_CUSTOM \<Rightarrow> invalid
         | HASHKIT_HASH_DEFAULT \<Rightarrow> done one_at_a_time_fn
         | HASHKIT_HASH_MAX \<Rightarrow> (HASHKIT_INVALID_HASH, Some (f\<lparr>fn_function := one_at_a_time_fn\<rparr>)))"

definition hashkit_set_function :: "config \<Rightarrow> hashkit_st \<Rightarrow> hashkit_hash_algorithm_t \<Rightarrow> hashkit_return_t \<times> hashkit_st" where
  "hashkit_set_function cfg self alg =
     (case u_set_function cfg (Some (base_hash self)) alg of
        (rc, f) \<Rightarrow> (rc, self\<lparr>base_hash := the f\<rparr>))"

definition hashkit_set_distribution_function ::
  "config \<Rightarrow> hashkit_st \<Rightarrow> hashkit_hash_algorithm_t \<Rightarrow> hashkit_return_t \<times> hashkit_st" where
  "hashkit_set_distribution_function cfg self alg =
     (case u_set_function cfg (Some (distribution_hash self)) alg of
        (rc, f) \<Rightarrow> (rc, self\<lparr>distribution_hash := the f\<rparr>))"

text \<open>A null function pointer is \<open>None\<close>.\<close>

definition u_set_custom_function ::
  "hashkit_function_st \<Rightarrow> hash_fn option \<Rightarrow> nat option \<Rightarrow> hashkit_return_t \<times> hashkit_function_st" where
  "u_set_custom_function f g ctx =
     (case g of Some g \<Rightarrow> (HASHKIT_SUCCESS, f\<lparr>fn_function := g, fn_context := ctx\<rparr>) | None \<Rightarrow> (HASHKIT_FAILURE, f))"

definition hashkit_set_custom_function ::
  "hashkit_st option \<Rightarrow> hash_fn option \<Rightarrow> nat option \<Rightarrow> hashkit_return_t \<times> hashkit_st option" where
  "hashkit_set_custom_function self g ctx =
     (case self of
        None \<Rightarrow> (HASHKIT_INVALID_ARGUMENT, None)
      | Some kit \<Rightarrow>
          (case u_set_custom_function (base_hash kit) g ctx of (rc, f) \<Rightarrow> (rc, Some (kit\<lparr>base_hash := f\<rparr>))))"

definition hashkit_set_custom_distribution_function ::
  "hashkit_st option \<Rightarrow> hash_fn option \<Rightarrow> nat option \<Rightarrow> hashkit_return_t \<times> hashkit_st option" where
  "hashkit_set_custom_distribution_function self g ctx =
     (case self of
        None \<Rightarrow> (HASHKIT_INVALID_ARGUMENT, None)
      | Some kit \<Rightarrow>
          (case u_set_custom_function (distribution_hash kit) g ctx of
             (rc, f) \<Rightarrow> (rc, Some (kit\<lparr>distribution_hash := f\<rparr>))))"

definition get_function_type :: "hash_fn \<Rightarrow> hashkit_hash_algorithm_t" where
  "get_function_type g =
     (if g = one_at_a_time_fn then HASHKIT_HASH_DEFAULT
      else if g = md5_fn then HASHKIT_HASH_MD5
      else if g = crc32_fn then HASHKIT_HASH_CRC
      else if g = fnv1_64_fn then HASHKIT_HASH_FNV1_64
      else if g = fnv1a_64_fn then HASHKIT_HASH_FNV1A_64
      else if g = fnv1_32_fn then HASHKIT_HASH_FNV1_32
      else if g = fnv1a_32_fn then HASHKIT_HASH_FNV1A_32
      else if g = hsieh_fn then HASHKIT_HASH_HSIEH
      else if g = murmur_fn then HASHKIT_HASH_MURMUR
      else if g = jenkins_fn then HASHKIT_HASH_JENKINS
      else HASHKIT_HASH_CUSTOM)"

definition hashkit_get_function :: "hashkit_st option \<Rightarrow> hashkit_hash_algorithm_t" where
  "hashkit_get_function self =
     (case self of None \<Rightarrow> HASHKIT_HASH_DEFAULT | Some kit \<Rightarrow> get_function_type (fn_function (base_hash kit)))"

definition hashkit_get_distribution_function :: "hashkit_st option \<Rightarrow> hashkit_hash_algorithm_t" where
  "hashkit_get_distribution_function self =
     (case self of None \<Rightarrow> HASHKIT_HASH_DEFAULT | Some kit \<Rightarrow> get_function_type (fn_function (distribution_hash kit)))"

subsection \<open>Digests\<close>

definition hashkit_digest :: "surroundings \<Rightarrow> hashkit_st \<Rightarrow> memory \<Rightarrow> nat \<Rightarrow> nat \<Rightarrow> uint" where
  "hashkit_digest e self m p len = call_fn e (fn_function (base_hash self)) m p len (fn_context (base_hash self))"

text \<open>The entry points of \<open>algorithm.cc\<close>, one per algorithm.\<close>

definition libhashkit_one_at_a_time :: "surroundings \<Rightarrow> memory \<Rightarrow> nat \<Rightarrow> nat \<Rightarrow> uint" where
  "libhashkit_one_at_a_time e m p len = hashkit_one_at_a_time (key_bytes m p len)"

definition libhashkit_fnv1_64 :: "surroundings \<Rightarrow> memory \<Rightarrow> nat \<Rightarrow> nat \<Rightarrow> uint" where
  "libhashkit_fnv1_64 e m p len = hashkit_fnv1_64 (sr_config e) (key_bytes m p len)"

definition libhashkit_fnv1a_64 :: "surroundings \<Rightarrow> memory \<Rightarrow> nat \<Rightarrow> nat \<Rightarrow> uint" where
  "libhashkit_fnv1a_64 e m p len = hashkit_fnv1a_64 (sr_config e) (key_bytes m p len)"

definition libhashkit_fnv1_32 :: "surroundings \<Rightarrow> memory \<Rightarrow> nat \<Rightarrow> nat \<Rightarrow> uint" where
  "libhashkit_fnv1_32 e m p len = hashkit_fnv1_32 (key_bytes m p len)"

definition libhashkit_fnv1a_32 :: "surroundings \<Rightarrow> memory \<Rightarrow> nat \<Rightarrow> nat \<Rightarrow> uint" where
  "libhashkit_fnv1a_32 e m p len = hashkit_fnv1a_32 (key_bytes m p len)"

definition libhashkit_crc32 :: "surroundings \<Rightarrow> memory \<Rightarrow> nat \<Rightarrow> nat \<Rightarrow> uint" where
  "libhashkit_crc32 e m p len = hashkit_crc32 (key_bytes m p len)"

definition libhashkit_hsieh :: "surroundings \<Rightarrow> memory \<Rightarrow> nat \<Rightarrow> nat \<Rightarrow> uint" where
  "libhashkit_hsieh e m p len = hashkit_hsieh (sr_config e) (key_bytes m p len)"

definition libhashkit_murmur3 :: "surroundings \<Rightarrow> memory \<Rightarrow> nat \<Rightarrow> nat \<Rightarrow> uint" where
  "libhashkit_murmur3 e m p len = hashkit_murmur3 (key_bytes m p len)"

definition libhashkit_murmur :: "surroundings \<Rightarrow> memory \<Rightarrow> nat \<Rightarrow> nat \<Rightarrow> uint" where
  "libhashkit_murmur e m p len = hashkit_murmur (sr_config e) (key_bytes m p len)"

definition libhashkit_jenkins :: "surroundings \<Rightarrow> memory \<Rightarrow> nat \<Rightarrow> nat \<Rightarrow> uint" where
  "libhashkit_jenkins e m p len = hashkit_jenkins m p len"

definition libhashkit_md5 :: "surroundings \<Rightarrow> memory \<Rightarrow> nat \<Rightarrow> nat \<Rightarrow> uint" where
  "libhashkit_md5 e m p len = hashkit_md5 (sr_stack e) (key_bytes m p len)"

definition libhashkit_md5_signature :: "surroundings \<Rightarrow> memory \<Rightarrow> nat \<Rightarrow> nat \<Rightarrow> bytes" where
  "libhashkit_md5_signature e m p len = md5_signature (sr_stack e) (key_bytes m p len)"

fun libhashkit_digest :: "surroundings \<Rightarrow> memory \<Rightarrow> nat \<Rightarrow> nat \<Rightarrow> hashkit_hash_algorithm_t \<Rightarrow> uint" where
  "libhashkit_digest e m p len HASHKIT_HASH_DEFAULT = libhashkit_one_at_a_time e m p len"
| "libhashkit_digest e m p len HASHKIT_HASH_MD5 = libhashkit_md5 e m p len"
| "libhashkit_digest e m p len HASHKIT_HASH_CRC = libhashkit_crc32 e m p len"
| "libhashkit_digest e m p len HASHKIT_HASH_FNV1_64 = libhashkit_fnv1_64 e m p len"
| "libhashkit_digest e m p len HASHKIT_HASH_FNV1A_64 = libhashkit_fnv1a_64 e m p len"
| "libhashkit_digest e m p len HASHKIT_HASH_FNV1_32 = libhashkit_fnv1_32 e m p len"
| "libhashkit_digest e m p len HASHKIT_HASH_FNV1A_32 = libhashkit_fnv1a_32 e m p len"
| "libhashkit_digest e m p len HASHKIT_HASH_HSIEH =
     (if have_hsieh_hash (sr_config e) then libhashkit_hsieh e m p len else 1)"
| "libhashkit_digest e m p len HASHKIT_HASH_MURMUR3 = libhashkit_murmur3 e m p len"
| "libhashkit_digest e m p len HASHKIT_HASH_MURMUR =
     (if have_murmur_hash (sr_config e) then libhashkit_murmur e m p len else 1)"
| "libhashkit_digest e m p len HASHKIT_HASH_JENKINS = libhashkit_jenkins e m p len"
| "libhashkit_digest e m p len HASHKIT_HASH_CUSTOM = 1"
| "libhashkit_digest e m p len HASHKIT_HASH_MAX = 1"

subsection \<open>Creating, copying, comparing, freeing\<close>

text \<open>
  A null pointer is \<open>None\<close>; \<open>ok\<close> tells whether \<open>calloc\<close> succeeds. The fields of a new object
  that are not set yet are given as \<open>raw\<close>.
\<close>

definition u_hashkit_init :: "hashkit_st \<Rightarrow> hashkit_st" where
  "u_hashkit_init self = self\<lparr>
     base_hash := \<lparr>fn_function = one_at_a_time_fn, fn_context = None\<rparr>,
     distribution_hash := \<lparr>fn_function = one_at_a_time_fn, fn_context = None\<rparr>,
     is_base_same_distributed := True, kit_key := None\<rparr>"

definition u_hashkit_create :: "hashkit_st \<Rightarrow> bool \<Rightarrow> hashkit_st option \<Rightarrow> hashkit_st option" where
  "u_hashkit_create raw ok self =
     (case self of
        Some kit \<Rightarrow> Some (kit\<lparr>is_allocated := False\<rparr>)
      | None \<Rightarrow> if ok then Some (raw\<lparr>is_allocated := True\<rparr>) else None)"

definition hashkit_create :: "hashkit_st \<Rightarrow> bool \<Rightarrow> hashkit_st option \<Rightarrow> hashkit_st option" where
  "hashkit_create raw ok self = map_option u_hashkit_init (u_hashkit_create raw ok self)"

text \<open>What is left of the object: nothing once it is freed.\<close>

definition hashkit_free :: "hashkit_st option \<Rightarrow> hashkit_st option result" where
  "hashkit_free self =
     (case self of
        None \<Rightarrow> Inl NullPointer
      | Some kit \<Rightarrow> if is_allocated kit then Inr None else Inr (Some (kit\<lparr>kit_key := None\<rparr>)))"

definition aes_clone_key :: "bool \<Rightarrow> aes_key_t option \<Rightarrow> aes_key_t option" where
  "aes_clone_key ok key = (case key of None \<Rightarrow> None | Some k \<Rightarrow> if ok then Some k else None)"

definition hashkit_clone ::
  "hashkit_st \<Rightarrow> bool \<Rightarrow> bool \<Rightarrow> hashkit_st option \<Rightarrow> hashkit_st option \<Rightarrow> hashkit_st option" where
  "hashkit_clone raw ok okKey destination source =
     (case source of
        None \<Rightarrow> hashkit_create raw ok destination
      | Some src \<Rightarrow>
          (case u_hashkit_create raw ok destination of
             None \<Rightarrow> None
           | Some dst \<Rightarrow> Some (dst\<lparr>base_hash := base_hash src, distribution_hash := distribution_hash src,
               is_base_same_distributed := is_base_same_distributed src,
               kit_key := aes_clone_key okKey (kit_key src)\<rparr>)))"

definition hashkit_compare :: "hashkit_st option \<Rightarrow> hashkit_st option \<Rightarrow> bool" where
  "hashkit_compare first second =
     (case (first, second) of
        (Some a, Some b) \<Rightarrow>
          fn_function (base_hash a) = fn_function (base_hash b) \<and>
          fn_context (base_hash a) = fn_context (base_hash b) \<and>
          fn_function (distribution_hash a) = fn_function (distribution_hash b) \<and>
          fn_context (distribution_hash a) = fn_context (distribution_hash b) \<and>
          is_base_same_distributed a = is_base_same_distributed b
      | _ \<Rightarrow> False)"

section \<open>A slot for a function\<close>

text \<open>
  The two functions of an object are slots with the same contract: what is put in is read back,
  and putting back what was read changes nothing.
\<close>

locale function_slot =
  fixes get :: "hashkit_st \<Rightarrow> hashkit_function_st" and put :: "hashkit_function_st \<Rightarrow> hashkit_st \<Rightarrow> hashkit_st"
  assumes get_put: "get (put f k) = f" and put_get: "put (get k) k = k"
begin

text \<open>An algorithm that can be set is read back as the one it installs; any other changes nothing.\<close>

lemma set_slot:
  assumes "u_set_function cfg (Some (get k)) alg = (rc, f)"
  shows "rc = HASHKIT_SUCCESS \<longleftrightarrow> libhashkit_has_algorithm cfg alg \<and> alg \<noteq> HASHKIT_HASH_CUSTOM"
    and "rc = HASHKIT_SUCCESS \<Longrightarrow> get_function_type (fn_function (get (put (the f) k))) =
      (if alg = HASHKIT_HASH_MURMUR3 then HASHKIT_HASH_MURMUR else alg)"
    and "rc \<noteq> HASHKIT_SUCCESS \<Longrightarrow> alg \<noteq> HASHKIT_HASH_MAX \<Longrightarrow> put (the f) k = k"
  using assms
  by (cases alg; auto simp: Let_def get_put put_get get_function_type_def split: if_splits)+

end

interpretation base: function_slot base_hash "\<lambda>f. base_hash_update (\<lambda>_. f)"
  by unfold_locales simp_all

interpretation distribution: function_slot distribution_hash "\<lambda>f. distribution_hash_update (\<lambda>_. f)"
  by unfold_locales simp_all

lemma libhashkit_entry_points:
  "libhashkit_one_at_a_time e = (\<lambda>m p len. call_fn e one_at_a_time_fn m p len None)"
  "libhashkit_md5 e = (\<lambda>m p len. call_fn e md5_fn m p len None)"
  "libhashkit_crc32 e = (\<lambda>m p len. call_fn e crc32_fn m p len None)"
  "libhashkit_fnv1_64 e = (\<lambda>m p len. call_fn e fnv1_64_fn m p len None)"
  "libhashkit_fnv1a_64 e = (\<lambda>m p len. call_fn e fnv1a_64_fn m p len None)"
  "libhashkit_fnv1_32 e = (\<lambda>m p len. call_fn e fnv1_32_fn m p len None)"
  "libhashkit_fnv1a_32 e = (\<lambda>m p len. call_fn e fnv1a_32_fn m p len None)"
  "libhashkit_hsieh e = (\<lambda>m p len. call_fn e hsieh_fn m p len None)"
  "libhashkit_murmur e = (\<lambda>m p len. call_fn e murmur_fn m p len None)"
  "libhashkit_jenkins e = (\<lambda>m p len. call_fn e jenkins_fn m p len None)"
  by (simp_all add: fun_eq_iff libhashkit_one_at_a_time_def libhashkit_md5_def libhashkit_crc32_def libhashkit_fnv1_64_def
      libhashkit_fnv1a_64_def libhashkit_fnv1_32_def libhashkit_fnv1a_32_def libhashkit_hsieh_def libhashkit_murmur_def
      libhashkit_jenkins_def)

lemma set_function_digest:
  assumes "u_set_function (sr_config e) (Some f) alg = (HASHKIT_SUCCESS, Some f')"
  shows "call_fn e (fn_function f') m p len (fn_context f') =
    libhashkit_digest e m p len (if alg = HASHKIT_HASH_MURMUR3 then HASHKIT_HASH_MURMUR else alg)"
  using assms by (cases alg) (auto simp: Let_def libhashkit_entry_points split: if_splits)

section \<open>Properties\<close>

text \<open>
  C39. Setting an algorithm: it succeeds exactly for the algorithms that are built in; the object
  then reports the algorithm and hashes every key as the stand-alone function does, with the
  exception that Murmur 3 installs Murmur; a refused algorithm leaves the object as it was.
\<close>

theorem hashkit_set_function_digest:
  assumes "hashkit_set_function (sr_config e) kit alg = (rc, kit')"
    and "alg' = (if alg = HASHKIT_HASH_MURMUR3 then HASHKIT_HASH_MURMUR else alg)"
  shows "(rc = HASHKIT_SUCCESS \<longleftrightarrow> libhashkit_has_algorithm (sr_config e) alg \<and> alg \<noteq> HASHKIT_HASH_CUSTOM) \<and>
    (rc = HASHKIT_SUCCESS \<longrightarrow> hashkit_get_function (Some kit') = alg' \<and>
       hashkit_digest e kit' m p len = libhashkit_digest e m p len alg') \<and>
    (rc \<noteq> HASHKIT_SUCCESS \<longrightarrow> alg \<noteq> HASHKIT_HASH_MAX \<longrightarrow> kit' = kit) \<and>
    distribution_hash kit' = distribution_hash kit"
proof -
  obtain f where f: "u_set_function (sr_config e) (Some (base_hash kit)) alg = (rc, f)"
    and kit': "kit' = kit\<lparr>base_hash := the f\<rparr>"
    using assms(1) by (auto simp: hashkit_set_function_def split: prod.splits)
  have "f \<noteq> None" using f by (cases alg) (auto simp: Let_def split: if_splits)
  then have f': "u_set_function (sr_config e) (Some (base_hash kit)) alg = (rc, Some (base_hash kit'))"
    using f kit' by auto
  have "hashkit_digest e kit' m p len = libhashkit_digest e m p len alg'" if "rc = HASHKIT_SUCCESS"
    using set_function_digest [of e "base_hash kit" alg "base_hash kit'"] f' that by (simp add: hashkit_digest_def assms(2))
  then show ?thesis
    using base.set_slot [OF f] by (auto simp: kit' hashkit_get_function_def assms(2))
qed

definition ex_kit :: hashkit_st where
  "ex_kit = \<lparr>base_hash = \<lparr>fn_function = one_at_a_time_fn, fn_context = None\<rparr>,
     distribution_hash = \<lparr>fn_function = one_at_a_time_fn, fn_context = None\<rparr>,
     is_base_same_distributed = True, is_allocated = False, kit_key = None\<rparr>"

definition ex_env :: surroundings where
  "ex_env = \<lparr>sr_config = mem_config, sr_stack = replicate 64 0, sr_user = \<lambda>_ _ _ _ _. 0\<rparr>"

lemma hashkit_set_function_digest_witness:
  "hashkit_set_function mem_config ex_kit HASHKIT_HASH_MURMUR3 =
     (HASHKIT_SUCCESS, ex_kit\<lparr>base_hash := \<lparr>fn_function = murmur_fn, fn_context = None\<rparr>\<rparr>) \<and>
   hashkit_digest ex_env (ex_kit\<lparr>base_hash := \<lparr>fn_function = murmur_fn, fn_context = None\<rparr>\<rparr>) (\<lambda>_. 0) 0 1 =
     libhashkit_digest ex_env (\<lambda>_. 0) 0 1 HASHKIT_HASH_MURMUR \<and>
   libhashkit_digest ex_env (\<lambda>_. 0) 0 1 HASHKIT_HASH_MURMUR \<noteq> libhashkit_digest ex_env (\<lambda>_. 0) 0 1 HASHKIT_HASH_MURMUR3"
proof -
  let ?kit = "ex_kit\<lparr>base_hash := \<lparr>fn_function = murmur_fn, fn_context = None\<rparr>\<rparr>"
  have set: "hashkit_set_function (sr_config ex_env) ex_kit HASHKIT_HASH_MURMUR3 = (HASHKIT_SUCCESS, ?kit)"
    by (simp add: hashkit_set_function_def ex_env_def mem_config_def ex_kit_def)
  have "libhashkit_digest ex_env (\<lambda>_. 0) 0 1 HASHKIT_HASH_MURMUR \<noteq> libhashkit_digest ex_env (\<lambda>_. 0) 0 1 HASHKIT_HASH_MURMUR3"
    by code_simp
  then show ?thesis
    using hashkit_set_function_digest [OF set refl, of "\<lambda>_. 0" 0 1] set by (simp add: ex_env_def)
qed

text \<open>
  Copying: whenever there is memory, the copy of an object compares equal to it, hashes every
  key as it does and holds the same encryption key; it is marked as allocated exactly when the
  library allocated it, so freeing it leaves nothing of an allocated copy and only drops the key
  of one in the caller's memory.
\<close>

lemma hashkit_clone_equal:
  assumes "destination \<noteq> None \<or> ok" and "okKey"
  shows "\<exists>copy. hashkit_clone raw ok okKey destination (Some src) = Some copy \<and>
    hashkit_compare (Some copy) (Some src) \<and>
    (\<forall>e m p len. hashkit_digest e copy m p len = hashkit_digest e src m p len) \<and>
    kit_key copy = kit_key src \<and> (is_allocated copy \<longleftrightarrow> destination = None) \<and>
    hashkit_free (Some copy) = Inr (if destination = None then None else Some (copy\<lparr>kit_key := None\<rparr>))"
proof -
  obtain dst where dst: "u_hashkit_create raw ok destination = Some dst" "is_allocated dst \<longleftrightarrow> destination = None"
    using assms(1) by (cases destination) (auto simp: u_hashkit_create_def)
  then show ?thesis
    using assms(2) by (auto simp: hashkit_clone_def aes_clone_key_def hashkit_compare_def hashkit_digest_def
        hashkit_free_def split: option.split)
qed

lemma hashkit_clone_equal_witness:
  "\<exists>copy. hashkit_clone ex_kit True True None (Some ex_kit) = Some copy \<and> hashkit_compare (Some copy) (Some ex_kit)"
  using hashkit_clone_equal [of None True True ex_kit ex_kit] by auto

end
