(* ===== verification/HashString.thy ===== *)
theory HashString
  imports HashBasic
begin

text \<open>
  The growing byte strings of \<open>libhashkit\<close> (\<open>string.cc\<close>), which the encryption functions return:
  a block of memory, its size and the end of the part in use. Sizes are \<open>size_t\<close>, 32 bits on
  the target, and the growth of a string is computed in that arithmetic.

  The lemmas show that the string is well formed after every operation, that an operation that
  reports success has made room and kept the contents, and that appending appends.
\<close>

section \<open>Memory\<close>

text \<open>
  The allocator: which requests it grants, and what the bytes it adds hold. It never grants a
  block of half the address space or more.
\<close>

record allocator =
  al_grants :: "nat \<Rightarrow> bool"
  al_junk :: "nat \<Rightarrow> 8 word"

definition realloc :: "allocator \<Rightarrow> bytes \<Rightarrow> nat \<Rightarrow> bytes option" where
  "realloc al block n =
     (if al_grants al n \<and> n < 2 ^ 31 then Some (take n block @ map (al_junk al) [length block..<n]) else None)"

section \<open>Strings\<close>

text \<open>\<open>str_block\<close> is empty while the pointer is null; \<open>str_end\<close> is an offset into the block.\<close>

record hashkit_string_st =
  str_end :: uint
  current_size :: uint
  str_block :: bytes

definition HASHKIT_BLOCK_SIZE :: uint where
  "HASHKIT_BLOCK_SIZE = 1024"

definition u_string_check :: "allocator \<Rightarrow> hashkit_string_st \<Rightarrow> uint \<Rightarrow> bool \<times> hashkit_string_st" where
  "u_string_check al s need =
     (let room = current_size s - str_end s
      in if need \<noteq> 0 \<and> room < need
         then let adjust = (need - room) div HASHKIT_BLOCK_SIZE + 1;
                  new_size = adjust * HASHKIT_BLOCK_SIZE + current_size s
              in if new_size < need then (False, s)
                 else case realloc al (str_block s) (unat new_size) of
                        None \<Rightarrow> (False, s)
                      | Some new_value \<Rightarrow>
                          (True, s\<lparr>str_block := new_value, current_size := current_size s + HASHKIT_BLOCK_SIZE * adjust\<rparr>)
         else (True, s))"

definition u_init_string :: hashkit_string_st where
  "u_init_string = \<lparr>str_end = 0, current_size = 0, str_block = []\<rparr>"

text \<open>\<open>okSelf\<close> tells whether the memory for the string object itself is granted.\<close>

definition hashkit_string_create :: "allocator \<Rightarrow> bool \<Rightarrow> uint \<Rightarrow> hashkit_string_st option" where
  "hashkit_string_create al okSelf initial_size =
     (if okSelf
      then case u_string_check al u_init_string initial_size of (ok, s) \<Rightarrow> if ok then Some s else None
      else None)"

definition hashkit_string_append_character ::
  "allocator \<Rightarrow> hashkit_string_st \<Rightarrow> 8 word \<Rightarrow> bool \<times> hashkit_string_st" where
  "hashkit_string_append_character al s character =
     (case u_string_check al s 1 of
        (ok, s) \<Rightarrow> if ok then (True, s\<lparr>str_block := (str_block s)[unat (str_end s) := character], str_end := str_end s + 1\<rparr>)
                  else (False, s))"

definition hashkit_string_append ::
  "allocator \<Rightarrow> hashkit_string_st \<Rightarrow> bytes \<Rightarrow> (bool \<times> hashkit_string_st) result" where
  "hashkit_string_append al s val =
     (let len = of_nat (length val) in
      case u_string_check al s len of
        (ok, s) \<Rightarrow>
          if \<not> ok then Inr (False, s)
          else if current_size s < len then Inl AssertFailed
          else if str_block s = [] then Inl AssertFailed
          else Inr (True, s\<lparr>str_block := memcpy_at (str_block s) (unat (str_end s)) val, str_end := str_end s + len\<rparr>))"

definition hashkit_string_length :: "hashkit_string_st \<Rightarrow> uint" where
  "hashkit_string_length s = str_end s"

definition hashkit_string_max_size :: "hashkit_string_st \<Rightarrow> uint" where
  "hashkit_string_max_size s = current_size s"

definition hashkit_string_c_str :: "hashkit_string_st \<Rightarrow> bytes" where
  "hashkit_string_c_str s = str_block s"

text \<open>The copy is the used part with a zero behind it.\<close>

definition hashkit_string_c_copy :: "bool \<Rightarrow> hashkit_string_st \<Rightarrow> bytes option" where
  "hashkit_string_c_copy ok s =
     (if hashkit_string_length s = 0 then None
      else if ok then Some (take (unat (hashkit_string_length s)) (hashkit_string_c_str s) @ [0]) else None)"

definition hashkit_string_reset :: "hashkit_string_st \<Rightarrow> hashkit_string_st" where
  "hashkit_string_reset s = s\<lparr>str_end := 0\<rparr>"

definition hashkit_string_resize :: "allocator \<Rightarrow> hashkit_string_st \<Rightarrow> uint \<Rightarrow> bool \<times> hashkit_string_st" where
  "hashkit_string_resize al s need = u_string_check al s need"

definition hashkit_string_take :: "hashkit_string_st \<Rightarrow> bytes \<times> hashkit_string_st" where
  "hashkit_string_take s = (str_block s, u_init_string)"

definition hashkit_string_set_length :: "allocator \<Rightarrow> hashkit_string_st \<Rightarrow> uint \<Rightarrow> hashkit_string_st" where
  "hashkit_string_set_length al s len =
     (case u_string_check al s len of (ok, s) \<Rightarrow> if ok then s\<lparr>str_end := len\<rparr> else s)"

section \<open>Invariant and contents\<close>

definition string_wf :: "hashkit_string_st \<Rightarrow> bool" where
  "string_wf s \<longleftrightarrow> length (str_block s) = unat (current_size s) \<and> str_end s \<le> current_size s \<and> current_size s < 2 ^ 31"

definition contents :: "hashkit_string_st \<Rightarrow> bytes" where
  "contents s = take (unat (str_end s)) (str_block s)"

lemma wrapped_sum: "2 ^ 32 \<le> g \<Longrightarrow> g < 2 ^ 32 + n \<Longrightarrow> n < 2 ^ 32 \<Longrightarrow> g mod 2 ^ 32 < (n :: nat)"
  by (simp add: le_mod_geq)

text \<open>The new size is a number of blocks more, and it is large enough unless the sum wrapped.\<close>

lemma grown_size:
  fixes need room size :: uint
  assumes room: "room \<le> size" "room < need" and size: "size < 2 ^ 31"
    and new: "new_size = ((need - room) div 1024 + 1) * 1024 + size" and enough: "\<not> new_size < need"
  shows "unat new_size = ((unat need - unat room) div 1024 + 1) * 1024 + unat size"
    and "unat need + unat size < unat new_size + unat room"
proof -
  define d where "d = unat need - unat room"
  have d: "unat (need - room) = d" using room(2) by (simp add: unat_sub d_def)
  have need: "unat need = d + unat room" "0 < d" using room(2) by (simp_all add: d_def word_less_nat_alt)
  have lt: "unat need < 2 ^ 32" "unat size < 2 ^ 31" "unat room \<le> unat size"
    using unat_lt32 [of need] size room(1) by (simp_all add: word_less_nat_alt word_le_nat_alt)
  let ?grown = "(d div 1024 + 1) * 1024 + unat size"
  have "d div 1024 * 1024 \<le> d" "d < (d div 1024 + 1) * 1024" by (simp_all add: dividend_less_times_div)
  have "new_size = of_nat ?grown"
    using new d by (simp add: word_unat_eq_iff unat_of_nat unat_word_ariths unat_div mod_simps add.commute [of 1024])
  then have mod: "unat new_size = ?grown mod 2 ^ 32" by (simp only: unat_of_nat) simp
  have "?grown < 2 ^ 32"
  proof (rule ccontr)
    assume "\<not> ?grown < 2 ^ 32"
    moreover have "?grown < 2 ^ 32 + unat need" using lt need \<open>d div 1024 * 1024 \<le> d\<close> by simp
    ultimately have "?grown mod 2 ^ 32 < unat need" using lt(1) by (intro wrapped_sum) simp_all
    then have "unat new_size < unat need" by (simp only: mod)
    with enough show False by (simp add: word_less_nat_alt)
  qed
  then show g: "unat new_size = ((unat need - unat room) div 1024 + 1) * 1024 + unat size" using mod unfolding d_def [symmetric] by (simp only: mod_less)
  show "unat need + unat size < unat new_size + unat room"
    unfolding g using need \<open>d < (d div 1024 + 1) * 1024\<close> unfolding d_def [symmetric] by linarith
qed

text \<open>The three ways the check can end.\<close>

lemma u_string_check_cases:
  obtains (fits) "need = 0 \<or> need \<le> current_size s - str_end s" "u_string_check al s need = (True, s)"
  | (refused) "u_string_check al s need = (False, s)"
  | (grown) new where "current_size s - str_end s < need" "\<not> new < need" "unat new < 2 ^ 31"
      "new = ((need - (current_size s - str_end s)) div 1024 + 1) * 1024 + current_size s"
      "u_string_check al s need = (True, s\<lparr>str_block := take (unat new) (str_block s) @
         map (al_junk al) [length (str_block s)..<unat new], current_size := new\<rparr>)"
proof (cases "need \<noteq> 0 \<and> current_size s - str_end s < need")
  case True
  define adjust where "adjust = (need - (current_size s - str_end s)) div 1024 + 1"
  define new where "new = adjust * 1024 + current_size s"
  have "current_size s + 1024 * adjust = new" by (simp add: new_def)
  then have check: "u_string_check al s need =
      (if new < need then (False, s)
       else if al_grants al (unat new) \<and> unat new < 2 ^ 31
            then (True, s\<lparr>str_block := take (unat new) (str_block s) @
              map (al_junk al) [length (str_block s)..<unat new], current_size := new\<rparr>)
            else (False, s))"
    using True unfolding u_string_check_def HASHKIT_BLOCK_SIZE_def Let_def
    by (simp only: adjust_def [symmetric] new_def [symmetric] realloc_def if_True split: if_split) auto
  show ?thesis
    using True check refused grown [of new] unfolding new_def [symmetric] adjust_def [symmetric] by (metis (full_types))
next
  case False
  then have "u_string_check al s need = (True, s)" by (simp only: u_string_check_def Let_def if_False)
  moreover have "need = 0 \<or> need \<le> current_size s - str_end s" using False by (simp add: not_less)
  ultimately show ?thesis by (rule fits [rotated])
qed

lemma string_check_ok:
  assumes "string_wf s" and "u_string_check al s need = (ok, s')"
  shows "string_wf s' \<and> contents s' = contents s \<and> str_end s' = str_end s \<and> current_size s \<le> current_size s' \<and>
    (if ok then unat (str_end s') + unat need \<le> unat (current_size s') else s' = s)"
proof -
  let ?room = "current_size s - str_end s"
  have wf: "length (str_block s) = unat (current_size s)" "str_end s \<le> current_size s" "current_size s < 2 ^ 31"
    using assms(1) by (simp_all add: string_wf_def)
  have le: "unat (str_end s) \<le> unat (current_size s)" using wf(2) by (simp add: word_le_nat_alt)
  have room: "unat ?room = unat (current_size s) - unat (str_end s)" "?room \<le> current_size s"
    using wf(2) by (simp_all add: unat_sub word_le_nat_alt)
  from u_string_check_cases [of need s al] show ?thesis
  proof cases
    case fits
    then show ?thesis using assms room le by (auto simp: word_le_nat_alt)
  next
    case (grown new)
    have "unat (current_size s) \<le> unat new" "unat need + unat (current_size s) < unat new + unat ?room"
      using grown_size [OF room(2) grown(1) wf(3) grown(4,2)] by simp_all
    then show ?thesis using grown(3,5) assms(2) wf le room(1)
      by (auto simp: string_wf_def contents_def word_le_nat_alt word_less_nat_alt)
  qed (use assms in auto)
qed

text \<open>Writing behind the end of a string that has room for it.\<close>

lemma memcpy_at_contents:
  "off + length src \<le> length dst \<Longrightarrow> take (off + length src) (memcpy_at dst off src) = take off dst @ src"
  by (simp add: memcpy_at_def)

lemma length_memcpy_at: "off + length src \<le> length dst \<Longrightarrow> length (memcpy_at dst off src) = length dst"
  by (simp add: memcpy_at_def)

lemma string_write:
  assumes "string_wf s" and "length val < 2 ^ 32" and "unat (str_end s) + length val \<le> unat (current_size s)"
  shows "string_wf (s\<lparr>str_block := memcpy_at (str_block s) (unat (str_end s)) val, str_end := str_end s + of_nat (length val)\<rparr>)"
    and "contents (s\<lparr>str_block := memcpy_at (str_block s) (unat (str_end s)) val, str_end := str_end s + of_nat (length val)\<rparr>) =
      contents s @ val"
proof -
  have l: "length (str_block s) = unat (current_size s)" using assms(1) by (simp add: string_wf_def)
  have "unat (str_end s) + unat (of_nat (length val) :: uint) < 2 ^ 32"
    using assms(2,3) unat_lt32 [of "current_size s"] by (simp add: unat_of_nat)
  then have e: "unat (str_end s + of_nat (length val)) = unat (str_end s) + length val"
    using assms(2) by (simp add: unat_add32 unat_of_nat)
  show "string_wf (s\<lparr>str_block := memcpy_at (str_block s) (unat (str_end s)) val, str_end := str_end s + of_nat (length val)\<rparr>)"
    using assms(1,3) e l by (simp add: string_wf_def word_le_nat_alt length_memcpy_at)
  show "contents (s\<lparr>str_block := memcpy_at (str_block s) (unat (str_end s)) val, str_end := str_end s + of_nat (length val)\<rparr>) =
      contents s @ val"
    using assms(3) e l by (simp add: contents_def memcpy_at_contents)
qed

lemma list_update_memcpy: "i < length dst \<Longrightarrow> dst[i := c] = memcpy_at dst i [c]"
  by (simp add: memcpy_at_def upd_conv_take_nth_drop)

lemma hashkit_string_create_wf:
  assumes "hashkit_string_create al okSelf n = Some s"
  shows "string_wf s \<and> contents s = [] \<and> n \<le> current_size s"
proof -
  have check: "u_string_check al u_init_string n = (True, s)"
    using assms by (auto simp: hashkit_string_create_def split: if_splits prod.splits)
  have "string_wf u_init_string" "contents u_init_string = []" "str_end u_init_string = 0"
    by (simp_all add: string_wf_def u_init_string_def contents_def)
  with string_check_ok [OF _ check] show ?thesis by (simp add: word_le_nat_alt)
qed

section \<open>Properties\<close>

text \<open>
  C40. Appending to a well-formed string never writes outside its block: with success the contents
  are the old ones followed by the new bytes, without memory the string is unchanged, and in both
  cases the string stays well formed, also where the computation of the new size wraps. The only
  abnormal end is the assertion that appending nothing to a string without a block runs into.
\<close>

theorem hashkit_string_append_contents:
  assumes "string_wf s" and "length val < 2 ^ 32"
  shows "(if str_block s = [] \<and> val = [] then hashkit_string_append al s val = Inl AssertFailed
    else \<exists>ok s'. hashkit_string_append al s val = Inr (ok, s') \<and> string_wf s' \<and>
      contents s' = (if ok then contents s @ val else contents s) \<and> current_size s \<le> current_size s')"
proof -
  obtain ok s1 where check: "u_string_check al s (of_nat (length val)) = (ok, s1)" by fastforce
  note c = string_check_ok [OF assms(1) check]
  have len: "unat (of_nat (length val) :: uint) = length val" using assms(2) by (simp add: unat_of_nat)
  show ?thesis
  proof (cases ok)
    case True
    then have room: "unat (str_end s1) + length val \<le> unat (current_size s1)" using c len by auto
    have block: "length (str_block s1) = unat (current_size s1)" "length (str_block s) = unat (current_size s)"
      using c assms(1) by (simp_all add: string_wf_def)
    have fits: "\<not> current_size s1 < of_nat (length val)" using room len by (simp add: word_less_nat_alt)
    have empty: "str_block s1 = [] \<longleftrightarrow> str_block s = [] \<and> val = []"
    proof
      assume "str_block s1 = []"
      then show "str_block s = [] \<and> val = []" using block room c by (auto simp: word_le_nat_alt)
    next
      assume "str_block s = [] \<and> val = []"
      then show "str_block s1 = []" using check by (simp add: u_string_check_def)
    qed
    then show ?thesis
      using True check c fits string_write [OF _ assms(2) room]
      by (auto simp: hashkit_string_append_def Let_def)
  next
    case False
    moreover from this have "val \<noteq> []" using check by (auto simp: u_string_check_def)
    ultimately show ?thesis using check c assms(1) by (auto simp: hashkit_string_append_def Let_def)
  qed
qed

lemma hashkit_string_append_contents_witness:
  "\<exists>s'. hashkit_string_append \<lparr>al_grants = \<lambda>_. True, al_junk = \<lambda>_. 0\<rparr> u_init_string [1, 2, 3] = Inr (True, s') \<and>
     contents s' = [1, 2, 3]"
proof -
  let ?al = "\<lparr>al_grants = \<lambda>_. True, al_junk = \<lambda>_. 0\<rparr> :: allocator"
  have wf: "string_wf u_init_string" and empty: "contents u_init_string = []"
    by (simp_all add: string_wf_def u_init_string_def contents_def)
  have "fst (u_string_check ?al u_init_string 3)"
    by (simp add: u_string_check_def u_init_string_def realloc_def HASHKIT_BLOCK_SIZE_def)
  then obtain s1 where check: "u_string_check ?al u_init_string 3 = (True, s1)" by (metis prod.collapse eq_fst_iff)
  have "hashkit_string_append ?al u_init_string [1, 2, 3] \<noteq> Inr (False, s')" for s'
    using check by (simp add: hashkit_string_append_def)
  moreover obtain ok s' where "hashkit_string_append ?al u_init_string [1, 2, 3] = Inr (ok, s')"
    "contents s' = (if ok then contents u_init_string @ [1, 2, 3] else contents u_init_string)"
    using hashkit_string_append_contents [OF wf, of "[1, 2, 3]" ?al] by auto
  ultimately show ?thesis using empty by (cases ok) auto
qed

end
