(* ===== verification/Aes.thy ===== *)
theory Aes
  imports RijndaelInv HashKit HashString
begin

text \<open>
  Encryption of values (\<open>aes.cc\<close> and \<open>encrypt.cc\<close>): a key of any length is folded into 256 bits and
  expanded for both directions; a message is encrypted block by block into a new string, the last
  block filled up with the number of bytes missing; decryption checks the length and takes the
  padding off. Writes through the pointer into the string are checked against its block.

  The lemmas show that decryption gives back the message, that no write leaves the block, and
  what happens to the empty message.
\<close>

unbundle bit_operations_syntax

section \<open>Keys\<close>

definition AES_KEY_LENGTH :: int where
  "AES_KEY_LENGTH = 256"

definition AES_BLOCK_SIZE :: nat where
  "AES_BLOCK_SIZE = 16"

text \<open>One byte of the key enters the folded key; behind its end the folded key starts again.\<close>

definition fold_key_step :: "bytes \<times> nat \<Rightarrow> 8 word \<Rightarrow> bytes \<times> nat" where
  "fold_key_step st c =
     (case st of (rkey, ptr) \<Rightarrow>
        let ptr = (if ptr = length rkey then 0 else ptr) in (rkey[ptr := rkey ! ptr XOR c], ptr + 1))"

definition fold_key :: "bytes \<Rightarrow> bytes" where
  "fold_key key = fst (foldl fold_key_step (replicate 32 0, 0) key)"

text \<open>\<open>ok\<close> tells whether the memory for the key object is granted; it is filled with zeros.\<close>

definition aes_create_key :: "bool \<Rightarrow> bytes \<Rightarrow> aes_key_t option" where
  "aes_create_key ok key =
     (if ok
      then let rkey = fold_key key in
           case rijndaelKeySetupDec (replicate 60 0) rkey AES_KEY_LENGTH of
             (dk, dnr) \<Rightarrow>
               case rijndaelKeySetupEnc (replicate 60 0) rkey AES_KEY_LENGTH of
                 (ek, enr) \<Rightarrow> Some \<lparr>encode_key = \<lparr>rk_nr = enr, rk_words = ek\<rparr>, decode_key = \<lparr>rk_nr = dnr, rk_words = dk\<rparr>\<rparr>
      else None)"

section \<open>Messages\<close>

definition write_at :: "bytes \<Rightarrow> nat \<Rightarrow> bytes \<Rightarrow> bytes result" where
  "write_at block off src =
     (if block = [] then Inl NullPointer
      else if off + length src \<le> length block then Inr (memcpy_at block off src) else Inl BufferOverflow)"

text \<open>The loop over complete blocks: what is left of the source, where \<open>dest\<close> points, the memory.\<close>

fun each_block :: "(bytes \<Rightarrow> bytes) \<Rightarrow> nat \<Rightarrow> bytes \<Rightarrow> nat \<Rightarrow> bytes \<Rightarrow> (bytes \<times> nat \<times> bytes) result" where
  "each_block cipher 0 source dest block = Inr (source, dest, block)"
| "each_block cipher (Suc x) source dest block =
     rbind (write_at block dest (cipher (take AES_BLOCK_SIZE source)))
       (\<lambda>block. each_block cipher x (drop AES_BLOCK_SIZE source) (dest + AES_BLOCK_SIZE) block)"

definition aes_encrypt ::
  "allocator \<Rightarrow> bool \<Rightarrow> aes_key_t option \<Rightarrow> bytes \<Rightarrow> hashkit_string_st option result" where
  "aes_encrypt al okSelf key source =
     (case key of
        None \<Rightarrow> Inr None
      | Some k \<Rightarrow>
          let cipher = rijndaelEncrypt (rk_words (encode_key k)) (rk_nr (encode_key k));
              num_blocks = length source div AES_BLOCK_SIZE
          in case hashkit_string_create al okSelf (of_nat (length source)) of
               None \<Rightarrow> Inr None
             | Some destination \<Rightarrow>
                 rbind (each_block cipher num_blocks source 0 (str_block destination))
                   (\<lambda>(rest, dest, block).
                      let pad_len = AES_BLOCK_SIZE - (length source - AES_BLOCK_SIZE * num_blocks);
                          last = take (AES_BLOCK_SIZE - pad_len) rest @ replicate pad_len (of_nat pad_len)
                      in rbind (write_at block dest (cipher last))
                           (\<lambda>block. Inr (Some (hashkit_string_set_length al (destination\<lparr>str_block := block\<rparr>)
                              (of_nat (AES_BLOCK_SIZE * (num_blocks + 1))))))))"

definition aes_decrypt ::
  "allocator \<Rightarrow> bool \<Rightarrow> aes_key_t option \<Rightarrow> bytes \<Rightarrow> hashkit_string_st option result" where
  "aes_decrypt al okSelf key source =
     (case key of
        None \<Rightarrow> Inr None
      | Some k \<Rightarrow>
          let cipher = rijndaelDecrypt (rk_words (decode_key k)) (rk_nr (decode_key k));
              num_blocks = length source div AES_BLOCK_SIZE
          in if length source \<noteq> num_blocks * AES_BLOCK_SIZE \<or> num_blocks = 0 then Inr None
             else case hashkit_string_create al okSelf (of_nat (length source)) of
                    None \<Rightarrow> Inr None
                  | Some destination \<Rightarrow>
                      rbind (each_block cipher (num_blocks - 1) source 0 (str_block destination))
                        (\<lambda>(rest, dest, block).
                           let last = cipher (take AES_BLOCK_SIZE rest); pad_len = unat (last ! (AES_BLOCK_SIZE - 1))
                           in if AES_BLOCK_SIZE < pad_len then Inr None
                              else rbind (write_at block dest (take (AES_BLOCK_SIZE - pad_len) last))
                                     (\<lambda>block. Inr (Some (hashkit_string_set_length al (destination\<lparr>str_block := block\<rparr>)
                                        (of_nat (AES_BLOCK_SIZE * num_blocks - pad_len)))))))"

section \<open>Hash objects with a key\<close>

definition hashkit_encrypt :: "allocator \<Rightarrow> bool \<Rightarrow> hashkit_st \<Rightarrow> bytes \<Rightarrow> hashkit_string_st option result" where
  "hashkit_encrypt al okSelf kit source = aes_encrypt al okSelf (kit_key kit) source"

definition hashkit_decrypt :: "allocator \<Rightarrow> bool \<Rightarrow> hashkit_st \<Rightarrow> bytes \<Rightarrow> hashkit_string_st option result" where
  "hashkit_decrypt al okSelf kit source = aes_decrypt al okSelf (kit_key kit) source"

definition hashkit_key :: "bool \<Rightarrow> hashkit_st \<Rightarrow> bytes \<Rightarrow> bool \<times> hashkit_st" where
  "hashkit_key ok kit key =
     (let k = aes_create_key ok key in (k \<noteq> None, kit\<lparr>kit_key := k\<rparr>))"

section \<open>Writing blocks\<close>

text \<open>What the loop over complete blocks writes.\<close>

fun ciphered :: "(bytes \<Rightarrow> bytes) \<Rightarrow> nat \<Rightarrow> bytes \<Rightarrow> bytes" where
  "ciphered f 0 source = []"
| "ciphered f (Suc n) source = f (take 16 source) @ ciphered f n (drop 16 source)"

lemma write_at_ok:
  assumes "off + length src \<le> length block" and "block \<noteq> []"
  shows "\<exists>block'. write_at block off src = Inr block' \<and> length block' = length block \<and>
    take (off + length src) block' = take off block @ src"
  using assms by (auto simp: write_at_def length_memcpy_at memcpy_at_contents)

lemma each_block_writes:
  assumes "\<And>b. length (f b) = 16" and "dest + 16 * n \<le> length block" and "block \<noteq> []"
  shows "\<exists>block'. each_block f n source dest block = Inr (drop (16 * n) source, dest + 16 * n, block') \<and>
    length block' = length block \<and> take (dest + 16 * n) block' = take dest block @ ciphered f n source"
  using assms(2,3)
proof (induction n arbitrary: source dest block)
  case (Suc n)
  obtain b1 where b1: "write_at block dest (f (take 16 source)) = Inr b1" "length b1 = length block"
    "take (dest + 16) b1 = take dest block @ f (take 16 source)"
    using write_at_ok [of dest "f (take 16 source)" block] Suc.prems assms(1) by auto
  moreover have "b1 \<noteq> []" using b1(2) Suc.prems(2) by auto
  ultimately show ?case
    using Suc.IH [of "dest + 16" b1 "drop 16 source"] Suc.prems(1) by (auto simp: AES_BLOCK_SIZE_def ac_simps)
qed simp

lemma length_ciphered: "(\<And>b. length (f b) = 16) \<Longrightarrow> length (ciphered f n source) = 16 * n"
  by (induction n arbitrary: source) auto

section \<open>Block ciphers\<close>

text \<open>A pair of maps on blocks of 16 bytes, the second of which undoes the first.\<close>

locale block_cipher =
  fixes encipher :: "bytes \<Rightarrow> bytes" and decipher :: "bytes \<Rightarrow> bytes"
  assumes encipher_length: "length (encipher b) = 16"
    and decipher_length: "length (decipher b) = 16"
    and decipher_encipher: "length b = 16 \<Longrightarrow> decipher (encipher b) = b"
begin

lemma deciphered:
  "16 * n \<le> length source \<Longrightarrow> ciphered decipher n (ciphered encipher n source @ rest) = take (16 * n) source"
proof (induction n arbitrary: source)
  case (Suc n)
  have "take 16 (encipher b @ x) = encipher b" "drop 16 (encipher b @ x) = x" for b x by (simp_all add: encipher_length)
  then show ?case using Suc by (simp add: decipher_encipher encipher_length take_add)
qed simp

end

lemma length_rijndael: "length (rijndaelEncrypt rk nr pt) = 16" "length (rijndaelDecrypt rk nr ct) = 16"
  by (simp_all add: rijndaelEncrypt_def rijndaelDecrypt_def split: prod.split)

definition encode_rk :: "bytes \<Rightarrow> uint list" where
  "encode_rk rkey = fst (rijndaelKeySetupEnc (replicate 60 0) rkey AES_KEY_LENGTH)"

definition decode_rk :: "bytes \<Rightarrow> uint list" where
  "decode_rk rkey = fst (rijndaelKeySetupDec (replicate 60 0) rkey AES_KEY_LENGTH)"

lemma aes_create_key_schedules:
  "aes_create_key True key =
     Some \<lparr>encode_key = \<lparr>rk_nr = 14, rk_words = encode_rk (fold_key key)\<rparr>,
       decode_key = \<lparr>rk_nr = 14, rk_words = decode_rk (fold_key key)\<rparr>\<rparr>"
  by (simp add: aes_create_key_def encode_rk_def decode_rk_def AES_KEY_LENGTH_def rijndaelKeySetupDec_def
      rijndaelKeySetupEnc_def Let_def)

interpretation aes: block_cipher "rijndaelEncrypt (encode_rk rkey) 14" "rijndaelDecrypt (decode_rk rkey) 14" for rkey
proof
  fix b :: bytes
  assume b: "length b = 16"
  have len: "length (encode_rk rkey) = 60" by (simp add: encode_rk_def AES_KEY_LENGTH_def)
  have "decode_rk rkey = foldl (\<lambda>rk i. mix_key rk (4 * i)) (swap_keys (encode_rk rkey) 0 56) [1..<14]"
    by (simp add: decode_rk_def encode_rk_def AES_KEY_LENGTH_def rijndaelKeySetupDec_def rijndaelKeySetupEnc_def Let_def)
  then show "rijndaelDecrypt (decode_rk rkey) 14 (rijndaelEncrypt (encode_rk rkey) 14 b) = b"
    using rijndael_inverse [of "encode_rk rkey" "decode_rk rkey" 7 b] dec_keys_reversed [OF len] b by simp
qed (simp_all add: length_rijndael)

section \<open>The string for the result\<close>

lemma string_create_granted:
  assumes "\<And>n. al_grants al n" and "0 < n" and "n + 1024 < 2 ^ 31"
  shows "\<exists>s. hashkit_string_create al True (of_nat n) = Some s \<and> string_wf s \<and> str_end s = 0 \<and>
    length (str_block s) = (n div 1024 + 1) * 1024"
proof -
  let ?need = "of_nat n :: uint"
  define new where "new = (?need div 1024 + 1) * 1024"
  have n: "unat ?need = n" using assms(3) by (simp add: unat_of_nat)
  have "0 < ?need" using assms(2) n by (simp add: word_less_nat_alt)
  have small: "n div 1024 * 1024 \<le> n" "n < (n div 1024 + 1) * 1024" by (simp_all add: dividend_less_times_div)
  have new: "unat new = (n div 1024 + 1) * 1024"
  proof -
    have "new = of_nat ((n div 1024 + 1) * 1024)"
      unfolding new_def using assms(3)
      by (simp add: word_unat_eq_iff unat_word_ariths unat_div n unat_of_nat mod_simps add.commute [of 1024])
    then show ?thesis using small assms(3) by (simp only: unat_of_nat) simp
  qed
  then have "\<not> new < ?need" using small n by (simp add: word_less_nat_alt)
  moreover have "unat new < 2 ^ 31" using new small assms(3) by simp
  ultimately have "u_string_check al u_init_string ?need =
      (True, \<lparr>str_end = 0, current_size = new, str_block = map (al_junk al) [0..<unat new]\<rparr>)"
    using \<open>0 < ?need\<close> assms(1)
    by (simp add: u_string_check_def u_init_string_def HASHKIT_BLOCK_SIZE_def realloc_def Let_def new_def mult.commute [of 1024]
        word_gt_0)
  then show ?thesis
    using new \<open>unat new < 2 ^ 31\<close> by (simp add: hashkit_string_create_def string_wf_def word_less_nat_alt)
qed

lemma set_length_fits:
  assumes "string_wf s" and "str_end s = 0" and "n \<le> length (str_block s)"
  shows "string_wf (hashkit_string_set_length al s (of_nat n)) \<and>
    contents (hashkit_string_set_length al s (of_nat n)) = take n (str_block s)"
proof -
  have size: "length (str_block s) = unat (current_size s)" using assms(1) by (simp add: string_wf_def)
  have n: "unat (of_nat n :: uint) = n" using assms(3) size unat_lt32 [of "current_size s"] by (simp add: unat_of_nat)
  then have "of_nat n \<le> current_size s" using assms(3) size by (simp add: word_le_nat_alt)
  moreover from this have "\<not> (of_nat n \<noteq> (0 :: uint) \<and> current_size s - str_end s < of_nat n)"
    using assms(2) by (simp add: not_less)
  then have "u_string_check al s (of_nat n) = (True, s)" by (simp only: u_string_check_def Let_def if_False)
  ultimately show ?thesis
    using assms(1) n by (simp add: hashkit_string_set_length_def string_wf_def contents_def)
qed

section \<open>A message and its encryption\<close>

definition pad_size :: "bytes \<Rightarrow> nat" where
  "pad_size source = 16 - length source mod 16"

definition last_block :: "bytes \<Rightarrow> bytes" where
  "last_block source = drop (16 * (length source div 16)) source @ replicate (pad_size source) (of_nat (pad_size source))"

lemma pad_size_bounds: "0 < pad_size source" "pad_size source \<le> 16"
  by (simp_all add: pad_size_def)

lemma source_rest: "length source - 16 * (length source div 16) = length source mod 16"
  by (simp add: minus_mult_div_eq_mod)

lemma length_last_block: "length (last_block source) = 16"
  using pad_size_bounds [of source] by (simp add: last_block_def source_rest pad_size_def)

lemma last_block_pad: "unat (last_block source ! 15) = pad_size source"
proof -
  have "15 - length source mod 16 < pad_size source" by (simp add: pad_size_def)
  moreover have "\<not> 15 < length source mod 16" using mod_less_divisor [of 16 "length source"] by linarith
  ultimately have "last_block source ! 15 = of_nat (pad_size source)"
    by (simp add: last_block_def nth_append source_rest)
  then show ?thesis using pad_size_bounds(2) [of source] by (simp add: unat_of_nat)
qed

lemma take_last_block: "take (16 - pad_size source) (last_block source) = drop (16 * (length source div 16)) source"
  by (simp add: last_block_def source_rest pad_size_def)

lemma enough_room: "16 * (n div 16 + 1) \<le> (n div 1024 + 1) * (1024 :: nat)"
proof -
  have "n div 16 < (n div 1024 + 1) * 64" by (simp add: div_less_iff_less_mult dividend_less_times_div)
  then show ?thesis using mult_le_mono2 [of "n div 16 + 1" "(n div 1024 + 1) * 64" 16] by simp
qed

lemma aes_encrypt_contents:
  assumes "\<And>n. al_grants al n" and "source \<noteq> []" and "length source + 1024 < 2 ^ 31"
    and "rk_words (encode_key k) = encode_rk rkey" "rk_nr (encode_key k) = 14"
  shows "\<exists>e. aes_encrypt al True (Some k) source = Inr (Some e) \<and> string_wf e \<and>
    contents e = ciphered (rijndaelEncrypt (encode_rk rkey) 14) (length source div 16) source @
      rijndaelEncrypt (encode_rk rkey) 14 (last_block source)"
proof -
  let ?n = "length source div 16" and ?E = "rijndaelEncrypt (encode_rk rkey) 14"
  obtain s where s: "hashkit_string_create al True (of_nat (length source)) = Some s" "string_wf s" "str_end s = 0"
    "length (str_block s) = (length source div 1024 + 1) * 1024"
    using string_create_granted [OF assms(1), of "length source"] assms(2,3) by auto
  have room: "16 * ?n + 16 \<le> length (str_block s)" "str_block s \<noteq> []" using enough_room [of "length source"] s(4) by auto
  obtain b1 where b1: "each_block ?E ?n source 0 (str_block s) = Inr (drop (16 * ?n) source, 16 * ?n, b1)"
    "length b1 = length (str_block s)" "take (16 * ?n) b1 = ciphered ?E ?n source"
    using each_block_writes [of ?E 0 ?n "str_block s" source] room length_rijndael by auto
  have last: "take (16 - pad_size source) (drop (16 * ?n) source) = drop (16 * ?n) source"
    by (simp add: source_rest pad_size_def)
  have "b1 \<noteq> []" using b1(2) room(2) by (metis length_0_conv)
  obtain b2 where b2: "write_at b1 (16 * ?n) (?E (last_block source)) = Inr b2" "length b2 = length b1"
    "take (16 * ?n + 16) b2 = take (16 * ?n) b1 @ ?E (last_block source)"
    using write_at_ok [of "16 * ?n" "?E (last_block source)" b1] room b1(2) \<open>b1 \<noteq> []\<close> by (auto simp: length_rijndael)
  have wf: "string_wf (s\<lparr>str_block := b2\<rparr>)" using s(2) b1(2) b2(2) by (simp add: string_wf_def)
  have "aes_encrypt al True (Some k) source =
      Inr (Some (hashkit_string_set_length al (s\<lparr>str_block := b2\<rparr>) (of_nat (16 * (?n + 1)))))"
    using s(1) b1(1) b2(1) last
    by (simp add: aes_encrypt_def assms(4,5) AES_BLOCK_SIZE_def Let_def source_rest last_block_def pad_size_def)
  moreover have "take (16 * (?n + 1)) b2 = ciphered ?E ?n source @ ?E (last_block source)"
    using b2(3) b1(3) by (simp add: add.commute)
  moreover have "16 * (?n + 1) \<le> length b2" using b1(2) b2(2) room(1) by simp
  ultimately show ?thesis using set_length_fits [OF wf, of "16 * (?n + 1)" al] s(3) by simp
qed

lemma aes_decrypt_contents:
  assumes "\<And>n. al_grants al n" and "length body = 16 * n" and "16 * n + 1040 < 2 ^ 31" and "length tail = 16"
    and "rk_words (decode_key k) = decode_rk rkey" "rk_nr (decode_key k) = 14"
    and "unat (rijndaelDecrypt (decode_rk rkey) 14 tail ! 15) = pad" and "pad \<le> 16"
  shows "\<exists>d. aes_decrypt al True (Some k) (body @ tail) = Inr (Some d) \<and> string_wf d \<and>
    contents d = ciphered (rijndaelDecrypt (decode_rk rkey) 14) n (body @ tail) @
      take (16 - pad) (rijndaelDecrypt (decode_rk rkey) 14 tail)"
proof -
  let ?D = "rijndaelDecrypt (decode_rk rkey) 14"
  have len: "length (body @ tail) = 16 * (n + 1)" using assms(2,4) by simp
  then have blocks: "length (body @ tail) div 16 = n + 1" by simp
  obtain s where s: "hashkit_string_create al True (of_nat (16 * (n + 1))) = Some s" "string_wf s" "str_end s = 0"
    "length (str_block s) = (16 * (n + 1) div 1024 + 1) * 1024"
    using string_create_granted [OF assms(1), of "16 * (n + 1)"] assms(3) by auto
  have room: "16 * n + 16 \<le> length (str_block s)" "str_block s \<noteq> []"
    using enough_room [of "16 * (n + 1)"] s(4) by auto
  obtain b1 where b1: "each_block ?D n (body @ tail) 0 (str_block s) = Inr (tail, 16 * n, b1)"
    "length b1 = length (str_block s)" "take (16 * n) b1 = ciphered ?D n (body @ tail)"
    using each_block_writes [of ?D 0 n "str_block s" "body @ tail"] room length_rijndael assms(2) by auto
  have l: "length (take (16 - pad) (?D tail)) = 16 - pad" by (simp add: length_rijndael)
  have fits: "16 * n + (16 - pad) \<le> length b1" "b1 \<noteq> []" using b1(2) room by auto
  obtain b2 where b2: "write_at b1 (16 * n) (take (16 - pad) (?D tail)) = Inr b2" "length b2 = length b1"
    "take (16 * n + (16 - pad)) b2 = take (16 * n) b1 @ take (16 - pad) (?D tail)"
    using write_at_ok [of "16 * n" "take (16 - pad) (?D tail)" b1] fits unfolding l by auto
  have wf: "string_wf (s\<lparr>str_block := b2\<rparr>)" using s(2) b1(2) b2(2) by (simp add: string_wf_def)
  have "aes_decrypt al True (Some k) (body @ tail) =
      Inr (Some (hashkit_string_set_length al (s\<lparr>str_block := b2\<rparr>) (of_nat (16 * (n + 1) - pad))))"
    using s(1) b1(1) b2(1) assms(4,7,8)
    unfolding aes_decrypt_def AES_BLOCK_SIZE_def len by (simp add: assms(5,6) Let_def)
  moreover have len': "16 * (n + 1) - pad = 16 * n + (16 - pad)" using assms(8) by simp
  moreover have "take (16 * (n + 1) - pad) b2 = ciphered ?D n (body @ tail) @ take (16 - pad) (?D tail)"
    unfolding len' using b2(3) b1(3) by simp
  moreover have "16 * (n + 1) - pad \<le> length b2" using b2(2) fits(1) len' by simp
  ultimately show ?thesis using set_length_fits [OF wf, of "16 * (n + 1) - pad" al] s(3) by simp
qed

section \<open>Properties\<close>

text \<open>
  C35. Encryption round trip: with a key of any length and enough memory, every message that is not
  empty is encrypted without a write outside its string into the next multiple of 16 bytes, and
  decrypting the result with the same key gives the message back.
\<close>

theorem aes_round_trip:
  assumes "\<And>n. al_grants al n" and "source \<noteq> []" and "length source + 1056 < 2 ^ 31"
    and "hashkit_key True kit key = (ok, kit')"
  shows "\<exists>e d. hashkit_encrypt al True kit' source = Inr (Some e) \<and>
    length (contents e) = 16 * (length source div 16 + 1) \<and>
    hashkit_decrypt al True kit' (contents e) = Inr (Some d) \<and> contents d = source"
proof -
  let ?n = "length source div 16" and ?rkey = "fold_key key"
  let ?E = "rijndaelEncrypt (encode_rk ?rkey) 14" and ?D = "rijndaelDecrypt (decode_rk ?rkey) 14"
  define k where "k = \<lparr>encode_key = \<lparr>rk_nr = 14, rk_words = encode_rk ?rkey\<rparr>,
    decode_key = \<lparr>rk_nr = 14, rk_words = decode_rk ?rkey\<rparr>\<rparr>"
  have kit': "kit_key kit' = Some k"
    using assms(4) by (auto simp: hashkit_key_def aes_create_key_schedules k_def)
  have k: "rk_words (encode_key k) = encode_rk ?rkey" "rk_nr (encode_key k) = 14"
    "rk_words (decode_key k) = decode_rk ?rkey" "rk_nr (decode_key k) = 14" by (simp_all add: k_def)
  obtain e where e: "aes_encrypt al True (Some k) source = Inr (Some e)"
    "contents e = ciphered ?E ?n source @ ?E (last_block source)"
    using aes_encrypt_contents [OF assms(1,2) _ k(1,2)] assms(3) by auto
  have body: "length (ciphered ?E ?n source) = 16 * ?n" by (simp add: length_ciphered length_rijndael)
  have undo: "?D (?E (last_block source)) = last_block source"
    by (rule aes.decipher_encipher) (rule length_last_block)
  have "16 * ?n \<le> length source" by simp
  then have small: "16 * ?n + 1040 < 2 ^ 31" using assms(3) by linarith
  obtain d where d: "aes_decrypt al True (Some k) (contents e) = Inr (Some d)"
    "contents d = ciphered ?D ?n (contents e) @ take (16 - pad_size source) (last_block source)"
    using aes_decrypt_contents [OF assms(1) body small _ k(3,4), of "?E (last_block source)" "pad_size source"]
      pad_size_bounds(2) [of source] undo last_block_pad [of source] e(2)
    by (auto simp: length_rijndael)
  have "contents d = source"
    unfolding d(2) e(2) aes.deciphered [OF \<open>16 * ?n \<le> length source\<close>] take_last_block by simp
  then show ?thesis
    using e d(1) body by (auto simp: hashkit_encrypt_def hashkit_decrypt_def kit' length_rijndael)
qed

lemma aes_round_trip_witness:
  "\<exists>e d. hashkit_encrypt \<lparr>al_grants = \<lambda>_. True, al_junk = \<lambda>_. 0\<rparr> True (snd (hashkit_key True ex_kit [1])) [1, 2, 3] =
       Inr (Some e) \<and>
     hashkit_decrypt \<lparr>al_grants = \<lambda>_. True, al_junk = \<lambda>_. 0\<rparr> True (snd (hashkit_key True ex_kit [1])) (contents e) =
       Inr (Some d) \<and> contents d = [1, 2, 3]"
  using aes_round_trip [of "\<lparr>al_grants = \<lambda>_. True, al_junk = \<lambda>_. 0\<rparr>" "[1, 2, 3]", OF _ _ _ prod.collapse [symmetric], of ex_kit "[1]"]
  by auto

text \<open>
  The empty message: the string created for it has no block, so the padding block is written
  through a null pointer.
\<close>

lemma aes_encrypt_empty:
  "aes_encrypt al True (Some k) [] = Inl NullPointer"
  by (simp add: aes_encrypt_def AES_BLOCK_SIZE_def hashkit_string_create_def u_string_check_def u_init_string_def
      write_at_def)

end
