(* ===== verification/HashMurmur3.thy ===== *)
theory HashMurmur3
  imports HashBasic
begin

text \<open>
  The 128-bit variants of Murmur 3 (\<open>murmur3.cc\<close>): one works on four 32-bit registers, the other
  on two 64-bit registers. Both read blocks of 16 bytes and finish with a \<open>switch\<close> whose cases
  fall through, so that each case adds one byte of the incomplete last block.

  The lemmas show that the \<open>switch\<close> amounts to filling the last block with zeros, and that the
  final mixing of a register is a bijection: it loses nothing of the hash.
\<close>

unbundle bit_operations_syntax

type_synonym uint64 = "64 word"
type_synonym regs = "uint \<times> uint \<times> uint \<times> uint"

section \<open>Building blocks\<close>

definition rotl64 :: "uint64 \<Rightarrow> nat \<Rightarrow> uint64" where
  "rotl64 x r = push_bit r x OR drop_bit (64 - r) x"

definition fmix64 :: "uint64 \<Rightarrow> uint64" where
  "fmix64 k =
     (let k = k XOR drop_bit 33 k; k = k * 0xff51afd7ed558ccd; k = k XOR drop_bit 33 k; k = k * 0xc4ceb9fe1a85ec53
      in k XOR drop_bit 33 k)"

definition le64 :: "bytes \<Rightarrow> nat \<Rightarrow> uint64" where
  "le64 b p =
     ucast (b ! p) OR push_bit 8 (ucast (b ! (p + 1))) OR push_bit 16 (ucast (b ! (p + 2))) OR
     push_bit 24 (ucast (b ! (p + 3))) OR push_bit 32 (ucast (b ! (p + 4))) OR push_bit 40 (ucast (b ! (p + 5))) OR
     push_bit 48 (ucast (b ! (p + 6))) OR push_bit 56 (ucast (b ! (p + 7)))"

text \<open>A case of the \<open>switch\<close>: byte \<open>i\<close> of the tail enters the register if the tail reaches it.\<close>

definition fall :: "bytes \<Rightarrow> nat \<Rightarrow> nat \<Rightarrow> 'a::len word \<Rightarrow> 'a word" where
  "fall t i s k = (if i < length t then k XOR push_bit s (ucast (t ! i)) else k)"

section \<open>Four registers of 32 bits\<close>

definition x86_k1 :: "uint \<Rightarrow> uint" where "x86_k1 k = rotl32 (k * 0x239b961b) 15 * 0xab0e9789"
definition x86_k2 :: "uint \<Rightarrow> uint" where "x86_k2 k = rotl32 (k * 0xab0e9789) 16 * 0x38b34ae5"
definition x86_k3 :: "uint \<Rightarrow> uint" where "x86_k3 k = rotl32 (k * 0x38b34ae5) 17 * 0xa1e38b93"
definition x86_k4 :: "uint \<Rightarrow> uint" where "x86_k4 k = rotl32 (k * 0xa1e38b93) 18 * 0x239b961b"

fun x86_128_block :: "uint \<Rightarrow> uint \<Rightarrow> uint \<Rightarrow> uint \<Rightarrow> regs \<Rightarrow> regs" where
  "x86_128_block k1 k2 k3 k4 (h1, h2, h3, h4) =
     (let h1 = h1 XOR x86_k1 k1; h1 = rotl32 h1 19; h1 = h1 + h2; h1 = h1 * 5 + 0x561ccd1b;
          h2 = h2 XOR x86_k2 k2; h2 = rotl32 h2 17; h2 = h2 + h3; h2 = h2 * 5 + 0x0bcaa747;
          h3 = h3 XOR x86_k3 k3; h3 = rotl32 h3 15; h3 = h3 + h4; h3 = h3 * 5 + 0x96cd1c35;
          h4 = h4 XOR x86_k4 k4; h4 = rotl32 h4 13; h4 = h4 + h1; h4 = h4 * 5 + 0x32ac3b17
      in (h1, h2, h3, h4))"

fun x86_128_tail :: "bytes \<Rightarrow> regs \<Rightarrow> regs" where
  "x86_128_tail t (h1, h2, h3, h4) =
     (let n = length t;
          k4 = fall t 12 0 (fall t 13 8 (fall t 14 16 0)); h4 = (if 13 \<le> n then h4 XOR x86_k4 k4 else h4);
          k3 = fall t 8 0 (fall t 9 8 (fall t 10 16 (fall t 11 24 0))); h3 = (if 9 \<le> n then h3 XOR x86_k3 k3 else h3);
          k2 = fall t 4 0 (fall t 5 8 (fall t 6 16 (fall t 7 24 0))); h2 = (if 5 \<le> n then h2 XOR x86_k2 k2 else h2);
          k1 = fall t 0 0 (fall t 1 8 (fall t 2 16 (fall t 3 24 0))); h1 = (if 1 \<le> n then h1 XOR x86_k1 k1 else h1)
      in (h1, h2, h3, h4))"

fun x86_128_sums :: "regs \<Rightarrow> regs" where
  "x86_128_sums (h1, h2, h3, h4) =
     (let h1 = h1 + h2; h1 = h1 + h3; h1 = h1 + h4 in (h1, h2 + h1, h3 + h1, h4 + h1))"

fun x86_128_final :: "uint \<Rightarrow> regs \<Rightarrow> regs" where
  "x86_128_final len (h1, h2, h3, h4) =
     (case x86_128_sums (h1 XOR len, h2 XOR len, h3 XOR len, h4 XOR len) of
        (h1, h2, h3, h4) \<Rightarrow> x86_128_sums (fmix32 h1, fmix32 h2, fmix32 h3, fmix32 h4))"

text \<open>The blocks are counted from \<open>- nblocks\<close> to zero, backwards from the end of the last one.\<close>

definition x86_128_at :: "bytes \<Rightarrow> int \<Rightarrow> int \<Rightarrow> uint" where
  "x86_128_at data nblocks i =
     (let p = nat (nblocks * 16 + i * 4) in le32 (data ! p) (data ! (p + 1)) (data ! (p + 2)) (data ! (p + 3)))"

definition MurmurHash3_x86_128 :: "bytes \<Rightarrow> uint \<Rightarrow> regs" where
  "MurmurHash3_x86_128 key seed =
     (let len = int (length key); nblocks = len div 16; at = x86_128_at key nblocks;
          h = foldl (\<lambda>h i. x86_128_block (at (i * 4)) (at (i * 4 + 1)) (at (i * 4 + 2)) (at (i * 4 + 3)) h)
                (seed, seed, seed, seed) [- nblocks..-1];
          h = x86_128_tail (drop (nat (nblocks * 16)) key) h
      in x86_128_final (of_int len) h)"

section \<open>Two registers of 64 bits\<close>

definition x64_k1 :: "uint64 \<Rightarrow> uint64" where
  "x64_k1 k = rotl64 (k * 0x87c37b91114253d5) 31 * 0x4cf5ad432745937f"

definition x64_k2 :: "uint64 \<Rightarrow> uint64" where
  "x64_k2 k = rotl64 (k * 0x4cf5ad432745937f) 33 * 0x87c37b91114253d5"

fun x64_128_block :: "uint64 \<Rightarrow> uint64 \<Rightarrow> uint64 \<times> uint64 \<Rightarrow> uint64 \<times> uint64" where
  "x64_128_block k1 k2 (h1, h2) =
     (let h1 = h1 XOR x64_k1 k1; h1 = rotl64 h1 27; h1 = h1 + h2; h1 = h1 * 5 + 0x52dce729;
          h2 = h2 XOR x64_k2 k2; h2 = rotl64 h2 31; h2 = h2 + h1; h2 = h2 * 5 + 0x38495ab5
      in (h1, h2))"

fun x64_128_tail :: "bytes \<Rightarrow> uint64 \<times> uint64 \<Rightarrow> uint64 \<times> uint64" where
  "x64_128_tail t (h1, h2) =
     (let n = length t;
          k2 = fall t 8 0 (fall t 9 8 (fall t 10 16 (fall t 11 24 (fall t 12 32 (fall t 13 40 (fall t 14 48 0))))));
          h2 = (if 9 \<le> n then h2 XOR x64_k2 k2 else h2);
          k1 = fall t 0 0 (fall t 1 8 (fall t 2 16 (fall t 3 24 (fall t 4 32 (fall t 5 40 (fall t 6 48 (fall t 7 56 0)))))));
          h1 = (if 1 \<le> n then h1 XOR x64_k1 k1 else h1)
      in (h1, h2))"

fun x64_128_final :: "uint64 \<Rightarrow> uint64 \<times> uint64 \<Rightarrow> uint64 \<times> uint64" where
  "x64_128_final len (h1, h2) =
     (let h1 = h1 XOR len; h2 = h2 XOR len; h1 = h1 + h2; h2 = h2 + h1;
          h1 = fmix64 h1; h2 = fmix64 h2; h1 = h1 + h2; h2 = h2 + h1
      in (h1, h2))"

definition MurmurHash3_x64_128 :: "bytes \<Rightarrow> uint \<Rightarrow> uint64 \<times> uint64" where
  "MurmurHash3_x64_128 key seed =
     (let nblocks = length key div 16;
          h = foldl (\<lambda>h i. x64_128_block (le64 key (8 * (i * 2))) (le64 key (8 * (i * 2 + 1))) h)
                (ucast seed, ucast seed) [0..<nblocks];
          h = x64_128_tail (drop (nblocks * 16) key) h
      in x64_128_final (of_nat (length key)) h)"

section \<open>The last block\<close>

definition padded :: "bytes \<Rightarrow> bytes" where
  "padded t = t @ replicate (16 - length t) 0"

lemma padded_nth: "length t < 16 \<Longrightarrow> i < 16 \<Longrightarrow> padded t ! i = (if i < length t then t ! i else 0)"
  by (simp add: padded_def nth_append)

lemma fall_padded:
  "length t < 16 \<Longrightarrow> i < 16 \<Longrightarrow> fall t i s k = k XOR push_bit s (ucast (padded t ! i))"
  by (simp add: fall_def padded_nth)

text \<open>Bytes at different places of a word can be joined by \<open>OR\<close> or by \<open>XOR\<close>.\<close>

lemma byte_or_xor: "ucast (b :: 8 word) OR push_bit 8 y = ucast b XOR push_bit 8 (y :: 'a::len word)"
proof (rule bit_word_eqI)
  fix n
  have "bit b n \<Longrightarrow> n < 8" using bit_imp_le_length [of b n] by simp
  then show "bit (ucast b OR push_bit 8 y) n = bit (ucast b XOR push_bit 8 y) n" by (auto simp: bit_simps)
qed

lemma le32_xor:
  "le32 b0 b1 b2 b3 = ucast b0 XOR (push_bit 8 (ucast b1) XOR (push_bit 16 (ucast b2) XOR push_bit 24 (ucast b3)))"
proof -
  have "le32 b0 b1 b2 b3 = ucast b0 OR push_bit 8 (ucast b1 OR push_bit 8 (ucast b2 OR push_bit 8 (ucast b3)))"
    by (simp add: le32_def push_bit_or or.assoc)
  then show ?thesis unfolding byte_or_xor by (simp add: push_bit_xor)
qed

lemma rotl_zero [simp]: "rotl32 0 r = 0" "rotl64 0 r = 0"
  by (simp_all add: rotl32_def rotl64_def)

lemma x86_k_zero [simp]: "x86_k1 0 = 0" "x86_k2 0 = 0" "x86_k3 0 = 0" "x86_k4 0 = 0"
  by (simp_all add: x86_k1_def x86_k2_def x86_k3_def x86_k4_def)

definition tail32 :: "bytes \<Rightarrow> nat \<Rightarrow> uint" where
  "tail32 t p = le32 (padded t ! p) (padded t ! (p + 1)) (padded t ! (p + 2)) (padded t ! (p + 3))"

lemma fall_tail32:
  assumes "length t < 16" and "p + 3 < 16"
  shows "fall t p 0 (fall t (p + 1) 8 (fall t (p + 2) 16 (fall t (p + 3) 24 0))) = tail32 t p"
  using assms by (simp add: fall_padded tail32_def le32_xor xor.commute xor.left_commute)

lemma tail32_reach:
  assumes "length t < 16" and "p + 3 < 16" and "f 0 = 0"
  shows "(if p + 1 \<le> length t then h XOR f (tail32 t p) else h) = h XOR f (tail32 t p)"
  using assms by (simp add: tail32_def padded_nth le32_def)

text \<open>
  The cases of the \<open>switch\<close> amount to one step on the last block, filled up with zeros: a register
  the tail does not reach gets a zero, which changes nothing.
\<close>

lemma x86_128_tail_padded:
  assumes "length t < 16"
  shows "x86_128_tail t (h1, h2, h3, h4) =
     (h1 XOR x86_k1 (tail32 t 0), h2 XOR x86_k2 (tail32 t 4), h3 XOR x86_k3 (tail32 t 8), h4 XOR x86_k4 (tail32 t 12))"
proof -
  have "fall t 12 0 (fall t 13 8 (fall t 14 16 0)) = tail32 t 12"
    using assms fall_tail32 [OF assms, of 12] by (simp add: fall_def [of t 15])
  with fall_tail32 [OF assms, of 0] fall_tail32 [OF assms, of 4] fall_tail32 [OF assms, of 8]
    tail32_reach [OF assms, of 0 x86_k1 h1] tail32_reach [OF assms, of 4 x86_k2 h2]
    tail32_reach [OF assms, of 8 x86_k3 h3] tail32_reach [OF assms, of 12 x86_k4 h4]
  show ?thesis by (simp add: Let_def numeral_2_eq_2 [symmetric])
qed

lemma x64_k_zero [simp]: "x64_k1 0 = 0" "x64_k2 0 = 0"
  by (simp_all add: x64_k1_def x64_k2_def)

lemma le64_xor:
  "le64 b p = ucast (b ! p) XOR (push_bit 8 (ucast (b ! (p + 1))) XOR (push_bit 16 (ucast (b ! (p + 2))) XOR
     (push_bit 24 (ucast (b ! (p + 3))) XOR (push_bit 32 (ucast (b ! (p + 4))) XOR (push_bit 40 (ucast (b ! (p + 5))) XOR
     (push_bit 48 (ucast (b ! (p + 6))) XOR push_bit 56 (ucast (b ! (p + 7)))))))))"
proof -
  have "le64 b p = ucast (b ! p) OR push_bit 8 (ucast (b ! (p + 1)) OR push_bit 8 (ucast (b ! (p + 2)) OR
      push_bit 8 (ucast (b ! (p + 3)) OR push_bit 8 (ucast (b ! (p + 4)) OR push_bit 8 (ucast (b ! (p + 5)) OR
      push_bit 8 (ucast (b ! (p + 6)) OR push_bit 8 (ucast (b ! (p + 7)))))))))"
    by (simp add: le64_def push_bit_or or.assoc)
  then show ?thesis unfolding byte_or_xor by (simp add: push_bit_xor)
qed

lemma fall_tail64:
  assumes "length t < 16" and "p + 7 < 16"
  shows "fall t p 0 (fall t (p + 1) 8 (fall t (p + 2) 16 (fall t (p + 3) 24 (fall t (p + 4) 32 (fall t (p + 5) 40
     (fall t (p + 6) 48 (fall t (p + 7) 56 0))))))) = le64 (padded t) p"
  using assms by (simp add: fall_padded le64_xor xor.commute xor.left_commute)

lemma tail64_reach:
  assumes "length t < 16" and "p + 7 < 16" and "f 0 = 0"
  shows "(if p + 1 \<le> length t then h XOR f (le64 (padded t) p) else h) = h XOR f (le64 (padded t) p)"
  using assms by (simp add: padded_nth le64_def)

lemma x64_128_tail_padded:
  assumes "length t < 16"
  shows "x64_128_tail t (h1, h2) = (h1 XOR x64_k1 (le64 (padded t) 0), h2 XOR x64_k2 (le64 (padded t) 8))"
proof -
  have "fall t 8 0 (fall t 9 8 (fall t 10 16 (fall t 11 24 (fall t 12 32 (fall t 13 40 (fall t 14 48 0)))))) =
      le64 (padded t) 8"
    using assms fall_tail64 [OF assms, of 8] by (simp add: fall_def [of t 15])
  with fall_tail64 [OF assms, of 0] tail64_reach [OF assms, of 0 x64_k1 h1] tail64_reach [OF assms, of 8 x64_k2 h2]
  show ?thesis by (simp add: Let_def numeral_2_eq_2 [symmetric])
qed

section \<open>The final mixing\<close>

text \<open>
  Each step of the final mixing can be undone: exclusive or with the upper half by doing it again,
  a product with an odd constant by the product with its inverse.
\<close>

definition unfmix64 :: "uint64 \<Rightarrow> uint64" where
  "unfmix64 k =
     (let k = k XOR drop_bit 33 k; k = k * 0x9cb4b2f8129337db; k = k XOR drop_bit 33 k; k = k * 0x4f74430c22a54005
      in k XOR drop_bit 33 k)"

lemma xorshift64_twice: "(k XOR drop_bit 33 k) XOR drop_bit 33 (k XOR drop_bit 33 k) = (k :: uint64)"
  by (rule bit_word_eqI) (auto simp: bit_simps)

lemma odd_inverses64:
  "0xff51afd7ed558ccd * 0x4f74430c22a54005 = (1 :: uint64)" "0xc4ceb9fe1a85ec53 * 0x9cb4b2f8129337db = (1 :: uint64)"
  by simp_all

lemma mult_inverse64:
  "(k :: uint64) * 0xff51afd7ed558ccd * 0x4f74430c22a54005 = k" "(k :: uint64) * 0xc4ceb9fe1a85ec53 * 0x9cb4b2f8129337db = k"
  by (simp_all only: mult.assoc odd_inverses64 mult_1_right)

lemma unfmix64_fmix64: "unfmix64 (fmix64 k) = k"
  unfolding unfmix64_def fmix64_def Let_def by (simp only: xorshift64_twice mult_inverse64)

lemma fmix64_inj: "fmix64 a = fmix64 b \<longleftrightarrow> a = b"
  by (metis unfmix64_fmix64)

end
