(* ===== verification/DbLruThreads.thy ===== *)
theory DbLruThreads
  imports DbLru
begin

text \<open>
  The storage with several threads in it. \<open>dblru.cpp\<close> guards every eviction order and every hash
  map with a mutex of its own, and keeps its counters in atomic variables; here each operation is
  taken apart into the steps between which another thread can run: an access to an atomic
  variable or to the clock, the acquisition of a mutex, or a section in which a mutex is held.
  The sections call the operations of \<open>DbLru\<close> on the record of the globals.

  A thread is at a site of the code, with the local variables of the function it runs.
  \<open>thread_step\<close> is the next step of one thread; it has none while the mutex it wants is held, and
  none once its function has returned. Threads interleave in any order.
\<close>

section \<open>Threads\<close>

text \<open>A call of one of the functions of \<open>dblru.cpp\<close>, with its arguments.\<close>

datatype call =
    CallInsert string string string string ulong
  | CallAdd string string string string ulong
  | CallDelete string ulong
  | CallGet string
  | CallSetFlush ulong
  | CallHandleFlush

fun call_key :: "call \<Rightarrow> string" where
  "call_key (CallInsert key flags casUniq val expiry) = key"
| "call_key (CallAdd key flags casUniq val expiry) = key"
| "call_key (CallDelete key expiry) = key"
| "call_key (CallGet key) = key"
| "call_key _ = []"

text \<open>
  The sites. \<open>Clock\<close> to \<open>Generate\<close> are the assignments at the head of a function, \<open>Room\<close> to
  \<open>RoomTest\<close> the loop that makes room, \<open>LruClock\<close> to \<open>LruLeave\<close> the function
  \<open>removeLRUElement\<close>, \<open>StoreLock\<close> to \<open>Link\<close> the rest of the storing functions, \<open>LookLock\<close> and
  \<open>Look\<close> the section of a look-up or deletion, \<open>MoveLock\<close> and \<open>Move\<close> the section that renews an
  entry of the order, the others the two flushing functions. A thread at a site named
  \<open>Lock\<close>, at \<open>LruOrder\<close> or at \<open>LruTable\<close> is about to acquire a mutex.
\<close>

datatype site = Finished | Crashed | Clock | Stamp | Generate | Room | RoomLock | RoomTest
  | LruClock | LruOrder | LruTable | LruEvict | LruDrop | LruLeave
  | StoreLock | Store | OverLock | Over | OverSize | NewSize | LinkLock | Link
  | LookLock | Look | MoveLock | Move
  | SetFlag | SetClock | SetTime | FlushTest | FlushClock | FlushDue | FlushStamp | FlushMark | FlushClear

record thread =
  th_call :: call
  th_at :: site
  th_cur :: ulong
  th_lruCur :: ulong
  th_timestamp :: ulong
  th_vs :: ValueStruct
  th_table :: uint
  th_old :: ulong
  th_size :: ulong
  th_out :: GetOut
  th_ret :: retStatus

definition entry_site :: "call \<Rightarrow> site" where
  "entry_site c = (case c of CallSetFlush e \<Rightarrow> SetFlag | CallHandleFlush \<Rightarrow> FlushTest | _ \<Rightarrow> Clock)"

definition goto :: "site \<Rightarrow> thread \<Rightarrow> thread" where
  "goto l t = t\<lparr>th_at := l\<rparr>"

definition return :: "retStatus \<Rightarrow> thread \<Rightarrow> thread" where
  "return r t = t\<lparr>th_at := Finished, th_ret := r\<rparr>"

definition th_key :: "thread \<Rightarrow> string" where
  "th_key t = call_key (th_call t)"

definition key_table :: "thread \<Rightarrow> uint" where
  "key_table t = getHashTblNbrFromKey (th_key t)"

definition new_entry :: "thread \<Rightarrow> TimestampToKeyStruct" where
  "new_entry t = \<lparr>tk_timestamp = th_timestamp t, tk_key = th_key t\<rparr>"

definition old_entry :: "thread \<Rightarrow> TimestampToKeyStruct" where
  "old_entry t = \<lparr>tk_timestamp = th_old t, tk_key = th_key t\<rparr>"

section \<open>The head of a function\<close>

definition after_clock :: "call \<Rightarrow> site" where
  "after_clock c = (case c of CallDelete key expiry \<Rightarrow> LookLock | _ \<Rightarrow> Stamp)"

definition clock_section :: "thread \<Rightarrow> db \<Rightarrow> thread \<times> db" where
  "clock_section t w = (t\<lparr>th_cur := now w, th_table := key_table t, th_at := after_clock (th_call t)\<rparr>, tick w)"

definition stamp_section :: "thread \<Rightarrow> db \<Rightarrow> thread \<times> db" where
  "stamp_section t w =
     (t\<lparr>th_timestamp := gTimestamp w, th_at := (case th_call t of CallGet key \<Rightarrow> LookLock | _ \<Rightarrow> Generate)\<rparr>,
      w\<lparr>gTimestamp := gTimestamp w + 1\<rparr>)"

text \<open>The generator of \<open>dbInsertElement\<close> is shared by all threads, and no mutex guards it.\<close>

definition generate_section :: "thread \<Rightarrow> db \<Rightarrow> thread \<times> db" where
  "generate_section t w =
     (case th_call t of
        CallInsert key flags casUniq val expiry \<Rightarrow>
          (let (cas, w) = insertCas (th_cur t) w
           in (t\<lparr>th_vs := \<lparr>vs_expiry = expiry_of (th_cur t) expiry, vs_value = val, vs_flags = flags, vs_casUniq = cas\<rparr>,
                 th_at := Room\<rparr>, w))
      | CallAdd key flags casUniq val expiry \<Rightarrow>
          (t\<lparr>th_vs := \<lparr>vs_expiry = expiry_of (th_cur t) expiry, vs_value = val, vs_flags = flags,
                     vs_casUniq = addCas (th_cur t)\<rparr>,
             th_at := Room\<rparr>, w)
      | _ \<Rightarrow> (goto Crashed t, w))"

section \<open>Making room\<close>

definition need :: "thread \<Rightarrow> ulong" where
  "need t = (case th_call t of CallAdd key flags casUniq val expiry \<Rightarrow> add_need key (th_vs t)
               | _ \<Rightarrow> insert_need (th_key t) (th_vs t))"

definition room_section :: "thread \<Rightarrow> db \<Rightarrow> thread" where
  "room_section t w =
     (if gStoredSize w + need t < gServMemLimit w then t\<lparr>th_table := key_table t, th_at := StoreLock\<rparr>
      else goto RoomLock t)"

text \<open>Only \<open>dbInsertElement\<close> goes back to the head of the loop after an empty order.\<close>

definition room_test_section :: "thread \<Rightarrow> db \<Rightarrow> thread" where
  "room_test_section t w =
     (if gTimestampToKeySet w (th_table t) = []
      then let t = t\<lparr>th_table := next_table (th_table t)\<rparr>
           in if key_table t = th_table t then return MEMORY_FULL t
              else (case th_call t of CallAdd key flags casUniq val expiry \<Rightarrow> goto LruClock t | _ \<Rightarrow> goto Room t)
      else goto LruClock t)"

definition lru_evict_section :: "thread \<Rightarrow> db \<Rightarrow> thread \<times> db" where
  "lru_evict_section t w =
     (case lru_section (th_lruCur t) (th_table t) w of
        Inl e \<Rightarrow> (goto Crashed t, w)
      | Inr w \<Rightarrow> (goto LruDrop t, w))"

section \<open>Storing\<close>

definition size_diff :: "ValueStruct \<Rightarrow> MapEntry \<Rightarrow> ulong" where
  "size_diff vs it =
     sizeof_ulong - sizeof_ulong + str_size (getCasFromMap it) - str_size (vs_casUniq vs) +
     str_size (getFlagsFromMap it) - str_size (vs_flags vs) + str_size (getValueFromMap it) - str_size (vs_value vs)"

text \<open>
  From \<open>emplace\<close> to the release of the mutex of the map. When \<open>emplace\<close> throws \<open>bad_alloc\<close> the
  function returns and keeps the mutex.
\<close>

definition insert_section :: "string \<Rightarrow> ulong \<Rightarrow> thread \<Rightarrow> db \<Rightarrow> thread \<times> db" where
  "insert_section casUniq expiry t w =
     (let h = th_table t; key = th_key t; vs = th_vs t; casCheck = (casUniq \<noteq> [])
      in case gKeyToValueHashMap w h key of
           Some it \<Rightarrow>
             if casCheck \<and> getCasFromMap it \<noteq> casUniq then (return EXIST t, w)
             else (t\<lparr>th_old := getTimestampFromMap it, th_size := size_diff vs it, th_at := OverLock\<rparr>,
                   kv_put h key (overwrite_entry (th_cur t + expiry) vs it) w)
         | None \<Rightarrow>
             if casCheck then (return NOT_EXIST t, kv_erase h key (kv_put h key (vs, th_timestamp t) w))
             else (goto NewSize t, kv_put h key (vs, th_timestamp t) w))"

definition add_section :: "ulong \<Rightarrow> thread \<Rightarrow> db \<Rightarrow> thread \<times> db" where
  "add_section expiry t w =
     (let h = th_table t; key = th_key t; vs = th_vs t
      in case gKeyToValueHashMap w h key of
           Some it \<Rightarrow>
             if entry_dead (th_cur t) w it
             then (t\<lparr>th_old := getTimestampFromMap it, th_at := MoveLock\<rparr>,
                   kv_put h key (overwrite_entry (th_cur t + expiry) vs it) w)
             else (return EXIST t, w)
         | None \<Rightarrow> (goto NewSize t, kv_put h key (vs, th_timestamp t) w))"

definition store_section :: "thread \<Rightarrow> db \<Rightarrow> thread \<times> db" where
  "store_section t w =
     (if badAlloc w then (return MEMORY_FULL t, w)
      else case th_call t of
             CallInsert key flags casUniq val expiry \<Rightarrow> insert_section casUniq expiry t w
           | CallAdd key flags casUniq val expiry \<Rightarrow> add_section expiry t w
           | _ \<Rightarrow> (goto Crashed t, w))"

section \<open>Looking up and deleting\<close>

definition get_section :: "thread \<Rightarrow> db \<Rightarrow> thread \<times> db" where
  "get_section t w =
     (let h = th_table t; key = th_key t
      in case gKeyToValueHashMap w h key of
           Some it \<Rightarrow>
             if entry_dead (th_cur t) w it then (return NOT_EXIST t, kv_erase h key w)
             else (t\<lparr>th_old := getTimestampFromMap it, th_at := MoveLock,
                     th_out := \<lparr>go_flags = getFlagsFromMap it, go_cas = getCasFromMap it,
                                go_value = getValueFromMap it, go_expiry = getExpiryFromMap it - th_cur t\<rparr>\<rparr>,
                   kv_put h key (setTimestampToMap (th_timestamp t) it) w)
         | None \<Rightarrow> (return NOT_EXIST t, w))"

definition delete_section :: "ulong \<Rightarrow> thread \<Rightarrow> db \<Rightarrow> thread \<times> db" where
  "delete_section expiry t w =
     (let h = th_table t; key = th_key t
      in case gKeyToValueHashMap w h key of
           Some it \<Rightarrow>
             if entry_dead (th_cur t) w it then (return NOT_EXIST t, w)
             else if expiry = 0 then (return SUCCESS t, kv_erase h key w)
             else (return SUCCESS t, kv_put h key (setExpiryToMap (th_cur t + expiry) it) w)
         | None \<Rightarrow> (return NOT_EXIST t, w))"

definition look_section :: "thread \<Rightarrow> db \<Rightarrow> thread \<times> db" where
  "look_section t w =
     (case th_call t of
        CallGet key \<Rightarrow> get_section t w
      | CallDelete key expiry \<Rightarrow> delete_section expiry t w
      | _ \<Rightarrow> (goto Crashed t, w))"

section \<open>Flushing\<close>

definition flush_delay :: "call \<Rightarrow> ulong" where
  "flush_delay c = (case c of CallSetFlush expiry \<Rightarrow> expiry | _ \<Rightarrow> 0)"

definition set_flush_section :: "thread \<Rightarrow> db \<Rightarrow> thread \<times> db" where
  "set_flush_section t w =
     (case th_at t of
        SetFlag \<Rightarrow> (goto SetClock t, w\<lparr>gIsFlushAllSet := True\<rparr>)
      | SetClock \<Rightarrow> (t\<lparr>th_cur := now w, th_at := SetTime\<rparr>, tick w)
      | _ \<Rightarrow> (goto Finished t, w\<lparr>gFlushAllTime := th_cur t + flush_delay (th_call t)\<rparr>))"

definition handle_flush_section :: "thread \<Rightarrow> db \<Rightarrow> thread \<times> db" where
  "handle_flush_section t w =
     (case th_at t of
        FlushTest \<Rightarrow> (goto (if gIsFlushAllSet w then FlushClock else Finished) t, w)
      | FlushClock \<Rightarrow> (t\<lparr>th_cur := now w, th_at := FlushDue\<rparr>, tick w)
      | FlushDue \<Rightarrow> (goto (if gFlushAllTime w \<le> th_cur t then FlushStamp else Finished) t, w)
      | FlushStamp \<Rightarrow>
          (t\<lparr>th_timestamp := gTimestamp w + 1, th_at := FlushMark\<rparr>, w\<lparr>gTimestamp := gTimestamp w + 1\<rparr>)
      | FlushMark \<Rightarrow> (goto FlushClear t, w\<lparr>gFlushAllTimestamp := th_timestamp t\<rparr>)
      | _ \<Rightarrow> (goto Finished t, w\<lparr>gIsFlushAllSet := False\<rparr>))"

section \<open>One step of one thread\<close>

text \<open>What a thread does at a site where it does not wait for a mutex.\<close>

definition section_of :: "thread \<Rightarrow> db \<Rightarrow> thread \<times> db" where
  "section_of t w =
     (case th_at t of
        Clock \<Rightarrow> clock_section t w
      | Stamp \<Rightarrow> stamp_section t w
      | Generate \<Rightarrow> generate_section t w
      | Room \<Rightarrow> (room_section t w, w)
      | RoomTest \<Rightarrow> (room_test_section t w, w)
      | LruClock \<Rightarrow> (t\<lparr>th_lruCur := now w, th_at := LruOrder\<rparr>, tick w)
      | LruEvict \<Rightarrow> lru_evict_section t w
      | LruDrop \<Rightarrow> (goto LruLeave t, w)
      | LruLeave \<Rightarrow> (goto Room t, w)
      | Store \<Rightarrow> store_section t w
      | Over \<Rightarrow> (goto OverSize t, ts_update (th_table t) (ts_erase (old_entry t)) w)
      | OverSize \<Rightarrow> (goto LinkLock t, stored_sub (th_size t) w)
      | NewSize \<Rightarrow> (goto LinkLock t, stored_add (insert_need (th_key t) (th_vs t)) w)
      | Link \<Rightarrow> (return SUCCESS t, ts_update (th_table t) (ts_insert (new_entry t)) w)
      | Look \<Rightarrow> look_section t w
      | Move \<Rightarrow> (return SUCCESS t, ts_update (th_table t) (\<lambda>s. ts_insert (new_entry t) (ts_erase (old_entry t) s)) w)
      | l \<Rightarrow> if l \<in> {SetFlag, SetClock, SetTime} then set_flush_section t w else handle_flush_section t w)"

text \<open>The mutexes: which one a site waits for, and which ones its section lets go.\<close>

definition wants_order :: "site \<Rightarrow> bool" where
  "wants_order l \<longleftrightarrow> l \<in> {RoomLock, LruOrder, OverLock, LinkLock, MoveLock}"

definition wants_map :: "site \<Rightarrow> bool" where
  "wants_map l \<longleftrightarrow> l \<in> {LruTable, StoreLock, LookLock}"

definition locked_site :: "site \<Rightarrow> site" where
  "locked_site l =
     (case l of RoomLock \<Rightarrow> RoomTest | LruOrder \<Rightarrow> LruTable | OverLock \<Rightarrow> Over | LinkLock \<Rightarrow> Link | MoveLock \<Rightarrow> Move
              | LruTable \<Rightarrow> LruEvict | StoreLock \<Rightarrow> Store | LookLock \<Rightarrow> Look | l \<Rightarrow> l)"

definition frees_order :: "site \<Rightarrow> bool" where
  "frees_order l \<longleftrightarrow> l \<in> {RoomTest, LruLeave, Over, Link, Move}"

definition frees_map :: "site \<Rightarrow> db \<Rightarrow> bool" where
  "frees_map l w \<longleftrightarrow> l = LruDrop \<or> l = Look \<or> (l = Store \<and> \<not> badAlloc w)"

record shared =
  sh_db :: db
  tsMutex :: "uint \<Rightarrow> nat option"
  kvMutex :: "uint \<Rightarrow> nat option"
  threads :: "nat \<Rightarrow> thread"

definition release :: "bool \<Rightarrow> uint \<Rightarrow> (uint \<Rightarrow> nat option) \<Rightarrow> (uint \<Rightarrow> nat option)" where
  "release b h m = (if b then m(h := None) else m)"

definition thread_step :: "nat \<Rightarrow> shared \<Rightarrow> shared option" where
  "thread_step k s =
     (let t = threads s k; l = th_at t; h = th_table t; w = sh_db s
      in if l = Finished \<or> l = Crashed then None
         else if wants_order l
         then (if tsMutex s h = None
               then Some (s\<lparr>tsMutex := (tsMutex s)(h \<mapsto> k), threads := (threads s)(k := goto (locked_site l) t)\<rparr>)
               else None)
         else if wants_map l
         then (if kvMutex s h = None
               then Some (s\<lparr>kvMutex := (kvMutex s)(h \<mapsto> k), threads := (threads s)(k := goto (locked_site l) t)\<rparr>)
               else None)
         else Some (s\<lparr>sh_db := snd (section_of t w), threads := (threads s)(k := fst (section_of t w)),
                      tsMutex := release (frees_order l) h (tsMutex s),
                      kvMutex := release (frees_map l w) h (kvMutex s)\<rparr>))"

section \<open>Executions\<close>

definition begin_call :: "nat \<Rightarrow> call \<Rightarrow> shared \<Rightarrow> shared" where
  "begin_call k c s = s\<lparr>threads := (threads s)(k := (threads s k)\<lparr>th_call := c, th_at := entry_site c\<rparr>)\<rparr>"

text \<open>
  A thread that has returned calls a function, a thread takes a step, or, where \<open>bad\<close> allows it,
  memory runs out or becomes available.
\<close>

inductive db_step :: "bool \<Rightarrow> shared \<Rightarrow> shared \<Rightarrow> bool" for bad where
  call: "th_at (threads s k) = Finished \<Longrightarrow> db_step bad s (begin_call k c s)"
| run: "thread_step k s = Some s' \<Longrightarrow> db_step bad s s'"
| memory: "bad \<Longrightarrow> db_step bad s (s\<lparr>sh_db := (sh_db s)\<lparr>badAlloc := b\<rparr>\<rparr>)"

definition started :: "shared \<Rightarrow> bool" where
  "started s \<longleftrightarrow>
     (\<exists>clk limit. sh_db s = (initial_db clk)\<lparr>gServMemLimit := limit\<rparr>) \<and>
     tsMutex s = (\<lambda>_. None) \<and> kvMutex s = (\<lambda>_. None) \<and> (\<forall>k. th_at (threads s k) = Finished)"

text \<open>The states reached as long as the counter of timestamps does not wrap.\<close>

inductive db_reachable :: "bool \<Rightarrow> shared \<Rightarrow> bool" for bad where
  start: "started s \<Longrightarrow> db_reachable bad s"
| step: "db_reachable bad s \<Longrightarrow> db_step bad s s' \<Longrightarrow> gTimestamp (sh_db s) \<le> gTimestamp (sh_db s') \<Longrightarrow>
     db_reachable bad s'"

end
