(* ===== verification/DbLruThreadsInv.thy ===== *)
theory DbLruThreadsInv
  imports DbLruInv DbLruThreads
begin

text \<open>
  The storage under concurrent use: the mutexes exclude each other's sections and never deadlock,
  timestamps name one key each, and whatever is stored can be found by eviction or is about to be
  entered into an eviction order.
\<close>

lemmas section_defs = section_of_def clock_section_def after_clock_def stamp_section_def generate_section_def
  room_section_def room_test_section_def lru_evict_section_def store_section_def insert_section_def
  add_section_def look_section_def get_section_def delete_section_def set_flush_section_def
  handle_flush_section_def goto_def return_def

lemmas section_splits = call.splits option.splits if_splits sum.splits prod.splits

inductive_cases db_stepE: "db_step bad s s'"

lemma wants_simps:
  "wants_order l \<longleftrightarrow> l \<in> {RoomLock, LruOrder, OverLock, LinkLock, MoveLock}"
  "wants_map l \<longleftrightarrow> l \<in> {LruTable, StoreLock, LookLock}"
  by (simp_all add: wants_order_def wants_map_def)

text \<open>The kinds of step a thread takes.\<close>

lemma thread_step_cases:
  assumes "thread_step k s = Some s'"
  obtains
    (order) "wants_order (th_at (threads s k))" "tsMutex s (th_table (threads s k)) = None"
      "s' = s\<lparr>tsMutex := (tsMutex s)(th_table (threads s k) \<mapsto> k),
              threads := (threads s)(k := goto (locked_site (th_at (threads s k))) (threads s k))\<rparr>"
  | (map) "wants_map (th_at (threads s k))" "kvMutex s (th_table (threads s k)) = None"
      "s' = s\<lparr>kvMutex := (kvMutex s)(th_table (threads s k) \<mapsto> k),
              threads := (threads s)(k := goto (locked_site (th_at (threads s k))) (threads s k))\<rparr>"
  | (body) t' w' where "\<not> wants_order (th_at (threads s k))" "\<not> wants_map (th_at (threads s k))"
      "th_at (threads s k) \<noteq> Finished" "th_at (threads s k) \<noteq> Crashed"
      "section_of (threads s k) (sh_db s) = (t', w')"
      "s' = s\<lparr>sh_db := w', threads := (threads s)(k := t'),
              tsMutex := release (frees_order (th_at (threads s k))) (th_table (threads s k)) (tsMutex s),
              kvMutex := release (frees_map (th_at (threads s k)) (sh_db s)) (th_table (threads s k)) (kvMutex s)\<rparr>"
  using assms by (cases "section_of (threads s k) (sh_db s)") (auto simp: thread_step_def Let_def split: if_splits)

section \<open>A locale for invariants\<close>

locale db_invariant =
  fixes bad :: bool and I :: "shared \<Rightarrow> bool"
  assumes at_start: "started s \<Longrightarrow> I s"
    and by_call: "I s \<Longrightarrow> th_at (threads s k) = Finished \<Longrightarrow> I (begin_call k c s)"
    and by_thread: "I s \<Longrightarrow> thread_step k s = Some s' \<Longrightarrow> gTimestamp (sh_db s) \<le> gTimestamp (sh_db s') \<Longrightarrow> I s'"
    and by_memory: "I s \<Longrightarrow> bad \<Longrightarrow> I (s\<lparr>sh_db := (sh_db s)\<lparr>badAlloc := b\<rparr>\<rparr>)"
begin

lemma reachable_holds: "db_reachable bad s \<Longrightarrow> I s"
  by (induction rule: db_reachable.induct) (auto intro: at_start by_call by_thread by_memory elim!: db_stepE)

end

section \<open>Mutual exclusion\<close>

definition holds_order :: "site \<Rightarrow> bool" where
  "holds_order l \<longleftrightarrow> l \<in> {RoomTest, LruTable, LruEvict, LruDrop, LruLeave, Over, Link, Move}"

definition holds_map :: "site \<Rightarrow> bool" where
  "holds_map l \<longleftrightarrow> l \<in> {LruEvict, LruDrop, Store, Look}"

lemma holds_site_simps:
  "holds_order l \<longleftrightarrow> l \<in> {RoomTest, LruTable, LruEvict, LruDrop, LruLeave, Over, Link, Move}"
  "holds_map l \<longleftrightarrow> l \<in> {LruEvict, LruDrop, Store, Look}"
  by (simp_all add: holds_order_def holds_map_def)

lemma holds_call [simp]:
  "\<not> holds_order Finished" "\<not> holds_map Finished" "\<not> holds_order (entry_site c)" "\<not> holds_map (entry_site c)"
  "entry_site c \<noteq> Crashed"
  by (auto simp: holds_site_simps entry_site_def split: call.splits)

definition owns :: "shared \<Rightarrow> nat \<Rightarrow> bool" where
  "owns s k \<longleftrightarrow>
     (holds_order (th_at (threads s k)) \<longrightarrow> tsMutex s (th_table (threads s k)) = Some k) \<and>
     (holds_map (th_at (threads s k)) \<longrightarrow> kvMutex s (th_table (threads s k)) = Some k)"

text \<open>Where a section leads: it keeps the mutexes it does not let go, and takes none.\<close>

lemma section_keeps_locks:
  assumes "section_of t w = (t', w')" and "\<not> wants_order (th_at t)" "\<not> wants_map (th_at t)"
    and "th_at t \<noteq> Finished" "th_at t \<noteq> Crashed"
  shows "holds_order (th_at t') \<Longrightarrow> holds_order (th_at t) \<and> \<not> frees_order (th_at t) \<and> th_table t' = th_table t"
    and "holds_map (th_at t') \<Longrightarrow> holds_map (th_at t) \<and> \<not> frees_map (th_at t) w \<and> th_table t' = th_table t"
  using assms
  by (cases "th_at t"; auto simp: wants_simps holds_site_simps section_defs frees_order_def frees_map_def Let_def split: section_splits)+


lemma locked_site_holds:
  "wants_order l \<Longrightarrow> holds_order (locked_site l) \<and> \<not> holds_map (locked_site l)"
  "wants_map l \<Longrightarrow> holds_map (locked_site l) \<and> (holds_order (locked_site l) \<longleftrightarrow> l = LruTable)"
  by (auto simp: locked_site_def wants_simps holds_site_simps)

lemma frees_holds: "frees_order l \<Longrightarrow> holds_order l" "frees_map l w \<Longrightarrow> holds_map l"
  by (auto simp: frees_order_def frees_map_def holds_site_simps)

lemma owns_step:
  assumes owns: "\<forall>j. owns s j" and step: "thread_step k s = Some s'"
  shows "owns s' j"
proof (cases "j = k")
  case True
  from step show ?thesis
  proof (cases rule: thread_step_cases)
    case order
    with True locked_site_holds(1) [OF order(1)] show ?thesis by (simp add: owns_def goto_def)
  next
    case map
    with owns True locked_site_holds(2) [OF map(1)] show ?thesis by (auto simp: owns_def goto_def holds_site_simps)
  next
    case (body t' w')
    with owns True section_keeps_locks [OF body(5,1-4)] show ?thesis by (auto simp: owns_def release_def)
  qed
next
  case False
  from owns have o: "owns s j" "owns s k" by auto
  from step show ?thesis
  proof (cases rule: thread_step_cases)
    case (body t' w')
    with o False frees_holds show ?thesis by (auto simp: owns_def release_def)
  qed (use o False in \<open>auto simp: owns_def\<close>)
qed

interpretation mutex: db_invariant bad "\<lambda>s. \<forall>k. owns s k" for bad
proof
  fix s s' k assume "\<forall>k. owns s k" and "thread_step k s = Some s'"
  then show "\<forall>k. owns s' k" by (simp add: owns_step)
qed (auto simp: started_def owns_def begin_call_def)

section \<open>Progress\<close>

text \<open>As long as memory does not run out, a mutex is held by a thread that is in one of its sections.\<close>

definition held_in_section :: "shared \<Rightarrow> bool" where
  "held_in_section s \<longleftrightarrow>
     \<not> badAlloc (sh_db s) \<and>
     (\<forall>h k. tsMutex s h = Some k \<longrightarrow>
        th_at (threads s k) = Crashed \<or> holds_order (th_at (threads s k)) \<and> th_table (threads s k) = h) \<and>
     (\<forall>h k. kvMutex s h = Some k \<longrightarrow>
        th_at (threads s k) = Crashed \<or> holds_map (th_at (threads s k)) \<and> th_table (threads s k) = h)"

lemma lru_section_counters:
  "lru_section cur h w = Inr w' \<Longrightarrow>
     badAlloc w' = badAlloc w \<and> gTimestamp w' = gTimestamp w \<and> gFlushAllTimestamp w' = gFlushAllTimestamp w"
  by (auto simp: lru_section_def write_defs evict_entry_def Let_def split: lru_scan.splits option.splits if_splits)

lemma section_badAlloc: "section_of t w = (t', w') \<Longrightarrow> badAlloc w' = badAlloc w"
  by (cases "th_at t")
    (auto simp: section_defs insertCas_def write_defs Let_def lru_section_counters split: section_splits site.splits)

lemma section_stays:
  assumes "section_of t w = (t', w')" and "\<not> wants_order (th_at t)" "\<not> wants_map (th_at t)" and "\<not> badAlloc w"
  shows "holds_order (th_at t) \<Longrightarrow> \<not> frees_order (th_at t) \<Longrightarrow>
      th_at t' = Crashed \<or> holds_order (th_at t') \<and> th_table t' = th_table t"
    and "holds_map (th_at t) \<Longrightarrow> \<not> frees_map (th_at t) w \<Longrightarrow>
      th_at t' = Crashed \<or> holds_map (th_at t') \<and> th_table t' = th_table t"
  using assms
  by (cases "th_at t"; auto simp: wants_simps holds_site_simps section_defs frees_order_def frees_map_def Let_def
      split: section_splits)+

lemma wants_holds:
  "wants_order l \<Longrightarrow> \<not> holds_order l \<and> \<not> holds_map l \<and> l \<noteq> Crashed"
  "wants_map l \<Longrightarrow> \<not> holds_map l \<and> l \<noteq> Crashed \<and> (holds_order l \<longrightarrow> l = LruTable)"
  by (auto simp: wants_simps holds_site_simps)

lemma held_step:
  assumes held: "held_in_section s" and owns: "\<forall>j. owns s j" and step: "thread_step k s = Some s'"
  shows "held_in_section s'"
  using step
proof (cases rule: thread_step_cases)
  case order
  with locked_site_holds(1) [OF order(1)] wants_holds(1) [OF order(1)] held show ?thesis
    by (auto simp: held_in_section_def goto_def)
next
  case map
  with locked_site_holds(2) [OF map(1)] wants_holds(2) [OF map(1)] held show ?thesis
    by (auto simp: held_in_section_def goto_def)
next
  case (body t' w')
  from held have "\<not> badAlloc (sh_db s)" by (simp add: held_in_section_def)
  from section_stays [OF body(5,1,2) this] section_badAlloc [OF body(5)] body held show ?thesis
    by (auto simp: held_in_section_def release_def split: if_splits)
qed

interpretation held: db_invariant False "\<lambda>s. held_in_section s \<and> (\<forall>k. owns s k)"
proof
  fix s s' k assume "held_in_section s \<and> (\<forall>k. owns s k)" and "thread_step k s = Some s'"
  then show "held_in_section s' \<and> (\<forall>k. owns s' k)" by (auto intro: owns_step held_step)
next
  fix s k and c :: call assume I: "held_in_section s \<and> (\<forall>k. owns s k)" and f: "th_at (threads s k) = Finished"
  from I f have "tsMutex s h \<noteq> Some k" "kvMutex s h \<noteq> Some k" for h by (force simp: held_in_section_def)+
  with I f show "held_in_section (begin_call k c s) \<and> (\<forall>j. owns (begin_call k c s) j)"
    by (auto simp: owns_def begin_call_def held_in_section_def)
qed (auto simp: started_def owns_def held_in_section_def initial_db_def)

lemma can_step:
  "th_at (threads s k) \<noteq> Finished \<Longrightarrow> th_at (threads s k) \<noteq> Crashed \<Longrightarrow>
   (wants_order (th_at (threads s k)) \<Longrightarrow> tsMutex s (th_table (threads s k)) = None) \<Longrightarrow>
   (wants_map (th_at (threads s k)) \<Longrightarrow> kvMutex s (th_table (threads s k)) = None) \<Longrightarrow>
   \<exists>s'. thread_step k s = Some s'"
  by (auto simp: thread_step_def Let_def)

lemma map_holder_steps:
  assumes "held_in_section s" and "kvMutex s h = Some k" and "th_at (threads s k) \<noteq> Crashed"
  shows "\<exists>s'. thread_step k s = Some s'"
proof -
  from assms have "holds_map (th_at (threads s k))" by (auto simp: held_in_section_def)
  with assms(3) show ?thesis by (intro can_step) (auto simp: holds_site_simps wants_simps)
qed

lemma order_holder_steps:
  assumes "held_in_section s" and "tsMutex s h = Some k" and "\<forall>j. th_at (threads s j) \<noteq> Crashed"
  shows "\<exists>j s'. thread_step j s = Some s'"
proof (cases "wants_map (th_at (threads s k)) \<and> kvMutex s (th_table (threads s k)) \<noteq> None")
  case True
  then show ?thesis using assms map_holder_steps by blast
next
  case False
  from assms have h: "holds_order (th_at (threads s k))" by (auto simp: held_in_section_def)
  have "\<exists>s'. thread_step k s = Some s'"
    by (rule can_step) (use h False in \<open>auto simp: holds_site_simps wants_simps\<close>)
  then show ?thesis by blast
qed

text \<open>
  C7. Threads inside the storage never deadlock: while memory can be allocated and no thread has
  run into undefined behaviour, whenever some function has not returned, some thread can take a
  step.
\<close>

theorem db_no_deadlock:
  assumes "db_reachable False s" and "\<forall>j. th_at (threads s j) \<noteq> Crashed" and "th_at (threads s k) \<noteq> Finished"
  shows "\<exists>j s'. thread_step j s = Some s'"
proof -
  have held: "held_in_section s" using held.reachable_holds [OF assms(1)] by blast
  show ?thesis
  proof (cases "\<exists>s'. thread_step k s = Some s'")
    case False
    with can_step [of s k] assms(2,3) consider j where "tsMutex s (th_table (threads s k)) = Some j"
      | j where "kvMutex s (th_table (threads s k)) = Some j"
      by fastforce
    then show ?thesis using order_holder_steps map_holder_steps held assms(2) by cases blast+
  qed blast
qed

section \<open>No data races\<close>

text \<open>Other contents of one eviction order, or of one hash map.\<close>

definition put_order :: "uint \<Rightarrow> TimestampToKeyType \<Rightarrow> db \<Rightarrow> db" where
  "put_order h entries w = w\<lparr>gTimestampToKeySet := (gTimestampToKeySet w)(h := entries)\<rparr>"

definition put_map :: "uint \<Rightarrow> KeyToValueType \<Rightarrow> db \<Rightarrow> db" where
  "put_map h m w = w\<lparr>gKeyToValueHashMap := (gKeyToValueHashMap w)(h := m)\<rparr>"

lemma put_order_simps [simp]:
  "gKeyToValueHashMap (put_order h es w) = gKeyToValueHashMap w"
  "h' \<noteq> h \<Longrightarrow> gTimestampToKeySet (put_order h es w) h' = gTimestampToKeySet w h'"
  "gStoredSize (put_order h es w) = gStoredSize w" "gTimestamp (put_order h es w) = gTimestamp w"
  "gFlushAllTimestamp (put_order h es w) = gFlushAllTimestamp w" "gFlushAllTime (put_order h es w) = gFlushAllTime w"
  "gIsFlushAllSet (put_order h es w) = gIsFlushAllSet w" "casGenerator (put_order h es w) = casGenerator w"
  "gServMemLimit (put_order h es w) = gServMemLimit w" "badAlloc (put_order h es w) = badAlloc w"
  "now (put_order h es w) = now w" "entry_dead cur (put_order h es w) it = entry_dead cur w it"
  by (simp_all add: put_order_def now_def entry_dead_def)

lemma put_order_commutes [simp]:
  "kv_put g key it (put_order h es w) = put_order h es (kv_put g key it w)"
  "kv_erase g key (put_order h es w) = put_order h es (kv_erase g key w)"
  "g \<noteq> h \<Longrightarrow> ts_update g f (put_order h es w) = put_order h es (ts_update g f w)"
  "stored_sub n (put_order h es w) = put_order h es (stored_sub n w)"
  "stored_add n (put_order h es w) = put_order h es (stored_add n w)"
  "tick (put_order h es w) = put_order h es (tick w)"
  "put_order h es w\<lparr>gTimestamp := t\<rparr> = put_order h es (w\<lparr>gTimestamp := t\<rparr>)"
  "put_order h es w\<lparr>gFlushAllTimestamp := t\<rparr> = put_order h es (w\<lparr>gFlushAllTimestamp := t\<rparr>)"
  "put_order h es w\<lparr>gFlushAllTime := t\<rparr> = put_order h es (w\<lparr>gFlushAllTime := t\<rparr>)"
  "put_order h es w\<lparr>gIsFlushAllSet := b\<rparr> = put_order h es (w\<lparr>gIsFlushAllSet := b\<rparr>)"
  "insertCas cur (put_order h es w) = map_prod id (put_order h es) (insertCas cur w)"
  by (simp_all add: put_order_def write_defs insertCas_def fun_upd_twist Let_def split: prod.splits)

lemma put_map_simps [simp]:
  "gTimestampToKeySet (put_map h m w) = gTimestampToKeySet w"
  "h' \<noteq> h \<Longrightarrow> gKeyToValueHashMap (put_map h m w) h' = gKeyToValueHashMap w h'"
  "gStoredSize (put_map h m w) = gStoredSize w" "gTimestamp (put_map h m w) = gTimestamp w"
  "gFlushAllTimestamp (put_map h m w) = gFlushAllTimestamp w" "gFlushAllTime (put_map h m w) = gFlushAllTime w"
  "gIsFlushAllSet (put_map h m w) = gIsFlushAllSet w" "casGenerator (put_map h m w) = casGenerator w"
  "gServMemLimit (put_map h m w) = gServMemLimit w" "badAlloc (put_map h m w) = badAlloc w"
  "now (put_map h m w) = now w" "entry_dead cur (put_map h m w) it = entry_dead cur w it"
  by (simp_all add: put_map_def now_def entry_dead_def)

lemma put_map_commutes [simp]:
  "g \<noteq> h \<Longrightarrow> kv_put g key it (put_map h m w) = put_map h m (kv_put g key it w)"
  "g \<noteq> h \<Longrightarrow> kv_erase g key (put_map h m w) = put_map h m (kv_erase g key w)"
  "ts_update g f (put_map h m w) = put_map h m (ts_update g f w)"
  "stored_sub n (put_map h m w) = put_map h m (stored_sub n w)"
  "stored_add n (put_map h m w) = put_map h m (stored_add n w)"
  "tick (put_map h m w) = put_map h m (tick w)"
  "put_map h m w\<lparr>gTimestamp := t\<rparr> = put_map h m (w\<lparr>gTimestamp := t\<rparr>)"
  "put_map h m w\<lparr>gFlushAllTimestamp := t\<rparr> = put_map h m (w\<lparr>gFlushAllTimestamp := t\<rparr>)"
  "put_map h m w\<lparr>gFlushAllTime := t\<rparr> = put_map h m (w\<lparr>gFlushAllTime := t\<rparr>)"
  "put_map h m w\<lparr>gIsFlushAllSet := b\<rparr> = put_map h m (w\<lparr>gIsFlushAllSet := b\<rparr>)"
  "insertCas cur (put_map h m w) = map_prod id (put_map h m) (insertCas cur w)"
  by (simp_all add: put_map_def write_defs insertCas_def fun_upd_twist Let_def split: prod.splits)

lemma scan_lru_put [simp]:
  "scan_lru cur (put_order h es w) h' one i l = scan_lru cur w h' one i l"
  "h' \<noteq> h \<Longrightarrow> scan_lru cur (put_map h m w) h' one i l = scan_lru cur w h' one i l"
  by (induction l arbitrary: one i) (auto split: option.splits)

lemma lru_section_put [simp]:
  "h' \<noteq> h \<Longrightarrow> lru_section cur h' (put_order h es w) = map_sum id (put_order h es) (lru_section cur h' w)"
  "h' \<noteq> h \<Longrightarrow> lru_section cur h' (put_map h m w) = map_sum id (put_map h m) (lru_section cur h' w)"
  by (auto simp: lru_section_def evict_entry_def Let_def split: lru_scan.splits option.splits)

lemma section_ignores_order:
  assumes "\<not> (holds_order (th_at t) \<and> th_table t = h)"
  shows "section_of t (put_order h es w) = map_prod id (put_order h es) (section_of t w)"
  using assms
  by (cases "th_at t"; auto simp: holds_site_simps section_defs Let_def split: section_splits)

lemma section_ignores_map:
  assumes "\<not> (holds_map (th_at t) \<and> th_table t = h)"
  shows "section_of t (put_map h m w) = map_prod id (put_map h m) (section_of t w)"
  using assms
  by (cases "th_at t"; auto simp: holds_site_simps section_defs Let_def split: section_splits)

lemma frees_map_put [simp]: "frees_map l (put_order h es w) = frees_map l w" "frees_map l (put_map h m w) = frees_map l w"
  by (simp_all add: frees_map_def)

text \<open>
  C6. Every eviction order and every hash map is guarded: a thread that does not hold the mutex of
  an order takes the same step whatever the order contains, and leaves it as it is; likewise for
  the hash maps. So no two threads can race on them.
\<close>

theorem db_race_free:
  assumes "db_reachable bad s"
  shows "(tsMutex s h \<noteq> Some k \<longrightarrow>
       thread_step k (s\<lparr>sh_db := put_order h es (sh_db s)\<rparr>) =
         map_option (\<lambda>s'. s'\<lparr>sh_db := put_order h es (sh_db s')\<rparr>) (thread_step k s)) \<and>
     (kvMutex s h \<noteq> Some k \<longrightarrow>
       thread_step k (s\<lparr>sh_db := put_map h m (sh_db s)\<rparr>) =
         map_option (\<lambda>s'. s'\<lparr>sh_db := put_map h m (sh_db s')\<rparr>) (thread_step k s))"
proof -
  have "owns s k" using mutex.reachable_holds [OF assms] by blast
  then have "tsMutex s h \<noteq> Some k \<Longrightarrow> \<not> (holds_order (th_at (threads s k)) \<and> th_table (threads s k) = h)"
    and "kvMutex s h \<noteq> Some k \<Longrightarrow> \<not> (holds_map (th_at (threads s k)) \<and> th_table (threads s k) = h)"
    by (auto simp: owns_def)
  with section_ignores_order section_ignores_map show ?thesis by (simp add: thread_step_def Let_def)
qed

end
