(* ===== verification/DbLruStamps.thy ===== *)
theory DbLruStamps
  imports DbLruThreadsInv
begin

text \<open>
  Timestamps and eviction orders under concurrent use. Every timestamp belongs to one operation on
  one key, and every key with an entry in a hash map can be found by eviction, or a thread is on
  its way to enter it into the order.
\<close>

section \<open>Whose timestamp it is\<close>

text \<open>
  A timestamp is handed out to one operation on one key. \<open>f\<close> is the key each timestamp belongs
  to; every copy of the timestamp, in an order, in a map or in a local variable, goes with it.
\<close>

definition db_stamps :: "(ulong \<Rightarrow> string) \<Rightarrow> db \<Rightarrow> bool" where
  "db_stamps f w \<longleftrightarrow>
     (\<forall>h. ts_sorted (gTimestampToKeySet w h)) \<and>
     (\<forall>h. \<forall>e \<in> set (gTimestampToKeySet w h).
        tk_timestamp e < gTimestamp w \<and> f (tk_timestamp e) = tk_key e \<and> getHashTblNbrFromKey (tk_key e) = h) \<and>
     (\<forall>h key it. gKeyToValueHashMap w h key = Some it \<longrightarrow>
        getTimestampFromMap it < gTimestamp w \<and> f (getTimestampFromMap it) = key \<and> getHashTblNbrFromKey key = h)"

definition stamped :: "thread \<Rightarrow> bool" where
  "stamped t \<longleftrightarrow>
     th_at t \<in> {Generate, Room, RoomLock, RoomTest, LruClock, LruOrder, LruTable, LruEvict, LruDrop, LruLeave,
       StoreLock, Store, OverLock, Over, OverSize, NewSize, LinkLock, Link, MoveLock, Move} \<or>
     th_at t \<in> {LookLock, Look} \<and> (\<exists>key. th_call t = CallGet key)"

definition replacing :: "site \<Rightarrow> bool" where
  "replacing l \<longleftrightarrow> l \<in> {OverLock, Over, MoveLock, Move}"

definition at_key :: "site \<Rightarrow> bool" where
  "at_key l \<longleftrightarrow> l \<in> {Stamp, StoreLock, Store, OverLock, Over, OverSize, NewSize, LinkLock, Link, LookLock, Look, MoveLock, Move}"

text \<open>A thread that will enter its key into the order before it returns.\<close>

definition linking :: "site \<Rightarrow> bool" where
  "linking l \<longleftrightarrow> l \<in> {OverLock, Over, OverSize, NewSize, LinkLock, Link, MoveLock, Move}"

definition thread_stamps :: "(ulong \<Rightarrow> string) \<Rightarrow> ulong \<Rightarrow> thread \<Rightarrow> bool" where
  "thread_stamps f T t \<longleftrightarrow>
     (stamped t \<longrightarrow> th_timestamp t < T \<and> f (th_timestamp t) = th_key t) \<and>
     (replacing (th_at t) \<longrightarrow> th_old t < T \<and> f (th_old t) = th_key t) \<and>
     (at_key (th_at t) \<longrightarrow> th_table t = key_table t)"

lemmas stamp_defs = stamped_def replacing_def at_key_def

lemma db_stamps_mono:
  "db_stamps f w \<Longrightarrow> gTimestamp w \<le> T \<Longrightarrow> (\<And>x. x < gTimestamp w \<Longrightarrow> f' x = f x) \<Longrightarrow> db_stamps f' (w\<lparr>gTimestamp := T\<rparr>)"
  unfolding db_stamps_def by simp (meson order_less_le_trans)

lemma thread_stamps_mono:
  "thread_stamps f T t \<Longrightarrow> T \<le> T' \<Longrightarrow> (\<And>x. x < T \<Longrightarrow> f' x = f x) \<Longrightarrow> thread_stamps f' T' t"
  unfolding thread_stamps_def by (auto intro: order_less_le_trans)

lemma db_stamps_writes:
  "db_stamps f w \<Longrightarrow> getTimestampFromMap it < gTimestamp w \<Longrightarrow> f (getTimestampFromMap it) = key \<Longrightarrow>
     getHashTblNbrFromKey key = h \<Longrightarrow> db_stamps f (kv_put h key it w)"
  "db_stamps f w \<Longrightarrow> db_stamps f (kv_erase h key w)"
  "db_stamps f w \<Longrightarrow> db_stamps f (stored_sub n w)" "db_stamps f w \<Longrightarrow> db_stamps f (stored_add n w)"
  "db_stamps f w \<Longrightarrow> db_stamps f (tick w)"
  "db_stamps f w \<Longrightarrow> db_stamps f (w\<lparr>gIsFlushAllSet := b\<rparr>)" "db_stamps f w \<Longrightarrow> db_stamps f (w\<lparr>gFlushAllTime := u\<rparr>)"
  "db_stamps f w \<Longrightarrow> db_stamps f (w\<lparr>gFlushAllTimestamp := u\<rparr>)"
  "db_stamps f w \<Longrightarrow> db_stamps f (w\<lparr>casGenerator := g\<rparr>)" "db_stamps f w \<Longrightarrow> db_stamps f (w\<lparr>badAlloc := b\<rparr>)"
  by (auto simp: db_stamps_def write_defs split: if_splits)

lemma set_ts_insert_subset: "set (ts_insert e xs) \<subseteq> insert e (set xs)"
  by (simp add: ts_insert_def tsset.set_insert_subset)

lemma db_stamps_orders:
  "db_stamps f w \<Longrightarrow> db_stamps f (ts_update h (ts_erase e) w)"
  "db_stamps f w \<Longrightarrow> db_stamps f (ts_update h (oset_erase_at i) w)"
  "db_stamps f w \<Longrightarrow> tk_timestamp e < gTimestamp w \<Longrightarrow> f (tk_timestamp e) = tk_key e \<Longrightarrow>
     getHashTblNbrFromKey (tk_key e) = h \<Longrightarrow> db_stamps f (ts_update h (ts_insert e) w)"
  using set_oset_erase_at set_ts_insert_subset
  by (fastforce simp: db_stamps_def ts_update_def set_ts_erase)+

lemma ts_update_comp: "ts_update h (\<lambda>s. f (g s)) w = ts_update h f (ts_update h g w)"
  by (simp add: ts_update_def)

lemma lru_section_stamps: "lru_section cur h w = Inr w' \<Longrightarrow> db_stamps f w \<Longrightarrow> db_stamps f w'"
  by (auto simp: lru_section_def evict_entry_def Let_def intro!: db_stamps_writes db_stamps_orders
      split: lru_scan.splits option.splits if_splits)

lemma map_stamps:
  "db_stamps f w \<Longrightarrow> gKeyToValueHashMap w h key = Some it \<Longrightarrow>
     getTimestampFromMap it < gTimestamp w \<and> f (getTimestampFromMap it) = key"
  unfolding db_stamps_def by blast

lemma entry_timestamps [simp]:
  "getTimestampFromMap (overwrite_entry e vs it) = getTimestampFromMap it"
  "getTimestampFromMap (setExpiryToMap e it) = getTimestampFromMap it"
  "getTimestampFromMap (setTimestampToMap u it) = u" "getTimestampFromMap (vs, u) = u"
  "tk_timestamp (new_entry t) = th_timestamp t" "tk_key (new_entry t) = th_key t"
  "tk_timestamp (old_entry t) = th_old t" "tk_key (old_entry t) = th_key t"
  by (simp_all add: getTimestampFromMap_def overwrite_entry_def setExpiryToMap_def setTimestampToMap_def
      setFlagsToMap_def setValueToMap_def setCasToMap_def new_entry_def old_entry_def)

lemma write_counters [simp]:
  "gTimestamp (kv_put h key it w) = gTimestamp w" "gTimestamp (kv_erase h key w) = gTimestamp w"
  "gTimestamp (ts_update h g w) = gTimestamp w" "gTimestamp (stored_sub n w) = gTimestamp w"
  "gTimestamp (stored_add n w) = gTimestamp w" "gTimestamp (tick w) = gTimestamp w"
  by (simp_all add: write_defs)

lemma th_key_site [simp]:
  "th_key (t\<lparr>th_at := l\<rparr>) = th_key t" "th_key (t\<lparr>th_old := u\<rparr>) = th_key t" "th_key (t\<lparr>th_size := u\<rparr>) = th_key t"
  "th_key (t\<lparr>th_ret := r\<rparr>) = th_key t" "th_key (t\<lparr>th_out := out\<rparr>) = th_key t" "th_key (t\<lparr>th_vs := vs\<rparr>) = th_key t"
  "th_key (t\<lparr>th_table := h\<rparr>) = th_key t" "th_key (t\<lparr>th_cur := u\<rparr>) = th_key t" "th_key (t\<lparr>th_lruCur := u\<rparr>) = th_key t"
  "th_key (t\<lparr>th_timestamp := u\<rparr>) = th_key t"
  by (simp_all add: th_key_def)

text \<open>A thread with its own timestamp, on the table of its key.\<close>

definition own_stamp :: "(ulong \<Rightarrow> string) \<Rightarrow> db \<Rightarrow> thread \<Rightarrow> bool" where
  "own_stamp f w t \<longleftrightarrow>
     th_timestamp t < gTimestamp w \<and> f (th_timestamp t) = th_key t \<and> th_table t = getHashTblNbrFromKey (th_key t)"

lemma thread_stamps_done [simp]:
  "thread_stamps f T (return r t)" "thread_stamps f T (goto Finished t)" "thread_stamps f T (goto Crashed t)"
  by (simp_all add: thread_stamps_def stamp_defs return_def goto_def)

lemma thread_stamps_new: "own_stamp f w t \<Longrightarrow> thread_stamps f (gTimestamp w) (goto NewSize t)"
  by (simp add: thread_stamps_def stamp_defs own_stamp_def goto_def key_table_def)

lemma thread_stamps_replacing:
  assumes "own_stamp f w t" and "getTimestampFromMap it < gTimestamp w \<and> f (getTimestampFromMap it) = th_key t"
  shows "thread_stamps f (gTimestamp w) (t\<lparr>th_old := getTimestampFromMap it, th_size := n, th_at := OverLock\<rparr>)"
    and "thread_stamps f (gTimestamp w) (t\<lparr>th_old := getTimestampFromMap it, th_at := MoveLock\<rparr>)"
    and "thread_stamps f (gTimestamp w) (t\<lparr>th_old := getTimestampFromMap it, th_at := MoveLock, th_out := out\<rparr>)"
  using assms by (simp_all add: thread_stamps_def stamp_defs own_stamp_def key_table_def)

lemma kv_put_stamps:
  assumes "db_stamps f w" and "own_stamp f w t"
  shows "db_stamps f (kv_put (th_table t) (th_key t) (vs, th_timestamp t) w)"
    and "db_stamps f (kv_put (th_table t) (th_key t) (setTimestampToMap (th_timestamp t) it) w)"
    and "gKeyToValueHashMap w (th_table t) (th_key t) = Some it \<Longrightarrow>
      db_stamps f (kv_put (th_table t) (th_key t) (overwrite_entry e vs it) w)"
  using assms map_stamps [OF assms(1), of "th_table t" "th_key t" it]
  by (auto simp: own_stamp_def intro!: db_stamps_writes)

lemma insert_section_stamps:
  assumes "insert_section casUniq expiry t w = (t', w')" and "db_stamps f w" and "own_stamp f w t"
  shows "db_stamps f w' \<and> thread_stamps f (gTimestamp w') t'"
proof (cases "gKeyToValueHashMap w (th_table t) (th_key t)")
  case None
  with assms kv_put_stamps(1) [OF assms(2,3)] thread_stamps_new [OF assms(3)] show ?thesis
    by (auto simp: insert_section_def Let_def db_stamps_writes(2) split: if_splits)
next
  case (Some it)
  with assms kv_put_stamps(3) [OF assms(2,3) Some] thread_stamps_replacing(1) [OF assms(3) map_stamps [OF assms(2) Some]]
  show ?thesis by (auto simp: insert_section_def Let_def split: if_splits)
qed

lemma add_section_stamps:
  assumes "add_section expiry t w = (t', w')" and "db_stamps f w" and "own_stamp f w t"
  shows "db_stamps f w' \<and> thread_stamps f (gTimestamp w') t'"
proof (cases "gKeyToValueHashMap w (th_table t) (th_key t)")
  case None
  with assms kv_put_stamps(1) [OF assms(2,3)] thread_stamps_new [OF assms(3)] show ?thesis
    by (auto simp: add_section_def Let_def)
next
  case (Some it)
  with assms kv_put_stamps(3) [OF assms(2,3) Some] thread_stamps_replacing(2) [OF assms(3) map_stamps [OF assms(2) Some]]
  show ?thesis by (auto simp: add_section_def Let_def split: if_splits)
qed

lemma get_section_stamps:
  assumes "get_section t w = (t', w')" and "db_stamps f w" and "own_stamp f w t"
  shows "db_stamps f w' \<and> thread_stamps f (gTimestamp w') t'"
proof (cases "gKeyToValueHashMap w (th_table t) (th_key t)")
  case (Some it)
  with assms kv_put_stamps(2) [OF assms(2,3), of it] thread_stamps_replacing(3) [OF assms(3) map_stamps [OF assms(2) Some]]
  show ?thesis by (auto simp: get_section_def Let_def db_stamps_writes(2) split: if_splits)
qed (use assms in \<open>auto simp: get_section_def Let_def\<close>)

lemma delete_section_stamps:
  assumes "delete_section expiry t w = (t', w')" and "db_stamps f w" and "th_table t = key_table t"
  shows "db_stamps f w' \<and> thread_stamps f (gTimestamp w') t'"
proof (cases "gKeyToValueHashMap w (th_table t) (th_key t)")
  case (Some it)
  with assms map_stamps [OF assms(2) Some] show ?thesis
    by (auto simp: delete_section_def key_table_def Let_def db_stamps_writes(1,2) split: if_splits)
qed (use assms in \<open>auto simp: delete_section_def Let_def\<close>)

lemma own_stampI:
  "thread_stamps f (gTimestamp w) t \<Longrightarrow> stamped t \<Longrightarrow> at_key (th_at t) \<Longrightarrow> own_stamp f w t"
  by (auto simp: thread_stamps_def own_stamp_def key_table_def)

lemma store_section_stamps:
  assumes "store_section t w = (t', w')" and "db_stamps f w" and "thread_stamps f (gTimestamp w) t" and "th_at t = Store"
  shows "db_stamps f w' \<and> thread_stamps f (gTimestamp w') t'"
proof -
  have "own_stamp f w t" using assms(3,4) by (intro own_stampI) (auto simp: stamp_defs)
  with assms(1,2) show ?thesis using insert_section_stamps add_section_stamps
    by (auto simp: store_section_def split: call.splits if_splits)
qed

lemma look_section_stamps:
  assumes "look_section t w = (t', w')" and "db_stamps f w" and "thread_stamps f (gTimestamp w) t" and "th_at t = Look"
  shows "db_stamps f w' \<and> thread_stamps f (gTimestamp w') t'"
proof (cases "\<exists>key. th_call t = CallGet key")
  case True
  with assms(3,4) have "own_stamp f w t" by (intro own_stampI) (auto simp: stamp_defs)
  with True assms(1,2) get_section_stamps show ?thesis by (auto simp: look_section_def)
next
  case False
  from assms(3,4) have "th_table t = key_table t" by (simp add: thread_stamps_def stamp_defs)
  with False assms(1,2) delete_section_stamps show ?thesis by (auto simp: look_section_def split: call.splits)
qed

lemma order_section_stamps:
  assumes "db_stamps f w" and "thread_stamps f (gTimestamp w) t"
  shows "db_stamps f (ts_update h (ts_erase (old_entry t)) w)"
    and "th_at t \<in> {Link, Move} \<Longrightarrow> db_stamps f (ts_update (th_table t) (ts_insert (new_entry t)) w)"
proof -
  assume at: "th_at t \<in> {Link, Move}"
  with assms(2) have "own_stamp f w t" by (intro own_stampI) (auto simp: stamp_defs)
  with assms(1) show "db_stamps f (ts_update (th_table t) (ts_insert (new_entry t)) w)"
    by (auto simp: own_stamp_def intro!: db_stamps_orders)
qed (use assms in \<open>auto intro!: db_stamps_orders\<close>)

lemma thread_stamps_loop:
  assumes "thread_stamps f T t" and "stamped t" and "th_timestamp t' = th_timestamp t" and "th_key t' = th_key t"
    and "th_at t' \<in> {Room, RoomLock, LruClock, LruOrder, LruDrop, LruLeave, Finished, Crashed}"
  shows "thread_stamps f T t'"
proof -
  from assms(5) have "\<not> replacing (th_at t')" "\<not> at_key (th_at t')" by (auto simp: replacing_def at_key_def)
  with assms(1-4) show ?thesis by (simp add: thread_stamps_def)
qed

lemma loop_section_stamps:
  assumes "section_of t w = (t', w')" and "db_stamps f w" and "thread_stamps f (gTimestamp w) t"
    and "th_at t \<in> {Generate, RoomTest, LruClock, LruEvict, LruDrop, LruLeave}"
  shows "db_stamps f w' \<and> thread_stamps f (gTimestamp w') t'"
proof -
  have "stamped t" using assms(4) by (auto simp: stamped_def)
  note loop = thread_stamps_loop [OF assms(3) this]
  have t: "th_timestamp t' = th_timestamp t" "th_key t' = th_key t"
    "th_at t' \<in> {Room, RoomLock, LruClock, LruOrder, LruDrop, LruLeave, Finished, Crashed}"
    using assms(1,4) by (auto simp: section_defs Let_def split: section_splits)
  have w: "db_stamps f w'" "gTimestamp w' = gTimestamp w"
    using assms(1,2,4) by (auto simp: section_defs insertCas_def Let_def db_stamps_writes lru_section_counters
        dest: lru_section_stamps split: section_splits)
  from loop [OF t] w show ?thesis by simp
qed

lemma thread_stamps_key:
  assumes "thread_stamps f T t" and "stamped t" and "th_timestamp t' = th_timestamp t" and "th_key t' = th_key t"
    and "th_table t' = key_table t" and "th_at t' \<in> {StoreLock, OverSize, NewSize, LinkLock}"
  shows "thread_stamps f T t'"
proof -
  from assms(6) have "\<not> replacing (th_at t')" by (auto simp: replacing_def)
  with assms(1-5) show ?thesis by (simp add: thread_stamps_def key_table_def)
qed

lemma key_section_stamps:
  assumes "section_of t w = (t', w')" and "db_stamps f w" and "thread_stamps f (gTimestamp w) t"
    and "th_at t \<in> {Over, OverSize, NewSize}"
  shows "db_stamps f w' \<and> thread_stamps f (gTimestamp w') t'"
proof -
  have "stamped t" "th_table t = key_table t" using assms(3,4) by (auto simp: stamp_defs thread_stamps_def)
  note key = thread_stamps_key [OF assms(3) this(1)] this(2)
  have "gTimestamp w' = gTimestamp w" and "th_timestamp t' = th_timestamp t" "th_key t' = th_key t"
    "th_table t' = th_table t" "th_at t' \<in> {OverSize, LinkLock}"
    using assms(1,4) by (auto simp: section_of_def goto_def)
  moreover have "db_stamps f w'"
    using assms(1,2,4) by (auto simp: section_of_def intro!: db_stamps_writes db_stamps_orders)
  ultimately show ?thesis using key by auto
qed

lemma room_section_stamps:
  assumes "section_of t w = (t', w')" and "db_stamps f w" and "thread_stamps f (gTimestamp w) t" and "th_at t = Room"
  shows "db_stamps f w' \<and> thread_stamps f (gTimestamp w') t'"
proof -
  have "stamped t" using assms(4) by (simp add: stamped_def)
  from thread_stamps_key [OF assms(3) this] thread_stamps_loop [OF assms(3) this] assms(1,2,4) show ?thesis
    by (auto simp: section_of_def room_section_def goto_def split: if_splits)
qed

lemma thread_stamps_idle:
  "th_at t \<in> {Finished, Crashed, SetFlag, SetClock, SetTime, FlushTest, FlushClock, FlushDue, FlushStamp,
     FlushMark, FlushClear} \<Longrightarrow> thread_stamps f T t"
  by (auto simp: thread_stamps_def stamp_defs)

lemma flush_section_stamps:
  assumes "section_of t w = (t', w')" and "db_stamps f w"
    and "th_at t \<in> {SetFlag, SetClock, SetTime, FlushTest, FlushClock, FlushDue, FlushMark, FlushClear}"
  shows "db_stamps f w' \<and> thread_stamps f (gTimestamp w') t'"
proof -
  have "thread_stamps f (gTimestamp w') t'"
    by (rule thread_stamps_idle)
      (use assms(1,3) in \<open>auto simp: section_of_def set_flush_section_def handle_flush_section_def goto_def split: if_splits\<close>)
  moreover have "db_stamps f w'"
    using assms by (auto simp: section_of_def set_flush_section_def handle_flush_section_def db_stamps_writes)
  ultimately show ?thesis by blast
qed

lemma clock_section_stamps:
  assumes "section_of t w = (t', w')" and "db_stamps f w" and "th_at t = Clock"
  shows "db_stamps f w' \<and> thread_stamps f (gTimestamp w') t'"
proof -
  have "thread_stamps f (gTimestamp w') t'"
    using assms(1,3) by (auto simp: section_of_def clock_section_def after_clock_def thread_stamps_def stamp_defs
        key_table_def split: call.splits)
  with assms show ?thesis by (auto simp: section_of_def clock_section_def db_stamps_writes)
qed

lemma section_stamps:
  assumes "section_of t w = (t', w')" and "db_stamps f w" and "thread_stamps f (gTimestamp w) t"
    and "th_at t \<noteq> Stamp" and "th_at t \<noteq> FlushStamp" and "\<not> wants_order (th_at t)" "\<not> wants_map (th_at t)"
    and "th_at t \<noteq> Finished" "th_at t \<noteq> Crashed"
  shows "db_stamps f w' \<and> thread_stamps f (gTimestamp w') t'"
proof -
  from assms(4-)
  consider "th_at t \<in> {Generate, RoomTest, LruClock, LruEvict, LruDrop, LruLeave}" | "th_at t \<in> {Over, OverSize, NewSize}"
    | "th_at t \<in> {SetFlag, SetClock, SetTime, FlushTest, FlushClock, FlushDue, FlushMark, FlushClear}"
    | (Room) "th_at t = Room" | (Clock) "th_at t = Clock" | (Store) "th_at t = Store" | (Look) "th_at t = Look"
    | (Link) "th_at t = Link" | (Move) "th_at t = Move"
    by (cases "th_at t") (simp_all add: wants_simps)
  then show ?thesis
  proof cases
    case Store
    with assms(1-3) store_section_stamps show ?thesis by (simp add: section_of_def)
  next
    case Look
    with assms(1-3) look_section_stamps show ?thesis by (simp add: section_of_def)
  next
    case Link
    with order_section_stamps(2) [OF assms(2,3)] assms(1) show ?thesis by (auto simp: section_of_def)
  next
    case Move
    have "db_stamps f (ts_update (th_table t) (ts_erase (old_entry t)) w)"
      by (rule order_section_stamps(1) [OF assms(2,3)])
    from order_section_stamps(2) [OF this, of t] Move assms(1,3) show ?thesis
      by (auto simp: section_of_def ts_update_comp)
  qed (fact loop_section_stamps [OF assms(1-3)] key_section_stamps [OF assms(1-3)] flush_section_stamps [OF assms(1,2)]
      room_section_stamps [OF assms(1-3)] clock_section_stamps [OF assms(1,2)])+
qed

lemma stamping_section_stamps:
  assumes "section_of t w = (t', w')" and "db_stamps f w" and "thread_stamps f (gTimestamp w) t"
    and "gTimestamp w \<le> gTimestamp w'" and "th_at t = Stamp \<or> th_at t = FlushStamp"
  shows "\<exists>f'. (\<forall>x < gTimestamp w. f' x = f x) \<and> db_stamps f' w' \<and> thread_stamps f' (gTimestamp w') t'"
proof -
  let ?T = "gTimestamp w" and ?f = "f(gTimestamp w := th_key t)"
  have w': "w' = w\<lparr>gTimestamp := ?T + 1\<rparr>"
    using assms(1,5) by (auto simp: section_of_def stamp_section_def handle_flush_section_def)
  have less: "?T < ?T + 1" using assms(4) w' by (simp add: order.strict_iff_order)
  have "thread_stamps ?f (?T + 1) t'"
  proof (cases "th_at t = Stamp")
    case True
    with assms(3) have "th_table t = key_table t" by (simp add: thread_stamps_def at_key_def)
    moreover from True assms(1) have "th_timestamp t' = ?T" "th_key t' = th_key t" "th_table t' = th_table t"
      "th_at t' = Generate \<or> th_at t' = LookLock"
      by (auto simp: section_of_def stamp_section_def split: call.splits)
    ultimately show ?thesis using less by (auto simp: thread_stamps_def replacing_def at_key_def key_table_def)
  next
    case False
    with assms(1,5) show ?thesis by (intro thread_stamps_idle) (auto simp: section_of_def handle_flush_section_def)
  qed
  moreover have "db_stamps ?f w'" unfolding w' by (rule db_stamps_mono [OF assms(2)]) (use less in auto)
  ultimately show ?thesis using w' by (intro exI [of _ ?f]) auto
qed

definition stamps_ok :: "shared \<Rightarrow> bool" where
  "stamps_ok s \<longleftrightarrow>
     (\<exists>f. db_stamps f (sh_db s) \<and> (\<forall>k. thread_stamps f (gTimestamp (sh_db s)) (threads s k)))"

lemma thread_stamps_locked:
  assumes "thread_stamps f T t" and "wants_order (th_at t) \<or> wants_map (th_at t)"
  shows "thread_stamps f T (goto (locked_site (th_at t)) t)"
proof -
  let ?t = "goto (locked_site (th_at t)) t"
  have "stamped ?t = stamped t" "replacing (th_at ?t) = replacing (th_at t)" "at_key (th_at ?t) = at_key (th_at t)"
    using assms(2) by (cases "th_at t"; simp add: wants_simps locked_site_def goto_def stamp_defs)+
  then show ?thesis using assms(1) by (simp add: thread_stamps_def goto_def key_table_def)
qed

lemma stamps_step:
  assumes "stamps_ok s" and step: "thread_step k s = Some s'" and T: "gTimestamp (sh_db s) \<le> gTimestamp (sh_db s')"
  shows "stamps_ok s'"
proof -
  obtain f where db: "db_stamps f (sh_db s)" and th: "\<And>j. thread_stamps f (gTimestamp (sh_db s)) (threads s j)"
    using assms(1) by (auto simp: stamps_ok_def)
  from step show ?thesis
  proof (cases rule: thread_step_cases)
    case order
    with db th thread_stamps_locked [OF th [of k]] show ?thesis by (auto simp: stamps_ok_def)
  next
    case map
    with db th thread_stamps_locked [OF th [of k]] show ?thesis by (auto simp: stamps_ok_def)
  next
    case (body t' w')
    have "\<exists>f'. (\<forall>x < gTimestamp (sh_db s). f' x = f x) \<and> db_stamps f' w' \<and> thread_stamps f' (gTimestamp w') t'"
    proof (cases "th_at (threads s k) = Stamp \<or> th_at (threads s k) = FlushStamp")
      case True
      with stamping_section_stamps [OF body(5) db th] T body(6) show ?thesis by simp
    next
      case False
      with section_stamps [OF body(5) db th] body(1-4) show ?thesis by blast
    qed
    then obtain f' where f': "\<forall>x < gTimestamp (sh_db s). f' x = f x" "db_stamps f' w'"
      "thread_stamps f' (gTimestamp w') t'" by blast
    moreover have "thread_stamps f' (gTimestamp w') (threads s j)" for j
      by (rule thread_stamps_mono [OF th]) (use T body(6) f'(1) in simp_all)
    ultimately show ?thesis using body(6) by (auto simp: stamps_ok_def)
  qed
qed

lemma stamps_memory: "stamps_ok s \<Longrightarrow> stamps_ok (s\<lparr>sh_db := (sh_db s)\<lparr>badAlloc := b\<rparr>\<rparr>)"
  unfolding stamps_ok_def by (auto dest: db_stamps_writes(10))

interpretation stamps: db_invariant bad stamps_ok for bad
proof
  fix s assume "started s"
  then show "stamps_ok s"
    by (auto simp: started_def stamps_ok_def db_stamps_def initial_db_def thread_stamps_idle)
next
  fix s k c assume ok: "stamps_ok s" and "th_at (threads s k) = Finished"
  have "thread_stamps f T ((threads s k)\<lparr>th_call := c, th_at := entry_site c\<rparr>)" for f T
    by (auto simp: thread_stamps_def stamp_defs entry_site_def split: call.splits)
  with ok show "stamps_ok (begin_call k c s)" by (auto simp: stamps_ok_def begin_call_def)
qed (auto intro: stamps_step stamps_memory)

section \<open>Whatever is stored can be evicted\<close>

definition in_order :: "db \<Rightarrow> uint \<Rightarrow> string \<Rightarrow> bool" where
  "in_order w h key \<longleftrightarrow> (\<exists>e \<in> set (gTimestampToKeySet w h). tk_key e = key)"

definition in_map :: "db \<Rightarrow> uint \<Rightarrow> string \<Rightarrow> bool" where
  "in_map w h key \<longleftrightarrow> gKeyToValueHashMap w h key \<noteq> None"

definition linked :: "shared \<Rightarrow> bool" where
  "linked s \<longleftrightarrow>
     (\<forall>h key. in_map (sh_db s) h key \<longrightarrow>
        in_order (sh_db s) h key \<or> (\<exists>k. linking (th_at (threads s k)) \<and> th_key (threads s k) = key))"

lemma in_writes [simp]:
  "in_order (kv_put h key it w) = in_order w" "in_order (kv_erase h key w) = in_order w"
  "in_order (stored_sub n w) = in_order w" "in_order (stored_add n w) = in_order w" "in_order (tick w) = in_order w"
  "in_map (ts_update h g w) = in_map w" "in_map (stored_sub n w) = in_map w" "in_map (stored_add n w) = in_map w"
  "in_map (tick w) = in_map w"
  "in_map (kv_put h key it w) h' key' \<longleftrightarrow> in_map w h' key' \<or> h' = h \<and> key' = key"
  "in_map (kv_erase h key w) h' key' \<longleftrightarrow> in_map w h' key' \<and> \<not> (h' = h \<and> key' = key)"
  by (auto simp: in_order_def in_map_def write_defs fun_eq_iff)

lemma in_order_erase_at:
  assumes "in_order w h' key'" and "i < length (gTimestampToKeySet w h)"
  shows "in_order (ts_update h (oset_erase_at i) w) h' key' \<or> h' = h \<and> key' = tk_key (gTimestampToKeySet w h ! i)"
proof -
  have "set (gTimestampToKeySet w h) = insert (gTimestampToKeySet w h ! i) (set (oset_erase_at i (gTimestampToKeySet w h)))"
    using id_take_nth_drop [OF assms(2)] by (metis Un_insert_right list.simps(15) oset_erase_at_def set_append)
  with assms(1) show ?thesis by (auto simp: in_order_def ts_update_def)
qed

lemma lru_section_links:
  assumes "lru_section cur h w = Inr w'" and "in_map w' h' key"
  shows "in_map w h' key \<and> (in_order w h' key \<longrightarrow> in_order w' h' key)"
  using assms(1)
proof (cases rule: lru_section_cases)
  case (gone i)
  let ?key = "tk_key (gTimestampToKeySet w h ! i)"
  have "in_map w h' key" using assms(2) gone by simp
  moreover have "in_order w' h' key \<or> h' = h \<and> key = ?key" if "in_order w h' key"
    using that gone in_order_erase_at [of "stored_sub (str_size ?key + sizeof_ulong) w" h' key i h]
    by (simp add: stored_sub_def in_order_def)
  ultimately show ?thesis using gone by (auto simp: in_map_def)
next
  case (evicted i it)
  let ?key = "tk_key (gTimestampToKeySet w h ! i)"
  let ?w = "kv_erase h ?key (stored_sub (evicted_size ?key it) w)"
  have "in_map w h' key \<and> \<not> (h' = h \<and> key = ?key)" using assms(2) evicted by (simp add: evict_entry_def)
  moreover have "in_order w' h' key \<or> h' = h \<and> key = ?key" if "in_order w h' key"
    using that evicted in_order_erase_at [of ?w h' key i h]
    by (simp add: evict_entry_def stored_sub_def kv_erase_def in_order_def)
  ultimately show ?thesis by auto
qed

lemma in_order_ts_erase:
  assumes "db_stamps f w" and "f (tk_timestamp e) = tk_key e" and "in_order w h' key"
  shows "in_order (ts_update h (ts_erase e) w) h' key \<or> key = tk_key e"
proof -
  obtain x where x: "x \<in> set (gTimestampToKeySet w h')" "tk_key x = key" using assms(3) by (auto simp: in_order_def)
  with assms(1) have "f (tk_timestamp x) = key" "ts_sorted (gTimestampToKeySet w h)" by (auto simp: db_stamps_def)
  with x assms(2) show ?thesis by (auto simp: in_order_def ts_update_def set_ts_erase)
qed

lemma in_order_ts_insert:
  assumes "db_stamps f w" and "f (tk_timestamp e) = tk_key e"
  shows "in_order (ts_update h (ts_insert e) w) h' key \<longleftrightarrow> in_order w h' key \<or> h' = h \<and> key = tk_key e"
proof (cases "\<exists>x \<in> set (gTimestampToKeySet w h). tk_timestamp x = tk_timestamp e")
  case True
  then obtain x where x: "x \<in> set (gTimestampToKeySet w h)" "tk_timestamp x = tk_timestamp e" by blast
  then have "tk_key x = tk_key e" using assms unfolding db_stamps_def by metis
  moreover have "ts_insert e (gTimestampToKeySet w h) = gTimestampToKeySet w h"
    using x assms(1) unfolding ts_insert_def
    by (intro tsset.set_insert_present) (auto simp: db_stamps_def ts_sorted_def timestampToKeyCompare_def)
  ultimately show ?thesis using x by (auto simp: in_order_def ts_update_def)
next
  case False
  then show ?thesis by (auto simp: in_order_def ts_update_def set_ts_insert)
qed

text \<open>
  What one section does to a stored key: it is in the order afterwards, or the thread is about to
  enter it, or the thread has nothing to do with it.
\<close>

definition links_key :: "thread \<Rightarrow> string \<Rightarrow> bool" where
  "links_key t key \<longleftrightarrow> linking (th_at t) \<and> th_key t = key"

lemma map_section_links:
  assumes "section_of t w = (t', w')" and "th_at t = Store \<or> th_at t = Look" and "in_map w' h key"
  shows "in_order w' h key = in_order w h key \<and> (in_map w h key \<or> links_key t' key) \<and> \<not> linking (th_at t)"
proof -
  have "in_map w h key \<or> links_key t' key" and "in_order w' h key = in_order w h key"
    using assms
    by (auto simp: section_defs Let_def links_key_def linking_def split: section_splits) (simp add: in_map_def)
  then show ?thesis using assms(2) by (auto simp: linking_def)
qed

lemma order_section_links:
  assumes "section_of t w = (t', w')" and "db_stamps f w" and "thread_stamps f (gTimestamp w) t"
    and "th_at t \<in> {Over, Link, Move}" and "in_map w' h key"
  shows "in_map w h key \<and> (in_order w h key \<or> links_key t key \<longrightarrow> in_order w' h key \<or> links_key t' key)"
proof -
  have own: "own_stamp f w t" using assms(3,4) by (intro own_stampI) (auto simp: stamp_defs)
  then have new: "f (tk_timestamp (new_entry t)) = tk_key (new_entry t)" by (simp add: own_stamp_def)
  have old: "f (tk_timestamp (old_entry t)) = tk_key (old_entry t)" if "th_at t \<noteq> Link"
    using that assms(3,4) by (auto simp: thread_stamps_def replacing_def)
  have map: "in_map w h key" using assms(1,4,5) by (auto simp: section_of_def)
  then have table: "h = th_table t" if "key = th_key t"
    using that own assms(2) by (auto simp: in_map_def own_stamp_def db_stamps_def)
  let ?w = "ts_update (th_table t) (ts_erase (old_entry t)) w"
  have erased: "in_order ?w h key \<or> key = th_key t" if "in_order w h key" "th_at t \<noteq> Link"
    using in_order_ts_erase [OF assms(2) old that(1), of "th_table t"] that(2) by simp
  have stamps: "db_stamps f ?w" by (rule order_section_stamps(1) [OF assms(2,3)])
  from assms(4) consider (Over) "th_at t = Over" | (Link) "th_at t = Link" | (Move) "th_at t = Move" by blast
  then show ?thesis
  proof cases
    case Over
    then have "t' = goto OverSize t" "w' = ?w" using assms(1) by (simp_all add: section_of_def)
    with map erased Over show ?thesis by (auto simp: links_key_def linking_def goto_def)
  next
    case Link
    then have "w' = ts_update (th_table t) (ts_insert (new_entry t)) w" using assms(1) by (simp add: section_of_def)
    with map table show ?thesis by (auto simp: in_order_ts_insert [OF assms(2) new] links_key_def)
  next
    case Move
    then have "w' = ts_update (th_table t) (ts_insert (new_entry t)) ?w"
      using assms(1) by (simp add: section_of_def ts_update_comp)
    with map table erased Move show ?thesis by (auto simp: in_order_ts_insert [OF stamps new] links_key_def)
  qed
qed

lemma quiet_section_links:
  assumes "section_of t w = (t', w')" and "\<not> wants_order (th_at t)" "\<not> wants_map (th_at t)"
    and "th_at t \<notin> {Store, Look, Over, Link, Move, LruEvict}" and "in_map w' h key"
  shows "in_map w h key \<and> in_order w' h key = in_order w h key \<and> (links_key t key \<longrightarrow> links_key t' key)"
proof -
  have "gKeyToValueHashMap w' = gKeyToValueHashMap w" "gTimestampToKeySet w' = gTimestampToKeySet w"
    using assms(1-4) by (cases "th_at t"; auto simp: section_defs wants_simps insertCas_def write_defs Let_def
        split: section_splits)+
  moreover have "links_key t key \<longrightarrow> links_key t' key"
    using assms(1-4) by (auto simp: links_key_def linking_def section_of_def wants_simps goto_def)
  ultimately show ?thesis using assms(5) by (simp add: in_map_def in_order_def)
qed

lemma section_links:
  assumes "section_of t w = (t', w')" and "db_stamps f w" and "thread_stamps f (gTimestamp w) t"
    and "\<not> wants_order (th_at t)" "\<not> wants_map (th_at t)" and "in_map w' h key"
  shows "in_order w' h key \<or> links_key t' key \<or> in_map w h key \<and> \<not> in_order w h key \<and> \<not> links_key t key"
proof -
  consider "th_at t = Store \<or> th_at t = Look" | "th_at t \<in> {Over, Link, Move}" | (evict) "th_at t = LruEvict"
    | "th_at t \<notin> {Store, Look, Over, Link, Move, LruEvict}" by blast
  then show ?thesis
  proof cases
    case 1
    with map_section_links [OF assms(1) _ assms(6)] show ?thesis by (auto simp: links_key_def)
  next
    case 2
    from order_section_links [OF assms(1-3) 2 assms(6)] show ?thesis by blast
  next
    case evict
    then have "\<not> links_key t key" by (simp add: links_key_def linking_def)
    moreover have "in_map w h key \<and> (in_order w h key \<longrightarrow> in_order w' h key)"
      using evict assms(1,6) lru_section_links
      by (auto simp: section_of_def lru_evict_section_def split: sum.splits)
    ultimately show ?thesis by blast
  next
    case 4
    from quiet_section_links [OF assms(1,4,5) 4 assms(6)] show ?thesis by blast
  qed
qed

lemma linking_locked: "wants_order l \<or> wants_map l \<Longrightarrow> linking (locked_site l) = linking l"
  by (cases l) (simp_all add: wants_simps locked_site_def linking_def)

lemma linked_step:
  assumes linked: "linked s" and "stamps_ok s" and step: "thread_step k s = Some s'"
  shows "linked s'"
  using step
proof (cases rule: thread_step_cases)
  case order
  with linked linking_locked show ?thesis by (simp add: linked_def goto_def) (metis fun_upd_apply)
next
  case map
  with linked linking_locked show ?thesis by (simp add: linked_def goto_def) (metis fun_upd_apply)
next
  case (body t' w')
  obtain f where "db_stamps f (sh_db s)" "thread_stamps f (gTimestamp (sh_db s)) (threads s k)"
    using assms(2) by (auto simp: stamps_ok_def)
  note key = section_links [OF body(5) this body(1,2)]
  show ?thesis unfolding linked_def
  proof (intro allI impI)
    fix h key assume "in_map (sh_db s') h key"
    then consider "in_order w' h key" | "links_key t' key" | "in_map (sh_db s) h key" "\<not> in_order (sh_db s) h key"
        "\<not> links_key (threads s k) key"
      using key body(6) by auto
    then show "in_order (sh_db s') h key \<or> (\<exists>j. linking (th_at (threads s' j)) \<and> th_key (threads s' j) = key)"
    proof cases
      case 3
      then obtain j where "linking (th_at (threads s j))" "th_key (threads s j) = key" "j \<noteq> k"
        using linked by (auto simp: linked_def links_key_def)
      then show ?thesis using body(6) by auto
    qed (use body(6) in \<open>auto simp: links_key_def\<close>)
  qed
qed

interpretation links: db_invariant bad "\<lambda>s. linked s \<and> stamps_ok s" for bad
proof
  fix s assume "started s"
  then show "linked s \<and> stamps_ok s"
    by (auto simp: started_def linked_def in_map_def initial_db_def intro: stamps.at_start)
next
  fix s k and c :: call assume I: "linked s \<and> stamps_ok s" and "th_at (threads s k) = Finished"
  then have "\<not> linking (th_at (threads s k))" by (simp add: linking_def)
  then have "linked (begin_call k c s)"
    using I unfolding linked_def begin_call_def by simp (metis)
  with I \<open>th_at (threads s k) = Finished\<close> show "linked (begin_call k c s) \<and> stamps_ok (begin_call k c s)"
    using stamps.by_call by blast
next
  fix s b assume "linked s \<and> stamps_ok s"
  then show "linked (s\<lparr>sh_db := (sh_db s)\<lparr>badAlloc := b\<rparr>\<rparr>) \<and> stamps_ok (s\<lparr>sh_db := (sh_db s)\<lparr>badAlloc := b\<rparr>\<rparr>)"
    by (auto simp: linked_def in_map_def in_order_def intro: stamps_memory)
qed (auto intro: linked_step stamps_step)

text \<open>
  C8. Whatever threads do at the same time, every eviction order stays strictly ascending, holds
  keys of its own table only, and every stored key is in the order of its table unless a thread
  is still on its way to enter it there: once all functions have returned, everything stored can
  be evicted.
\<close>

theorem db_threads_evictable:
  assumes "db_reachable bad s"
  shows "(\<forall>h. ts_sorted (gTimestampToKeySet (sh_db s) h) \<and>
        (\<forall>e \<in> set (gTimestampToKeySet (sh_db s) h). getHashTblNbrFromKey (tk_key e) = h)) \<and>
     (\<forall>h key it. gKeyToValueHashMap (sh_db s) h key = Some it \<longrightarrow>
        getHashTblNbrFromKey key = h \<and>
        ((\<exists>e \<in> set (gTimestampToKeySet (sh_db s) h). tk_key e = key) \<or>
         (\<exists>k. th_at (threads s k) \<noteq> Finished \<and> th_key (threads s k) = key)))"
proof -
  from links.reachable_holds [OF assms] obtain f where f: "db_stamps f (sh_db s)" and l: "linked s"
    by (auto simp: stamps_ok_def)
  have "\<not> linking Finished" by (simp add: linking_def)
  with f l show ?thesis unfolding db_stamps_def linked_def in_map_def in_order_def by (metis option.distinct(1))
qed

end
