(* ===== verification/DbLruSolo.thy ===== *)
theory DbLruSolo
  imports DbLruStamps
begin

text \<open>
  A thread that is not disturbed computes what the sequential functions of \<open>DbLru\<close> compute: the
  steps of \<open>thread_step\<close> from the call to the return add up to the call.
\<close>

section \<open>Undisturbed runs\<close>

definition solo :: "nat \<Rightarrow> shared \<Rightarrow> shared \<Rightarrow> bool" where
  "solo k = (\<lambda>s s'. thread_step k s = Some s')\<^sup>*\<^sup>*"

lemma solo_refl [simp]: "solo k s s"
  by (simp add: solo_def)

lemma solo_step: "thread_step k s = Some s' \<Longrightarrow> solo k s' s'' \<Longrightarrow> solo k s s''"
  unfolding solo_def by (rule converse_rtranclp_into_rtranclp)

lemma solo_trans [trans]: "solo k s s' \<Longrightarrow> solo k s' s'' \<Longrightarrow> solo k s s''"
  unfolding solo_def by (rule rtranclp_trans)

text \<open>The state in which one thread and the globals are given and everything else is as in \<open>s\<close>.\<close>

definition with_thread :: "nat \<Rightarrow> thread \<Rightarrow> db \<Rightarrow> shared \<Rightarrow> shared" where
  "with_thread k t w s = s\<lparr>sh_db := w, threads := (threads s)(k := t)\<rparr>"

definition mutexes_free :: "shared \<Rightarrow> bool" where
  "mutexes_free s \<longleftrightarrow> tsMutex s = (\<lambda>_. None) \<and> kvMutex s = (\<lambda>_. None)"

lemma solo_section:
  assumes "section_of t w = (t', w')" and "\<not> wants_order (th_at t)" "\<not> wants_map (th_at t)"
    and "th_at t \<noteq> Finished" "th_at t \<noteq> Crashed" and "\<not> frees_order (th_at t)" "\<not> frees_map (th_at t) w"
  shows "solo k (with_thread k t w s) (with_thread k t' w' s)"
  by (rule solo_step [of _ _ "with_thread k t' w' s"])
    (use assms in \<open>simp_all add: thread_step_def with_thread_def release_def Let_def\<close>)

lemma solo_order_section:
  assumes "mutexes_free s" and "th_at t \<in> {RoomLock, OverLock, LinkLock, MoveLock}"
    and "section_of (goto (locked_site (th_at t)) t) w = (t', w')"
  shows "solo k (with_thread k t w s) (with_thread k t' w' s)"
proof -
  let ?t = "goto (locked_site (th_at t)) t"
  let ?s = "(with_thread k ?t w s)\<lparr>tsMutex := (tsMutex s)(th_table t \<mapsto> k)\<rparr>"
  have "thread_step k (with_thread k t w s) = Some ?s"
    using assms(1,2) by (auto simp: thread_step_def with_thread_def wants_simps mutexes_free_def Let_def)
  moreover have "thread_step k ?s = Some (with_thread k t' w' s)"
    using assms by (auto simp: thread_step_def with_thread_def wants_simps mutexes_free_def release_def locked_site_def
        frees_order_def frees_map_def goto_def fun_eq_iff Let_def)
  ultimately show ?thesis by (blast intro: solo_step solo_refl)
qed

lemma solo_map_section:
  assumes "mutexes_free s" and "th_at t \<in> {StoreLock, LookLock}" and "\<not> badAlloc w"
    and "section_of (goto (locked_site (th_at t)) t) w = (t', w')"
  shows "solo k (with_thread k t w s) (with_thread k t' w' s)"
proof -
  let ?t = "goto (locked_site (th_at t)) t"
  let ?s = "(with_thread k ?t w s)\<lparr>kvMutex := (kvMutex s)(th_table t \<mapsto> k)\<rparr>"
  have "thread_step k (with_thread k t w s) = Some ?s"
    using assms(1,2) by (auto simp: thread_step_def with_thread_def wants_simps mutexes_free_def Let_def)
  moreover have "thread_step k ?s = Some (with_thread k t' w' s)"
    using assms by (auto simp: thread_step_def with_thread_def wants_simps mutexes_free_def release_def locked_site_def
        frees_order_def frees_map_def goto_def fun_eq_iff Let_def)
  ultimately show ?thesis by (blast intro: solo_step solo_refl)
qed

text \<open>\<open>removeLRUElement\<close>: the clock, two mutexes, the eviction, two releases.\<close>

lemma solo_lru:
  assumes "mutexes_free s" and "th_at t = LruClock" and "removeLRUElement (th_table t) w = Inr w'"
  shows "solo k (with_thread k t w s) (with_thread k (t\<lparr>th_lruCur := now w, th_at := Room\<rparr>) w' s)"
proof -
  let ?h = "th_table t" and ?t = "t\<lparr>th_lruCur := now w\<rparr>"
  let ?o = "\<lambda>u l. (with_thread k (?t\<lparr>th_at := l\<rparr>) u s)\<lparr>tsMutex := (tsMutex s)(?h \<mapsto> k)\<rparr>"
  let ?b = "\<lambda>u l. (?o u l)\<lparr>kvMutex := (kvMutex s)(?h \<mapsto> k)\<rparr>"
  note defs = thread_step_def with_thread_def wants_simps mutexes_free_def release_def locked_site_def section_of_def
    frees_order_def frees_map_def goto_def fun_eq_iff Let_def
  have lru: "lru_section (now w) ?h (tick w) = Inr w'" using assms(3) by (simp add: removeLRUElement_def)
  have "thread_step k (with_thread k t w s) = Some (with_thread k (?t\<lparr>th_at := LruOrder\<rparr>) (tick w) s)"
    "thread_step k (with_thread k (?t\<lparr>th_at := LruOrder\<rparr>) (tick w) s) = Some (?o (tick w) LruTable)"
    "thread_step k (?o (tick w) LruTable) = Some (?b (tick w) LruEvict)"
    "thread_step k (?b (tick w) LruEvict) = Some (?b w' LruDrop)"
    "thread_step k (?b w' LruDrop) = Some (?o w' LruLeave)"
    "thread_step k (?o w' LruLeave) = Some (with_thread k (?t\<lparr>th_at := Room\<rparr>) w' s)"
    using assms(1,2) by (auto simp: defs lru_evict_section_def lru)
  then show ?thesis by (meson solo_step solo_refl)
qed

section \<open>Making room\<close>

text \<open>What the loop leaves alone among the local variables.\<close>

definition same_request :: "thread \<Rightarrow> thread \<Rightarrow> bool" where
  "same_request t t' \<longleftrightarrow>
     th_call t' = th_call t \<and> th_cur t' = th_cur t \<and> th_timestamp t' = th_timestamp t \<and> th_vs t' = th_vs t \<and>
     th_out t' = th_out t"

lemma same_request_key: "same_request t t' \<Longrightarrow> th_key t' = th_key t \<and> key_table t' = key_table t \<and> need t' = need t"
  by (simp add: same_request_def th_key_def key_table_def need_def split: call.split)

lemma same_request_trans: "same_request t t' \<Longrightarrow> same_request t' t'' \<Longrightarrow> same_request t t''"
  by (simp add: same_request_def)

definition room_made :: "bool \<Rightarrow> thread \<Rightarrow> bool" where
  "room_made fits t \<longleftrightarrow>
     (if fits then th_at t = StoreLock \<and> th_table t = key_table t else th_at t = Finished \<and> th_ret t = MEMORY_FULL)"

definition makes_room :: "nat \<Rightarrow> shared \<Rightarrow> thread \<Rightarrow> db \<Rightarrow> bool \<Rightarrow> db \<Rightarrow> bool" where
  "makes_room k s t w fits w' \<longleftrightarrow>
     (\<exists>t'. solo k (with_thread k t w s) (with_thread k t' w' s) \<and> same_request t t' \<and> room_made fits t')"

lemma makes_room_trans:
  "solo k (with_thread k t w s) (with_thread k t1 w1 s) \<Longrightarrow> same_request t t1 \<Longrightarrow> makes_room k s t1 w1 fits w' \<Longrightarrow>
   makes_room k s t w fits w'"
  unfolding makes_room_def by (meson solo_trans same_request_trans)

lemma solo_room_test:
  assumes "mutexes_free s" and "th_at t = Room" and "\<not> gStoredSize w + need t < gServMemLimit w"
  shows "solo k (with_thread k t w s) (with_thread k (room_test_section (goto RoomTest t) w) w s)"
proof -
  have "solo k (with_thread k t w s) (with_thread k (goto RoomLock t) w s)"
    by (rule solo_section) (use assms in \<open>simp_all add: section_of_def room_section_def wants_simps frees_order_def
        frees_map_def\<close>)
  also have "solo k (with_thread k (goto RoomLock t) w s) (with_thread k (room_test_section (goto RoomTest t) w) w s)"
    by (rule solo_order_section) (use assms in \<open>simp_all add: section_of_def goto_def locked_site_def\<close>)
  finally show ?thesis .
qed

lemma makes_room_fits:
  assumes "th_at t = Room" and "gStoredSize w + need t < gServMemLimit w"
  shows "makes_room k s t w True w"
proof -
  let ?t = "t\<lparr>th_table := key_table t, th_at := StoreLock\<rparr>"
  have "solo k (with_thread k t w s) (with_thread k ?t w s)"
    by (rule solo_section) (use assms in \<open>simp_all add: section_of_def room_section_def wants_simps frees_order_def
        frees_map_def\<close>)
  moreover have "same_request t ?t" "room_made True ?t"
    by (simp_all add: same_request_def room_made_def key_table_def)
  ultimately show ?thesis unfolding makes_room_def by blast
qed

lemma makes_room_lru:
  assumes "mutexes_free s" and "th_at t = LruClock" and "removeLRUElement (th_table t) w = Inr w1"
    and "makes_room k s (t\<lparr>th_lruCur := now w, th_at := Room\<rparr>) w1 fits w'"
  shows "makes_room k s t w fits w'"
  by (rule makes_room_trans [OF solo_lru [OF assms(1-3)] _ assms(4)]) (simp add: same_request_def)

lemma solo_insert_loop:
  assumes "mutexes_free s" and "th_at t = Room" and "th_call t = CallInsert key flags casUniq val expiry"
    and "insertEvictLoop n (need t) (key_table t) (th_table t) w = Inr (fits, w')"
  shows "makes_room k s t w fits w'"
  using assms(2-4)
proof (induction n arbitrary: t w)
  case (Suc n)
  show ?case
  proof (cases "gStoredSize w + need t < gServMemLimit w")
    case True
    with Suc.prems makes_room_fits [OF Suc.prems(1) True] show ?thesis by simp
  next
    case False
    note test = solo_room_test [OF assms(1) Suc.prems(1) False, of k]
    show ?thesis
    proof (cases "gTimestampToKeySet w (th_table t) = []")
      case True
      let ?t = "room_test_section (goto RoomTest t) w"
      have t: "?t = (if key_table t = next_table (th_table t)
          then return MEMORY_FULL (t\<lparr>th_table := next_table (th_table t), th_at := RoomTest\<rparr>)
          else t\<lparr>th_table := next_table (th_table t), th_at := Room\<rparr>)"
        using True Suc.prems(2) by (simp add: room_test_section_def goto_def return_def key_table_def Let_def)
      have req: "same_request t ?t" unfolding t by (simp add: same_request_def return_def)
      show ?thesis
      proof (cases "key_table t = next_table (th_table t)")
        case full: True
        with True False Suc.prems(3) have "\<not> fits" "w' = w" by auto
        with test req full show ?thesis unfolding makes_room_def by (auto simp: t room_made_def return_def)
      next
        case next_one: False
        have "makes_room k s ?t w fits w'"
          by (rule Suc.IH) (use next_one Suc.prems True False in \<open>simp_all add: t need_def key_table_def th_key_def\<close>)
        with test req show ?thesis by (rule makes_room_trans)
      qed
    next
      case nonempty: False
      with False Suc.prems(3) obtain w1 where w1: "removeLRUElement (th_table t) w = Inr w1"
        and loop: "insertEvictLoop n (need t) (key_table t) (th_table t) w1 = Inr (fits, w')"
        by (cases "removeLRUElement (th_table t) w") (auto simp: rbind_def)
      have "makes_room k s (goto LruClock t) w fits w'"
        by (rule makes_room_lru [OF assms(1) _ _ Suc.IH])
          (use w1 loop Suc.prems in \<open>simp_all add: goto_def need_def key_table_def th_key_def\<close>)
      with test nonempty show ?thesis
        by (intro makes_room_trans [of _ t w s "goto LruClock t" w])
          (simp_all add: room_test_section_def goto_def same_request_def)
    qed
  qed
qed simp

lemma solo_add_loop:
  assumes "mutexes_free s" and "th_at t = Room" and "th_call t = CallAdd key flags casUniq val expiry"
    and "addEvictLoop n (need t) (key_table t) (th_table t) w = Inr (fits, w')"
  shows "makes_room k s t w fits w'"
  using assms(2-4)
proof (induction n arbitrary: t w)
  case (Suc n)
  show ?case
  proof (cases "gStoredSize w + need t < gServMemLimit w")
    case True
    with Suc.prems makes_room_fits [OF Suc.prems(1) True] show ?thesis by simp
  next
    case False
    note test = solo_room_test [OF assms(1) Suc.prems(1) False, of k]
    let ?empty = "gTimestampToKeySet w (th_table t) = []"
    let ?h = "if ?empty then next_table (th_table t) else th_table t" and ?t = "room_test_section (goto RoomTest t) w"
    have t: "?t = (if ?empty \<and> key_table t = ?h then return MEMORY_FULL (t\<lparr>th_table := ?h\<rparr>)
        else t\<lparr>th_table := ?h, th_at := LruClock\<rparr>)"
      using Suc.prems(2) by (simp add: room_test_section_def goto_def return_def key_table_def Let_def)
    have req: "same_request t ?t" unfolding t by (simp add: same_request_def return_def)
    show ?thesis
    proof (cases "?empty \<and> key_table t = ?h")
      case True
      with False Suc.prems(3) have "\<not> fits" "w' = w" by auto
      with test req True show ?thesis unfolding makes_room_def by (auto simp: t room_made_def return_def)
    next
      case other: False
      with False Suc.prems(3) obtain w1 where w1: "removeLRUElement ?h w = Inr w1"
        and loop: "addEvictLoop n (need t) (key_table t) ?h w1 = Inr (fits, w')"
        by (auto simp: Let_def rbind_eq_Inr split: if_splits)
      have "makes_room k s ?t w fits w'"
        by (rule makes_room_lru [OF assms(1) _ _ Suc.IH])
          (use other w1 loop Suc.prems in \<open>simp_all only: t, simp_all add: need_def key_table_def th_key_def\<close>)
      with test req show ?thesis by (rule makes_room_trans)
    qed
  qed
qed simp

section \<open>The rest of a function\<close>

definition finishes :: "nat \<Rightarrow> shared \<Rightarrow> thread \<Rightarrow> db \<Rightarrow> retStatus \<Rightarrow> GetOut \<Rightarrow> db \<Rightarrow> bool" where
  "finishes k s t w r out w' \<longleftrightarrow>
     (\<exists>t'. solo k (with_thread k t w s) (with_thread k t' w' s) \<and>
        th_at t' = Finished \<and> th_ret t' = r \<and> th_out t' = out)"

lemma finishes_trans:
  "solo k (with_thread k t w s) (with_thread k t1 w1 s) \<Longrightarrow> finishes k s t1 w1 r out w' \<Longrightarrow> finishes k s t w r out w'"
  unfolding finishes_def by (blast intro: solo_trans)

lemma finishes_done: "th_at t = Finished \<Longrightarrow> th_ret t = r \<Longrightarrow> th_out t = out \<Longrightarrow> finishes k s t w r out w"
  unfolding finishes_def by (blast intro: solo_refl)

lemma finishes_section:
  assumes "section_of t w = (t1, w1)" and "finishes k s t1 w1 r out w'" and "\<not> wants_order (th_at t)" "\<not> wants_map (th_at t)"
    and "th_at t \<noteq> Finished" "th_at t \<noteq> Crashed" and "\<not> frees_order (th_at t)" "\<not> frees_map (th_at t) w"
  shows "finishes k s t w r out w'"
  using finishes_trans [OF solo_section [OF assms(1,3-)] assms(2)] .

lemma finishes_order_section:
  assumes "mutexes_free s" and "th_at t \<in> {RoomLock, OverLock, LinkLock, MoveLock}"
    and "section_of (goto (locked_site (th_at t)) t) w = (t1, w1)" and "finishes k s t1 w1 r out w'"
  shows "finishes k s t w r out w'"
  using finishes_trans [OF solo_order_section [OF assms(1-3)] assms(4)] .

lemma finishes_map_section:
  assumes "mutexes_free s" and "th_at t \<in> {StoreLock, LookLock}" and "\<not> badAlloc w"
    and "section_of (goto (locked_site (th_at t)) t) w = (t1, w1)" and "finishes k s t1 w1 r out w'"
  shows "finishes k s t w r out w'"
  using finishes_trans [OF solo_map_section [OF assms(1-4)] assms(5)] .

lemmas site_simps = wants_simps frees_order_def frees_map_def locked_site_def section_of_def goto_def

lemma finishes_link:
  assumes "mutexes_free s" and "th_at t = LinkLock"
  shows "finishes k s t w SUCCESS (th_out t) (ts_update (th_table t) (ts_insert (new_entry t)) w)"
  by (rule finishes_order_section [OF assms(1)])
    (use assms in \<open>auto simp: site_simps return_def new_entry_def th_key_def intro: finishes_done\<close>)

lemma finishes_move:
  assumes "mutexes_free s" and "th_at t = MoveLock"
  shows "finishes k s t w SUCCESS (th_out t)
     (ts_update (th_table t) (\<lambda>s. ts_insert (new_entry t) (ts_erase (old_entry t) s)) w)"
  by (rule finishes_order_section [OF assms(1)])
    (use assms in \<open>auto simp: site_simps return_def new_entry_def old_entry_def th_key_def intro: finishes_done\<close>)

lemma finishes_new:
  assumes "mutexes_free s" and "th_at t = NewSize"
  shows "finishes k s t w SUCCESS (th_out t)
     (ts_update (th_table t) (ts_insert (new_entry t)) (stored_add (insert_need (th_key t) (th_vs t)) w))"
  by (rule finishes_section)
    (use assms finishes_link [OF assms(1), of "goto LinkLock t" k] in
      \<open>auto simp: site_simps new_entry_def\<close>)

lemma finishes_over:
  assumes "mutexes_free s" and "th_at t = OverLock"
  shows "finishes k s t w SUCCESS (th_out t)
     (ts_update (th_table t) (ts_insert (new_entry t))
       (stored_sub (th_size t) (ts_update (th_table t) (ts_erase (old_entry t)) w)))"
proof (rule finishes_order_section [OF assms(1)])
  let ?w = "ts_update (th_table t) (ts_erase (old_entry t)) w"
  show "section_of (goto (locked_site (th_at t)) t) w = (goto OverSize t, ?w)"
    using assms(2) by (simp add: site_simps old_entry_def th_key_def)
  show "finishes k s (goto OverSize t) ?w SUCCESS (th_out t)
     (ts_update (th_table t) (ts_insert (new_entry t)) (stored_sub (th_size t) ?w))"
    by (rule finishes_section)
      (use finishes_link [OF assms(1), of "goto LinkLock t" k] in \<open>auto simp: site_simps new_entry_def\<close>)
qed (use assms(2) in simp)

section \<open>Whole calls\<close>

lemma finishes_insert_commit:
  assumes "mutexes_free s" and "th_at t = StoreLock" and "th_table t = key_table t" and "\<not> badAlloc w"
    and "th_call t = CallInsert key flags casUniq val expiry"
    and "dbInsertCommit key casUniq expiry (th_cur t) (th_timestamp t) (th_vs t) w = (r, w')"
  shows "finishes k s t w r (th_out t) w'"
proof -
  obtain t1 w1 where sec: "insert_section casUniq expiry (goto Store t) w = (t1, w1)" by fastforce
  then have "section_of (goto (locked_site (th_at t)) t) w = (t1, w1)"
    using assms(2,4,5) by (simp add: site_simps store_section_def)
  moreover have "finishes k s t1 w1 r (th_out t) w'"
    using sec assms(3,5,6) finishes_over [OF assms(1), of t1 k w1] finishes_new [OF assms(1), of t1 k w1]
    by (auto simp: insert_section_def dbInsertCommit_def Let_def key_table_def th_key_def goto_def return_def
        new_entry_def old_entry_def size_diff_def intro: finishes_done split: option.splits if_splits)
  ultimately show ?thesis using finishes_map_section assms(1,2,4) by auto
qed

lemma finishes_add_commit:
  assumes "mutexes_free s" and "th_at t = StoreLock" and "th_table t = key_table t" and "\<not> badAlloc w"
    and "th_call t = CallAdd key flags casUniq val expiry"
    and "dbAddCommit key expiry (th_cur t) (th_timestamp t) (th_vs t) w = (r, w')"
  shows "finishes k s t w r (th_out t) w'"
proof -
  obtain t1 w1 where sec: "add_section expiry (goto Store t) w = (t1, w1)" by fastforce
  then have "section_of (goto (locked_site (th_at t)) t) w = (t1, w1)"
    using assms(2,4,5) by (simp add: site_simps store_section_def)
  moreover have "finishes k s t1 w1 r (th_out t) w'"
    using sec assms(3,5,6) finishes_move [OF assms(1), of t1 k w1] finishes_new [OF assms(1), of t1 k w1]
    by (auto simp: add_section_def dbAddCommit_def Let_def key_table_def th_key_def goto_def return_def
        new_entry_def old_entry_def intro: finishes_done split: option.splits if_splits)
  ultimately show ?thesis using finishes_map_section assms(1,2,4) by auto
qed

text \<open>What a call returns when it runs alone: the functions of \<open>DbLru\<close>.\<close>

fun run_call :: "call \<Rightarrow> retStatus \<Rightarrow> GetOut \<Rightarrow> db \<Rightarrow> (retStatus \<times> GetOut \<times> db) result" where
  "run_call (CallInsert key flags casUniq val expiry) r out w =
     rbind (dbInsertElement key flags casUniq val expiry w) (\<lambda>(r, w). Inr (r, out, w))"
| "run_call (CallAdd key flags casUniq val expiry) r out w =
     rbind (dbAddElement key flags casUniq val expiry w) (\<lambda>(r, w). Inr (r, out, w))"
| "run_call (CallDelete key expiry) r out w = (let (r, w) = dbDeleteElement key expiry w in Inr (r, out, w))"
| "run_call (CallGet key) r out w = Inr (dbGetElement key out w)"
| "run_call (CallSetFlush expiry) r out w = Inr (r, out, dbSetFlushAll expiry w)"
| "run_call CallHandleFlush r out w = Inr (r, out, dbHandleFlushAll w)"

lemma finishes_look:
  assumes "mutexes_free s" and "th_at t = LookLock" and "\<not> badAlloc w"
    and "look_section (goto Look t) w = (t1, w1)" and "finishes k s t1 w1 r out w'"
  shows "finishes k s t w r out w'"
  by (rule finishes_map_section [OF assms(1) _ assms(3) _ assms(5)]) (use assms(2,4) in \<open>simp_all add: site_simps\<close>)

lemma finishes_clock:
  assumes "th_at t = Clock" and "clock_section t w = (t1, w1)" and "finishes k s t1 w1 r out w'"
  shows "finishes k s t w r out w'"
  by (rule finishes_section [OF _ assms(3)]) (use assms(1,2) in \<open>simp_all add: site_simps\<close>)

lemma finishes_stamp:
  assumes "th_at t = Stamp" and "stamp_section t w = (t1, w1)" and "finishes k s t1 w1 r out w'"
  shows "finishes k s t w r out w'"
  by (rule finishes_section [OF _ assms(3)]) (use assms(1,2) in \<open>simp_all add: site_simps\<close>)

lemma finishes_delete:
  assumes "mutexes_free s" and "th_at t = Clock" and "\<not> badAlloc w" and "th_call t = CallDelete key expiry"
    and "dbDeleteElement key expiry w = (r, w')"
  shows "finishes k s t w r (th_out t) w'"
proof -
  let ?t = "t\<lparr>th_cur := now w, th_table := key_table t, th_at := LookLock\<rparr>"
  obtain t1 w1 where sec: "look_section (goto Look ?t) (tick w) = (t1, w1)" by fastforce
  then have "finishes k s t1 w1 r (th_out t) w'"
    using assms(4,5) by (auto simp: look_section_def delete_section_def dbDeleteElement_def Let_def key_table_def th_key_def
        goto_def return_def intro: finishes_done split: option.splits if_splits)
  then have f: "finishes k s ?t (tick w) r (th_out t) w'"
    using assms(1,3) by (intro finishes_look [OF _ _ _ sec]) (simp_all add: tick_def)
  show ?thesis by (rule finishes_clock [OF assms(2) _ f]) (simp add: clock_section_def after_clock_def assms(4))
qed

lemma finishes_get:
  assumes "mutexes_free s" and "th_at t = Clock" and "\<not> badAlloc w" and "th_call t = CallGet key"
    and "dbGetElement key (th_out t) w = (r, out, w')"
  shows "finishes k s t w r out w'"
proof -
  let ?t = "t\<lparr>th_cur := now w, th_table := key_table t, th_timestamp := gTimestamp w, th_at := LookLock\<rparr>"
  let ?w = "(tick w)\<lparr>gTimestamp := gTimestamp w + 1\<rparr>"
  obtain t1 w1 where sec: "look_section (goto Look ?t) ?w = (t1, w1)" by fastforce
  then have "finishes k s t1 w1 r out w'"
    using assms(4,5) finishes_move [OF assms(1), of t1 k w1]
    by (auto simp: look_section_def get_section_def dbGetElement_def Let_def key_table_def th_key_def
        goto_def return_def new_entry_def old_entry_def intro: finishes_done split: option.splits if_splits)
  then have look: "finishes k s ?t ?w r out w'"
    using assms(1,3) by (intro finishes_look [OF _ _ _ sec]) (simp_all add: tick_def)
  have "finishes k s (t\<lparr>th_cur := now w, th_table := key_table t, th_at := Stamp\<rparr>) (tick w) r out w'"
    by (rule finishes_stamp [OF _ _ look]) (simp_all add: stamp_section_def assms(4))
  then show ?thesis
    by (rule finishes_clock [OF assms(2), rotated]) (simp add: clock_section_def after_clock_def assms(4))
qed

lemma finishes_generate:
  assumes "th_at t = Generate" and "generate_section t w = (t1, w1)" and "finishes k s t1 w1 r out w'"
  shows "finishes k s t w r out w'"
  by (rule finishes_section [OF _ assms(3)]) (use assms(1,2) in \<open>simp_all add: site_simps\<close>)

text \<open>The head of a storing function, up to the loop that makes room.\<close>

lemma finishes_storing:
  assumes "th_at t = Clock" and "th_call t = CallInsert key flags casUniq val expiry \<or> th_call t = CallAdd key flags casUniq val expiry"
    and "generate_section (t\<lparr>th_cur := now w, th_table := key_table t, th_timestamp := gTimestamp w, th_at := Generate\<rparr>)
       ((tick w)\<lparr>gTimestamp := gTimestamp w + 1\<rparr>) = (t1, w1)"
    and "finishes k s t1 w1 r out w'"
  shows "finishes k s t w r out w'"
proof -
  let ?t = "t\<lparr>th_cur := now w, th_table := key_table t, th_at := Stamp\<rparr>"
  have "finishes k s (?t\<lparr>th_timestamp := gTimestamp w, th_at := Generate\<rparr>) ((tick w)\<lparr>gTimestamp := gTimestamp w + 1\<rparr>)
      r out w'"
    by (rule finishes_generate [OF _ _ assms(4)]) (use assms(3) in simp_all)
  then have "finishes k s ?t (tick w) r out w'"
    by (rule finishes_stamp [rotated 2]) (use assms(2) in \<open>auto simp: stamp_section_def\<close>)
  then show ?thesis
    by (rule finishes_clock [OF assms(1), rotated]) (use assms(2) in \<open>auto simp: clock_section_def after_clock_def\<close>)
qed

lemma finishes_room:
  assumes "makes_room k s t w fits w1" and "\<not> fits \<Longrightarrow> r = MEMORY_FULL \<and> w' = w1"
    and "\<And>t'. fits \<Longrightarrow> same_request t t' \<Longrightarrow> room_made True t' \<Longrightarrow> finishes k s t' w1 r (th_out t) w'"
  shows "finishes k s t w r (th_out t) w'"
proof -
  obtain t' where run: "solo k (with_thread k t w s) (with_thread k t' w1 s)"
    and t': "same_request t t'" "room_made fits t'"
    using assms(1) by (auto simp: makes_room_def)
  have "finishes k s t' w1 r (th_out t) w'"
    using assms(2,3) t' by (cases fits) (auto simp: room_made_def same_request_def intro: finishes_done)
  with run show ?thesis by (rule finishes_trans)
qed

lemma finishes_insert:
  assumes free: "mutexes_free s" and "th_at t = Clock" and bad: "\<not> badAlloc w"
    and call: "th_call t = CallInsert key flags casUniq val expiry"
    and run: "dbInsertElement key flags casUniq val expiry w = Inr (r, w')"
  shows "finishes k s t w r (th_out t) w'"
proof -
  let ?w = "(tick w)\<lparr>gTimestamp := gTimestamp w + 1\<rparr>" and ?h = "getHashTblNbrFromKey key"
  obtain cas w1 where cas: "insertCas (now w) ?w = (cas, w1)" by fastforce
  define vs where "vs = \<lparr>vs_expiry = expiry_of (now w) expiry, vs_value = val, vs_flags = flags, vs_casUniq = cas\<rparr>"
  let ?t = "t\<lparr>th_cur := now w, th_table := ?h, th_timestamp := gTimestamp w, th_vs := vs, th_at := Room\<rparr>"
  have t: "key_table ?t = ?h" "need ?t = insert_need key vs" "th_key ?t = key"
    using call by (simp_all add: key_table_def th_key_def need_def)
  from run cas obtain fits w2 where loop: "insertEvictLoop (evict_fuel w1) (insert_need key vs) ?h ?h w1 = Inr (fits, w2)"
    and rest: "(if \<not> fits \<or> badAlloc w2 then (MEMORY_FULL, w2)
       else dbInsertCommit key casUniq expiry (now w) (gTimestamp w) vs w2) = (r, w')"
    by (auto simp: dbInsertElement_def Let_def rbind_eq_Inr vs_def split: if_splits)
  have "badAlloc w1 = badAlloc w" using cas by (auto simp: insertCas_def tick_def Let_def split: prod.splits)
  then have bad2: "\<not> badAlloc w2" using bad insertEvictLoop_keeps [OF loop] by (simp add: evicts_def shrinks_def)
  have "makes_room k s ?t w1 fits w2"
    by (rule solo_insert_loop [OF free]) (use loop call in \<open>simp_all add: t\<close>)
  then have "finishes k s ?t w1 r (th_out ?t) w'"
  proof (rule finishes_room)
    fix t' assume "fits" and req: "same_request ?t t'" and "room_made True t'"
    with rest bad2 call same_request_key [OF req] show "finishes k s t' w2 r (th_out ?t) w'"
      using finishes_insert_commit [OF free, of t' w2 key flags casUniq val expiry r w' k]
      by (simp add: room_made_def same_request_def)
  qed (use rest in auto)
  then have "finishes k s ?t w1 r (th_out t) w'" by simp
  then show ?thesis
    by (rule finishes_storing [OF assms(2) disjI1 [OF call], rotated])
      (use call cas in \<open>simp add: generate_section_def key_table_def th_key_def vs_def\<close>)
qed

lemma finishes_add:
  assumes free: "mutexes_free s" and "th_at t = Clock" and bad: "\<not> badAlloc w"
    and call: "th_call t = CallAdd key flags casUniq val expiry"
    and run: "dbAddElement key flags casUniq val expiry w = Inr (r, w')"
  shows "finishes k s t w r (th_out t) w'"
proof -
  let ?w = "(tick w)\<lparr>gTimestamp := gTimestamp w + 1\<rparr>" and ?h = "getHashTblNbrFromKey key"
  define vs where "vs = \<lparr>vs_expiry = expiry_of (now w) expiry, vs_value = val, vs_flags = flags, vs_casUniq = addCas (now w)\<rparr>"
  let ?t = "t\<lparr>th_cur := now w, th_table := ?h, th_timestamp := gTimestamp w, th_vs := vs, th_at := Room\<rparr>"
  have t: "key_table ?t = ?h" "need ?t = add_need key vs" "th_key ?t = key"
    using call by (simp_all add: key_table_def th_key_def need_def)
  from run obtain fits w2 where loop: "addEvictLoop (evict_fuel ?w) (add_need key vs) ?h ?h ?w = Inr (fits, w2)"
    and rest: "(if \<not> fits \<or> badAlloc w2 then (MEMORY_FULL, w2)
       else dbAddCommit key expiry (now w) (gTimestamp w) vs w2) = (r, w')"
    by (auto simp: dbAddElement_def Let_def rbind_eq_Inr vs_def split: if_splits)
  have bad2: "\<not> badAlloc w2"
    using bad addEvictLoop_keeps [OF loop] by (simp add: evicts_def shrinks_def tick_def)
  have "makes_room k s ?t ?w fits w2"
    by (rule solo_add_loop [OF free]) (use loop call in \<open>simp_all add: t\<close>)
  then have "finishes k s ?t ?w r (th_out ?t) w'"
  proof (rule finishes_room)
    fix t' assume "fits" and req: "same_request ?t t'" and "room_made True t'"
    with rest bad2 call same_request_key [OF req] show "finishes k s t' w2 r (th_out ?t) w'"
      using finishes_add_commit [OF free, of t' w2 key flags casUniq val expiry r w' k]
      by (simp add: room_made_def same_request_def)
  qed (use rest in auto)
  then have "finishes k s ?t ?w r (th_out t) w'" by simp
  then show ?thesis
    by (rule finishes_storing [OF assms(2) disjI2 [OF call], rotated])
      (use call in \<open>simp add: generate_section_def key_table_def th_key_def vs_def\<close>)
qed

lemma finishes_flush_site:
  assumes "th_at t \<in> {SetFlag, SetClock, SetTime, FlushTest, FlushClock, FlushDue, FlushStamp, FlushMark, FlushClear}"
    and "finishes k s (fst (section_of t w)) (snd (section_of t w)) r out w'"
  shows "finishes k s t w r out w'"
  by (rule finishes_section [OF surjective_pairing assms(2)])
    (use assms(1) in \<open>auto simp: wants_simps frees_order_def frees_map_def\<close>)

lemmas flush_simps = section_of_def set_flush_section_def handle_flush_section_def goto_def

lemma finishes_set_flush:
  assumes "th_at t = SetFlag" and "th_call t = CallSetFlush expiry"
  shows "finishes k s t w (th_ret t) (th_out t) (dbSetFlushAll expiry w)"
proof -
  let ?t = "t\<lparr>th_cur := now w, th_at := SetTime\<rparr>" and ?w = "w\<lparr>gIsFlushAllSet := True\<rparr>"
  have w': "dbSetFlushAll expiry w = (tick ?w)\<lparr>gFlushAllTime := now w + expiry\<rparr>"
    by (simp add: dbSetFlushAll_def tick_def)
  have "finishes k s ?t (tick ?w) (th_ret t) (th_out t) (dbSetFlushAll expiry w)"
    unfolding w' by (rule finishes_flush_site) (simp_all add: flush_simps flush_delay_def finishes_done assms(2))
  then have "finishes k s (goto SetClock t) ?w (th_ret t) (th_out t) (dbSetFlushAll expiry w)"
    by (intro finishes_flush_site [of "goto SetClock t"]) (simp_all add: flush_simps now_def)
  then show ?thesis using assms(1) by (intro finishes_flush_site [of t]) (simp_all add: flush_simps)
qed

lemma finishes_handle_flush:
  assumes "th_at t = FlushTest"
  shows "finishes k s t w (th_ret t) (th_out t) (dbHandleFlushAll w)"
proof -
  let ?t = "\<lambda>l. t\<lparr>th_cur := now w, th_at := l\<rparr>" and ?T = "gTimestamp w + 1"
  let ?u = "\<lambda>l. t\<lparr>th_cur := now w, th_timestamp := ?T, th_at := l\<rparr>"
  let ?w = "(tick w)\<lparr>gTimestamp := ?T, gFlushAllTimestamp := ?T\<rparr>"
  have "finishes k s (?u FlushClear) ?w (th_ret t) (th_out t) (?w\<lparr>gIsFlushAllSet := False\<rparr>)"
    by (rule finishes_flush_site) (simp_all add: flush_simps finishes_done)
  then have "finishes k s (?u FlushMark) ((tick w)\<lparr>gTimestamp := ?T\<rparr>) (th_ret t) (th_out t) (?w\<lparr>gIsFlushAllSet := False\<rparr>)"
    by (intro finishes_flush_site [of "?u FlushMark"]) (simp_all add: flush_simps)
  then have "finishes k s (?t FlushStamp) (tick w) (th_ret t) (th_out t) (?w\<lparr>gIsFlushAllSet := False\<rparr>)"
    by (intro finishes_flush_site [of "?t FlushStamp"]) (simp_all add: flush_simps)
  then have "finishes k s (?t FlushDue) (tick w) (th_ret t) (th_out t)
     (if gFlushAllTime w \<le> now w then ?w\<lparr>gIsFlushAllSet := False\<rparr> else tick w)"
    by (intro finishes_flush_site [of "?t FlushDue"]) (auto simp: flush_simps tick_def intro: finishes_done)
  then have "finishes k s (goto FlushClock t) w (th_ret t) (th_out t)
     (if gFlushAllTime w \<le> now w then ?w\<lparr>gIsFlushAllSet := False\<rparr> else tick w)"
    by (intro finishes_flush_site [of "goto FlushClock t"]) (simp_all add: flush_simps)
  then show ?thesis
    using assms by (intro finishes_flush_site [of t])
      (auto simp: flush_simps dbHandleFlushAll_def tick_def Let_def intro: finishes_done)
qed

text \<open>
  C9. A thread that runs undisturbed, in a storage nobody else is using and with memory to spare,
  does what the sequential function does: from the call to the return its steps change the
  storage as \<open>dbInsertElement\<close>, \<open>dbAddElement\<close>, \<open>dbDeleteElement\<close>, \<open>dbGetElement\<close>,
  \<open>dbSetFlushAll\<close> or \<open>dbHandleFlushAll\<close> does, with the same status and the same output
  parameters, and all mutexes are free again.
\<close>

theorem thread_refines_call:
  assumes "th_at (threads s k) = Finished" and "mutexes_free s" and "\<not> badAlloc (sh_db s)"
    and "run_call c (th_ret (threads s k)) (th_out (threads s k)) (sh_db s) = Inr (r, out, w')"
  shows "\<exists>s'. solo k (begin_call k c s) s' \<and> sh_db s' = w' \<and> mutexes_free s' \<and>
     th_at (threads s' k) = Finished \<and> th_ret (threads s' k) = r \<and> th_out (threads s' k) = out \<and>
     (\<forall>j. j \<noteq> k \<longrightarrow> threads s' j = threads s j)"
proof -
  let ?t = "(threads s k)\<lparr>th_call := c, th_at := entry_site c\<rparr>"
  have "finishes k s ?t (sh_db s) r out w'"
    using assms finishes_insert [of s ?t "sh_db s"] finishes_add [of s ?t "sh_db s"] finishes_delete [of s ?t "sh_db s"]
      finishes_get [of s ?t "sh_db s"] finishes_set_flush [of ?t _ k s "sh_db s"] finishes_handle_flush [of ?t k s "sh_db s"]
    by (cases c) (auto simp: entry_site_def rbind_eq_Inr Let_def split: prod.splits)
  then obtain t' where "solo k (with_thread k ?t (sh_db s) s) (with_thread k t' w' s)"
    "th_at t' = Finished" "th_ret t' = r" "th_out t' = out" by (auto simp: finishes_def)
  moreover have "with_thread k ?t (sh_db s) s = begin_call k c s" by (simp add: with_thread_def begin_call_def)
  ultimately show ?thesis
    using assms(2) by (intro exI [of _ "with_thread k t' w' s"]) (simp add: with_thread_def mutexes_free_def)
qed

end
