(* ===== verification/DbLruRaces.thy ===== *)
theory DbLruRaces
  imports DbLruSolo
begin

text \<open>
  What the mutexes of \<open>dblru.cpp\<close> do not prevent: a function that returns with a mutex held when
  memory runs out, a delayed \<open>flush_all\<close> that takes effect at once when another command comes in
  between its two assignments, and two threads in the shared generator at the same time.
\<close>

section \<open>A mutex that is never released\<close>

definition leaked :: "shared \<Rightarrow> uint \<Rightarrow> nat \<Rightarrow> bool" where
  "leaked s h k \<longleftrightarrow>
     kvMutex s h = Some k \<and> \<not> (holds_map (th_at (threads s k)) \<and> th_table (threads s k) = h) \<and> (\<forall>j. owns s j)"

lemma leaked_thread_step:
  assumes "leaked s h k" and step: "thread_step j s = Some s'"
  shows "leaked s' h k"
proof -
  from assms have owns: "\<forall>i. owns s i" by (simp add: leaked_def)
  from step have "kvMutex s' h = Some k \<and> \<not> (holds_map (th_at (threads s' k)) \<and> th_table (threads s' k) = h)"
  proof (cases rule: thread_step_cases)
    case order
    with assms(1) locked_site_holds(1) [OF order(1)] show ?thesis by (auto simp: leaked_def goto_def)
  next
    case map
    with assms(1) show ?thesis by (auto simp: leaked_def goto_def)
  next
    case (body t' w')
    have "\<not> (frees_map (th_at (threads s j)) (sh_db s) \<and> th_table (threads s j) = h)"
      using owns assms(1) frees_holds(2) [of "th_at (threads s j)" "sh_db s"] by (auto simp: leaked_def owns_def)
    moreover have "\<not> (holds_map (th_at (threads s' k)) \<and> th_table (threads s' k) = h)"
      using assms(1) section_keeps_locks(2) [OF body(5,1-4)] body(6) by (auto simp: leaked_def)
    ultimately show ?thesis using assms(1) body(6) by (auto simp: leaked_def release_def)
  qed
  with owns_step [OF owns step] show ?thesis by (simp add: leaked_def)
qed

lemma leaked_step: "leaked s h k \<Longrightarrow> db_step bad s s' \<Longrightarrow> leaked s' h k"
proof (erule db_stepE)
  fix j c assume "leaked s h k" and "s' = begin_call j c s" and "th_at (threads s j) = Finished"
  then show "leaked s' h k" by (auto simp: leaked_def begin_call_def owns_def)
next
  fix b assume "leaked s h k" and "s' = s\<lparr>sh_db := (sh_db s)\<lparr>badAlloc := b\<rparr>\<rparr>"
  then show "leaked s' h k" by (simp add: leaked_def owns_def)
qed (use leaked_thread_step in blast)

lemma leaked_forever: "(db_step bad)\<^sup>*\<^sup>* s s' \<Longrightarrow> leaked s h k \<Longrightarrow> leaked s' h k"
  by (induction rule: rtranclp_induct) (auto intro: leaked_step)

lemma leaked_blocks:
  "leaked s h k \<Longrightarrow> wants_map (th_at (threads s j)) \<Longrightarrow> th_table (threads s j) = h \<Longrightarrow> thread_step j s = None"
  by (auto simp: leaked_def thread_step_def wants_simps Let_def)

text \<open>
  C33. When \<open>emplace\<close> throws \<open>bad_alloc\<close>, the storing function returns with the mutex of the hash
  map held, and nobody ever releases it: in every later state each thread that needs this hash
  map waits, for ever.
\<close>

theorem bad_alloc_keeps_mutex:
  assumes "db_reachable bad s" and "th_at (threads s k) = Store" and "badAlloc (sh_db s)"
    and "thread_step k s = Some s'" and "(db_step bad)\<^sup>*\<^sup>* s' s''"
  shows "th_at (threads s' k) = Finished \<and> th_ret (threads s' k) = MEMORY_FULL \<and>
     kvMutex s'' (th_table (threads s k)) = Some k \<and>
     (\<forall>j. wants_map (th_at (threads s'' j)) \<and> th_table (threads s'' j) = th_table (threads s k) \<longrightarrow>
        thread_step j s'' = None)"
proof -
  have owns: "\<forall>j. owns s j" using mutex.reachable_holds [OF assms(1)] .
  then have "kvMutex s (th_table (threads s k)) = Some k" using assms(2) by (auto simp: owns_def holds_site_simps)
  moreover have returned: "s' = s\<lparr>threads := (threads s)(k := return MEMORY_FULL (threads s k))\<rparr>"
    using assms(2-4) by (auto simp: thread_step_def section_of_def store_section_def wants_simps frees_order_def
        frees_map_def release_def Let_def)
  ultimately have "leaked s' (th_table (threads s k)) k"
    using owns_step [OF owns assms(4)] by (simp add: leaked_def return_def)
  then have "leaked s'' (th_table (threads s k)) k" by (rule leaked_forever [OF assms(5)])
  then show ?thesis using returned leaked_blocks by (auto simp: leaked_def return_def)
qed

section \<open>A delayed flush that comes at once\<close>

lemma solo_db_steps: "solo k s s' \<Longrightarrow> (db_step bad)\<^sup>*\<^sup>* s s'"
  unfolding solo_def
  by (induction rule: rtranclp_induct) (auto intro: db_step.run rtranclp.rtrancl_into_rtrancl)

lemma finishes_db_steps:
  "finishes k s t w r out w' \<Longrightarrow> \<exists>t'. (db_step bad)\<^sup>*\<^sup>* (with_thread k t w s) (with_thread k t' w' s) \<and> th_at t' = Finished"
  unfolding finishes_def using solo_db_steps by blast

lemma begin_with_thread:
  "begin_call k c s = with_thread k ((threads s k)\<lparr>th_call := c, th_at := entry_site c\<rparr>) (sh_db s) s"
  by (simp add: begin_call_def with_thread_def)

text \<open>
  C32. A delayed \<open>flush_all\<close> races with any other command: \<open>dbSetFlushAll\<close> raises the flag before
  it writes the time, so a command that comes in between finds the flag with an old time, flushes
  everything at once and takes the flag down; the flush that was asked for never comes.
\<close>

theorem flush_all_race:
  assumes "th_at (threads s i) = Finished" and "th_at (threads s j) = Finished" and "i \<noteq> j"
    and "gFlushAllTime (sh_db s) \<le> now (sh_db s)"
  shows "\<exists>s'. (db_step bad)\<^sup>*\<^sup>* s s' \<and> th_at (threads s' i) = Finished \<and> th_at (threads s' j) = Finished \<and>
     gFlushAllTimestamp (sh_db s') = gTimestamp (sh_db s) + 1 \<and> \<not> gIsFlushAllSet (sh_db s') \<and>
     gFlushAllTime (sh_db s') = sysClock (sh_db s) (Suc (clockReads (sh_db s))) + delay"
proof -
  let ?w = "sh_db s" and ?c = "CallSetFlush delay"
  let ?ti = "(threads s i)\<lparr>th_call := ?c, th_at := SetFlag\<rparr>" and ?w1 = "(sh_db s)\<lparr>gIsFlushAllSet := True\<rparr>"
  let ?s1 = "with_thread i (goto SetClock ?ti) ?w1 s"
  let ?tj = "(threads s j)\<lparr>th_call := CallHandleFlush, th_at := FlushTest\<rparr>"
  let ?w2 = "dbHandleFlushAll ?w1" and ?u = "\<lambda>l. ?ti\<lparr>th_cur := now (dbHandleFlushAll ?w1), th_at := l\<rparr>"
  let ?w3 = "(tick ?w2)\<lparr>gFlushAllTime := now ?w2 + delay\<rparr>"
  have w2: "?w2 = ((tick ?w1)\<lparr>gTimestamp := gTimestamp ?w + 1, gFlushAllTimestamp := gTimestamp ?w + 1,
      gIsFlushAllSet := False\<rparr>)"
    using assms(4) by (simp add: dbHandleFlushAll_def now_def tick_def Let_def)
  have "db_step bad s (begin_call i ?c s)" using assms(1) by (rule db_step.call)
  moreover have "db_step bad (begin_call i ?c s) ?s1"
    by (rule db_step.run [of i]) (simp add: begin_with_thread entry_site_def thread_step_def with_thread_def wants_simps
        frees_order_def frees_map_def release_def flush_simps Let_def)
  moreover have "db_step bad ?s1 (with_thread j ?tj ?w1 ?s1)"
    using db_step.call [of ?s1 j bad CallHandleFlush] assms(2,3)
    by (simp add: begin_with_thread entry_site_def with_thread_def)
  ultimately have a: "(db_step bad)\<^sup>*\<^sup>* s (with_thread j ?tj ?w1 ?s1)"
    by (meson r_into_rtranclp rtranclp_trans)
  obtain t' where b: "(db_step bad)\<^sup>*\<^sup>* (with_thread j ?tj ?w1 ?s1) (with_thread j t' ?w2 ?s1)" and t': "th_at t' = Finished"
    using finishes_db_steps [OF finishes_handle_flush [of ?tj j ?s1 ?w1]] by auto
  let ?s2 = "with_thread j t' ?w2 ?s1"
  have c: "(db_step bad)\<^sup>*\<^sup>* ?s2 (with_thread i (?u Finished) ?w3 ?s2)"
  proof -
    have "thread_step i ?s2 = Some (with_thread i (?u SetTime) (tick ?w2) ?s2)"
      "thread_step i (with_thread i (?u SetTime) (tick ?w2) ?s2) = Some (with_thread i (?u Finished) ?w3 ?s2)"
      using assms(3) by (auto simp: thread_step_def with_thread_def wants_simps frees_order_def frees_map_def
          release_def flush_simps flush_delay_def fun_upd_twist Let_def)
    then show ?thesis by (meson db_step.run r_into_rtranclp rtranclp_trans)
  qed
  from a b c have "(db_step bad)\<^sup>*\<^sup>* s (with_thread i (?u Finished) ?w3 ?s2)" by (meson rtranclp_trans)
  then show ?thesis
    by (rule exI [of _ "with_thread i (?u Finished) ?w3 ?s2", OF conjI])
      (use t' assms(3) in \<open>simp add: with_thread_def w2 now_def tick_def\<close>)
qed

end
