(* ===== verification/DbLruThreadsExamples.thy ===== *)
theory DbLruThreadsExamples
  imports DbLruRaces
begin

text \<open>Concrete executions of several threads, and the theorems on them applied there.\<close>

definition idle_thread :: thread where
  "idle_thread =
     \<lparr>th_call = CallHandleFlush, th_at = Finished, th_cur = 0, th_lruCur = 0, th_timestamp = 0,
      th_vs = \<lparr>vs_expiry = 0, vs_value = [], vs_flags = [], vs_casUniq = []\<rparr>, th_table = 0, th_old = 0, th_size = 0,
      th_out = \<lparr>go_flags = [], go_cas = [], go_value = [], go_expiry = 0\<rparr>, th_ret = SUCCESS\<rparr>"

definition idle_server :: shared where
  "idle_server =
     \<lparr>sh_db = initial_db (\<lambda>_. 100), tsMutex = (\<lambda>_. None), kvMutex = (\<lambda>_. None), threads = (\<lambda>_. idle_thread)\<rparr>"

lemma idle_started: "started idle_server"
  unfolding started_def
  by (auto simp: idle_server_def idle_thread_def initial_db_def intro!: exI [of _ "\<lambda>_. 100"] exI [of _ SERV_DEF_MEM_LIMIT])

lemma idle_simps [simp]:
  "th_at (threads idle_server k) = Finished" "mutexes_free idle_server" "\<not> badAlloc (sh_db idle_server)"
  "sh_db idle_server = initial_db (\<lambda>_. 100)"
  by (simp_all add: idle_server_def idle_thread_def mutexes_free_def initial_db_def)

definition getting_server :: shared where
  "getting_server = begin_call 0 (CallGet ''a'') idle_server"

lemma begun_reachable: "db_reachable bad (begin_call 0 c idle_server)"
  by (rule db_reachable.step [OF db_reachable.start [OF idle_started] db_step.call]) (simp_all add: begin_call_def)

lemma getting_reachable: "db_reachable bad getting_server"
  unfolding getting_server_def by (rule begun_reachable)

lemma getting_sites: "th_at (threads getting_server k) = (if k = 0 then Clock else Finished)"
  by (simp add: getting_server_def begin_call_def entry_site_def)

theorem db_no_deadlock_witness:
  "th_at (threads getting_server 0) \<noteq> Finished \<and> (\<exists>j s'. thread_step j getting_server = Some s')"
  using db_no_deadlock [OF getting_reachable, of 0] getting_sites by simp

theorem db_race_free_witness:
  "tsMutex getting_server 3 \<noteq> Some 0 \<and>
   thread_step 0 (getting_server\<lparr>sh_db := put_order 3 [\<lparr>tk_timestamp = 0, tk_key = ''b''\<rparr>] (sh_db getting_server)\<rparr>) =
     map_option (\<lambda>s'. s'\<lparr>sh_db := put_order 3 [\<lparr>tk_timestamp = 0, tk_key = ''b''\<rparr>] (sh_db s')\<rparr>)
       (thread_step 0 getting_server)"
proof -
  have "tsMutex getting_server 3 \<noteq> Some 0" by (simp add: getting_server_def begin_call_def idle_server_def)
  then show ?thesis using db_race_free [OF getting_reachable] by blast
qed

theorem thread_refines_call_witness:
  "\<exists>s'. solo 0 (begin_call 0 (CallSetFlush 5) idle_server) s' \<and> sh_db s' = dbSetFlushAll 5 (initial_db (\<lambda>_. 100))"
  using thread_refines_call [OF idle_simps(1) [of 0] idle_simps(2,3), of "CallSetFlush 5", OF run_call.simps(5)]
  by auto

theorem flush_all_race_witness:
  "\<exists>s'. (db_step False)\<^sup>*\<^sup>* idle_server s' \<and> gFlushAllTimestamp (sh_db s') = 1 \<and> \<not> gIsFlushAllSet (sh_db s') \<and>
     gFlushAllTime (sh_db s') = 160"
  using flush_all_race [of idle_server 0 1 False 60] by (auto simp: initial_db_def now_def)

section \<open>A storage that runs out of memory\<close>

definition adding :: "site \<Rightarrow> thread" where
  "adding l =
     idle_thread\<lparr>th_call := CallAdd ''a'' ''0'' [] ''x'' 0, th_cur := 100, th_table := getHashTblNbrFromKey ''a'',
       th_timestamp := 0,
       th_vs := \<lparr>vs_expiry = ULONG_MAX, vs_value = ''x'', vs_flags = ''0'', vs_casUniq = addCas 100\<rparr>, th_at := l\<rparr>"

lemma reachable_section:
  assumes "db_reachable bad (with_thread k t w s)" and "section_of t w = (t', w')" and "gTimestamp w \<le> gTimestamp w'"
    and "\<not> wants_order (th_at t)" "\<not> wants_map (th_at t)"
    and "th_at t \<noteq> Finished" "th_at t \<noteq> Crashed" and "\<not> frees_order (th_at t)" "\<not> frees_map (th_at t) w"
  shows "db_reachable bad (with_thread k t' w' s)"
proof (rule db_reachable.step [OF assms(1) db_step.run [of k]])
  show "thread_step k (with_thread k t w s) = Some (with_thread k t' w' s)"
    using assms by (simp add: thread_step_def with_thread_def release_def Let_def)
qed (use assms(3) in \<open>simp add: with_thread_def\<close>)

lemma adding_reachable:
  "db_reachable True (with_thread 0 (adding StoreLock)
     ((initial_db (\<lambda>_. 100))\<lparr>clockReads := 1, gTimestamp := 1\<rparr>) idle_server)"
proof -
  let ?w = "initial_db (\<lambda>_. 100)"
  let ?t = "idle_thread\<lparr>th_call := CallAdd ''a'' ''0'' [] ''x'' 0\<rparr>"
  let ?u = "?t\<lparr>th_cur := 100, th_table := getHashTblNbrFromKey ''a''\<rparr>"
  note simps = site_simps clock_section_def after_clock_def stamp_section_def generate_section_def room_section_def
    now_def tick_def initial_db_def adding_def idle_thread_def th_key_def key_table_def expiry_of_def need_def
    add_need_def str_size_def sizeof_ulong_def SERV_DEF_MEM_LIMIT_def
  have "db_reachable True (with_thread 0 (?t\<lparr>th_at := Clock\<rparr>) ?w idle_server)"
    using begun_reachable [of True "CallAdd ''a'' ''0'' [] ''x'' 0"]
    by (simp add: begin_with_thread entry_site_def) (simp add: idle_server_def)
  then have "db_reachable True (with_thread 0 (?u\<lparr>th_at := Stamp\<rparr>) (?w\<lparr>clockReads := 1\<rparr>) idle_server)"
    by (rule reachable_section) (simp_all add: simps)
  then have "db_reachable True (with_thread 0 (?u\<lparr>th_at := Generate\<rparr>) (?w\<lparr>clockReads := 1, gTimestamp := 1\<rparr>) idle_server)"
    by (rule reachable_section) (simp_all add: simps)
  then have "db_reachable True (with_thread 0 (adding Room) (?w\<lparr>clockReads := 1, gTimestamp := 1\<rparr>) idle_server)"
    by (rule reachable_section) (simp_all add: simps)
  then show ?thesis by (rule reachable_section) (simp_all add: simps)
qed

text \<open>The thread has the mutex; its key is stored, but not yet in the order.\<close>

definition storing_db :: db where
  "storing_db = (initial_db (\<lambda>_. 100))\<lparr>clockReads := 1, gTimestamp := 1\<rparr>"

definition storing_server :: shared where
  "storing_server =
     (with_thread 0 (adding Store) storing_db idle_server)\<lparr>kvMutex := (\<lambda>_. None)(getHashTblNbrFromKey ''a'' \<mapsto> 0)\<rparr>"

lemma storing_reachable: "db_reachable True storing_server"
proof -
  have "thread_step 0 (with_thread 0 (adding StoreLock) storing_db idle_server) = Some storing_server"
    by (simp add: thread_step_def storing_server_def with_thread_def wants_simps adding_def locked_site_def goto_def
        idle_server_def Let_def)
  then show ?thesis
    by (intro db_reachable.step [OF adding_reachable [folded storing_db_def] db_step.run])
      (simp_all add: with_thread_def storing_server_def)
qed

definition stored_server :: shared where
  "stored_server = with_thread 0 (adding NewSize)
     (kv_put (getHashTblNbrFromKey ''a'') ''a'' (th_vs (adding Store), 0) storing_db) idle_server"

lemma stored_reachable: "db_reachable True stored_server"
proof -
  have "thread_step 0 storing_server = Some stored_server"
    by (auto simp: thread_step_def storing_server_def stored_server_def with_thread_def wants_simps adding_def
        section_of_def store_section_def add_section_def th_key_def storing_db_def initial_db_def idle_server_def
        idle_thread_def goto_def release_def frees_order_def frees_map_def Let_def fun_eq_iff)
  then show ?thesis
    by (intro db_reachable.step [OF storing_reachable db_step.run])
      (simp_all add: with_thread_def storing_server_def stored_server_def)
qed

theorem db_threads_evictable_witness:
  "gKeyToValueHashMap (sh_db stored_server) (getHashTblNbrFromKey ''a'') ''a'' = Some (th_vs (adding Store), 0) \<and>
   gTimestampToKeySet (sh_db stored_server) (getHashTblNbrFromKey ''a'') = [] \<and>
   (\<exists>k. th_at (threads stored_server k) \<noteq> Finished \<and> th_key (threads stored_server k) = ''a'')"
proof -
  have "gKeyToValueHashMap (sh_db stored_server) (getHashTblNbrFromKey ''a'') ''a'' = Some (th_vs (adding Store), 0)"
    and "gTimestampToKeySet (sh_db stored_server) (getHashTblNbrFromKey ''a'') = []"
    by (simp_all add: stored_server_def with_thread_def kv_put_def storing_db_def initial_db_def)
  then show ?thesis using db_threads_evictable [OF stored_reachable] by (metis empty_iff list.set(1))
qed

text \<open>Memory runs out.\<close>

definition full_server :: shared where
  "full_server = storing_server\<lparr>sh_db := storing_db\<lparr>badAlloc := True\<rparr>\<rparr>"

lemma full_reachable: "db_reachable True full_server"
proof -
  have "full_server = storing_server\<lparr>sh_db := (sh_db storing_server)\<lparr>badAlloc := True\<rparr>\<rparr>"
    by (simp add: full_server_def storing_server_def with_thread_def)
  moreover have "db_reachable True (storing_server\<lparr>sh_db := (sh_db storing_server)\<lparr>badAlloc := True\<rparr>\<rparr>)"
    by (rule db_reachable.step [OF storing_reachable db_step.memory]) simp_all
  ultimately show ?thesis by (rule ssubst)
qed

theorem bad_alloc_keeps_mutex_witness:
  "\<exists>s'. thread_step 0 full_server = Some s' \<and> th_at (threads s' 0) = Finished \<and> th_ret (threads s' 0) = MEMORY_FULL \<and>
     kvMutex s' (getHashTblNbrFromKey ''a'') = Some 0"
proof -
  have at: "th_at (threads full_server 0) = Store" "badAlloc (sh_db full_server)"
    "th_table (threads full_server 0) = getHashTblNbrFromKey ''a''"
    by (simp_all add: full_server_def storing_server_def with_thread_def adding_def)
  then obtain s' where "thread_step 0 full_server = Some s'" using can_step [of full_server 0] by (auto simp: wants_simps)
  with bad_alloc_keeps_mutex [OF full_reachable at(1,2) this rtranclp.rtrancl_refl] at(3) show ?thesis by auto
qed

section \<open>The shared generator\<close>

text \<open>Nothing keeps two threads from using the generator of \<open>dbInsertElement\<close> at the same time.\<close>

lemma generator_unguarded:
  "\<exists>s. (db_step False)\<^sup>*\<^sup>* idle_server s \<and> (\<forall>k < 2. th_at (threads s k) = Generate \<and>
     (\<exists>key flags casUniq val expiry. th_call (threads s k) = CallInsert key flags casUniq val expiry))"
proof -
  let ?c = "CallInsert ''a'' ''0'' [] ''x'' 0"
  have up: "\<exists>s'. (db_step False)\<^sup>*\<^sup>* s s' \<and> th_at (threads s' k) = Generate \<and> th_call (threads s' k) = ?c \<and>
      (\<forall>j. j \<noteq> k \<longrightarrow> threads s' j = threads s j)" if "th_at (threads s k) = Finished" for s k
  proof -
    let ?t = "(threads s k)\<lparr>th_call := ?c, th_at := Clock\<rparr>"
    let ?u = "\<lambda>l. ?t\<lparr>th_cur := now (sh_db s), th_table := key_table ?t, th_at := l\<rparr>"
    let ?v = "(?u Stamp)\<lparr>th_timestamp := gTimestamp (sh_db s), th_at := Generate\<rparr>"
    let ?w = "(tick (sh_db s))\<lparr>gTimestamp := gTimestamp (sh_db s) + 1\<rparr>"
    have "db_step False s (with_thread k ?t (sh_db s) s)"
      using db_step.call [OF that, of False ?c] by (simp add: begin_with_thread entry_site_def)
    moreover have "solo k (with_thread k ?t (sh_db s) s) (with_thread k (?u Stamp) (tick (sh_db s)) s)"
      by (rule solo_section) (simp_all add: site_simps clock_section_def after_clock_def)
    moreover have "solo k (with_thread k (?u Stamp) (tick (sh_db s)) s) (with_thread k ?v ?w s)"
      by (rule solo_section) (simp_all add: site_simps stamp_section_def)
    ultimately have "(db_step False)\<^sup>*\<^sup>* s (with_thread k ?v ?w s)"
      by (meson solo_db_steps converse_rtranclp_into_rtranclp rtranclp_trans)
    then show ?thesis by (intro exI [of _ "with_thread k ?v ?w s"]) (simp add: with_thread_def)
  qed
  obtain s1 where s1: "(db_step False)\<^sup>*\<^sup>* idle_server s1" "th_at (threads s1 0) = Generate" "th_call (threads s1 0) = ?c"
    "th_at (threads s1 1) = Finished"
    using up [of idle_server 0] by auto
  from up [OF s1(4)] obtain s2 where "(db_step False)\<^sup>*\<^sup>* s1 s2" "th_at (threads s2 1) = Generate"
    "th_call (threads s2 1) = ?c" "threads s2 0 = threads s1 0" by auto
  with s1 show ?thesis by (intro exI [of _ s2]) (auto simp: less_2_cases_iff intro: rtranclp_trans)
qed

end
