(* ===== verification/Genclient.thy ===== *)
theory Genclient
  imports SockSession SMain
begin

text \<open>
  The load generator \<open>tests/genclient.cpp\<close>: for each of a number of keys it prints a \<open>set\<close> request
  into a buffer of 800 bytes, sends it, receives the reply, and does the same with a \<open>get\<close>
  request; a reply of fewer than three bytes is reported as an error. The server is a function
  from what is sent to the length \<open>recv\<close> returns.

  The lemmas show that the buffer is never overrun and that a server with room for the entry
  makes the client report no error.
\<close>

definition genclient_keys :: "string list \<Rightarrow> ulong" where
  "genclient_keys argv = (if length argv = 2 then atoi (argv ! 1) else 500)"

definition key_text :: "nat \<Rightarrow> string" where
  "key_text i = ''keychampioningtheraceisthevictoroftheevent'' @ decimal i"

definition set_message :: "nat \<Rightarrow> string" where
  "set_message i = ''set '' @ key_text i @ '' flags 1000 5'' @ crlf @ ''value'' @ crlf"

definition get_message :: "nat \<Rightarrow> string" where
  "get_message i = ''get '' @ key_text i @ crlf"

text \<open>\<open>sprintf\<close> into the buffer, with the terminating zero.\<close>

definition print_buf :: "string \<Rightarrow> string result" where
  "print_buf msg = (if length msg < 800 then Inr msg else Inl BufferOverflow)"

type_synonym 's exchange = "string \<Rightarrow> 's \<Rightarrow> int \<times> 's"

definition client_ask :: "'s exchange \<Rightarrow> string \<Rightarrow> string \<Rightarrow> 's \<Rightarrow> (string list \<times> 's) result" where
  "client_ask srv msg err s =
     rbind (print_buf msg) (\<lambda>buf. let (len, s) = srv buf s in Inr (if len < 3 then [err @ crlf] else [], s))"

definition client_round :: "'s exchange \<Rightarrow> nat \<Rightarrow> 's \<Rightarrow> (string list \<times> 's) result" where
  "client_round srv i s =
     rbind (client_ask srv (set_message i) ''ERROR in set'' s)
       (\<lambda>(o1, s). rbind (client_ask srv (get_message i) ''ERROR in get'' s) (\<lambda>(o2, s). Inr (o1 @ o2, s)))"

function client_loop :: "'s exchange \<Rightarrow> ulong \<Rightarrow> ulong \<Rightarrow> 's \<Rightarrow> (string list \<times> 's) result" where
  "client_loop srv keys i s =
     (if i < keys
      then rbind (client_round srv (unat i) s)
             (\<lambda>(o1, s). rbind (client_loop srv keys (i + 1) s) (\<lambda>(o2, s). Inr (o1 @ o2, s)))
      else Inr ([], s))"
  by pat_completeness auto
termination
proof (relation "measure (\<lambda>(srv, keys, i, s). unat (keys - i))", goal_cases)
  case (2 srv keys i s)
  then have "unat (keys - (i + 1)) < unat (keys - i)" by unat_arith
  then show ?case by simp
qed simp

declare client_loop.simps [simp del]

definition genclient :: "'s exchange \<Rightarrow> string list \<Rightarrow> 's \<Rightarrow> (string list \<times> 's) result" where
  "genclient srv argv s = client_loop srv (genclient_keys argv) 0 s"

section \<open>The buffer\<close>

lemma messages_fit:
  assumes "i < 2 ^ 32"
  shows "print_buf (set_message i) = Inr (set_message i)" "print_buf (get_message i) = Inr (get_message i)"
proof -
  have "length (decimal i) \<le> 10" using assms by (intro length_decimal_le) simp_all
  then show "print_buf (set_message i) = Inr (set_message i)" "print_buf (get_message i) = Inr (get_message i)"
    by (simp_all add: print_buf_def set_message_def get_message_def key_text_def crlf_def)
qed

text \<open>Whatever the server answers, the client prints within its buffer and comes to an end.\<close>

lemma client_round_returns: "i < 2 ^ 32 \<Longrightarrow> \<exists>o1 s'. client_round srv i s = Inr (o1, s')"
  by (simp add: client_round_def client_ask_def messages_fit Let_def split: prod.split)

lemma client_loop_returns: "\<exists>o1 s'. client_loop srv keys i s = Inr (o1, s')"
proof (induction srv keys i s rule: client_loop.induct)
  case (1 srv keys i s)
  show ?case
  proof (cases "i < keys")
    case True
    have "unat i < 2 ^ 32" using unsigned_less [of i] by simp
    from client_round_returns [OF this, of srv s] obtain o1 s1 where r: "client_round srv (unat i) s = Inr (o1, s1)" by blast
    from 1 [OF True, of s1] obtain o2 s2 where "client_loop srv keys (i + 1) s1 = Inr (o2, s2)" by auto
    with True r show ?thesis by (subst client_loop.simps) simp
  qed (simp add: client_loop.simps)
qed

lemma genclient_returns: "\<exists>o1 s'. genclient srv argv s = Inr (o1, s')"
  by (simp add: genclient_def client_loop_returns)

section \<open>Against the server\<close>

text \<open>The server as the client sees it: one reply to each request.\<close>

definition server_exchange :: "db exchange" where
  "server_exchange msg w = (case cmdProcessCommand msg w of Inr (r, out, w) \<Rightarrow> (int (length out), w) | Inl e \<Rightarrow> (0, w))"

lemma set_message_request: "set_message i = request ''set'' (key_text i) ''flags'' 1000 False ''value''"
proof -
  have "decimal 1000 = ''1000''" "decimal (Suc (Suc (Suc (Suc (Suc 0))))) = ''5''" by code_simp+
  then show ?thesis by (simp add: set_message_def request_def storage_line_def)
qed

lemma client_round_succeeds:
  assumes "i < 2 ^ 32" and "steady_at t 2 w" and "\<not> gIsFlushAllSet w" and "unat t + 1000 < 2 ^ 32"
    and "room w (key_text i) ''flags'' ''value''" and "\<not> badAlloc w" and "not_flushed w (key_text i)"
  shows "\<exists>w'. client_round server_exchange i w = Inr ([], w')"
proof -
  have "length (decimal i) \<le> 10" using assms(1) by (intro length_decimal_le) simp_all
  moreover have "token (key_text i)" using token_decimal [of i] by (simp add: key_text_def token_def)
  ultimately have "well_formed ''set'' (key_text i) ''flags'' 1000 False ''value''"
    unfolding well_formed_def set_message_request [symmetric]
    by (simp add: token_def set_message_def key_text_def crlf_def)
  moreover have "of_nat 1000 \<le> EXPIRY_THRESHOLD" by (simp add: EXPIRY_THRESHOLD_def)
  ultimately obtain w1 w2 where "cmdProcessCommand (set_message i) w = Inr (0, ''STORED'' @ crlf, w1)"
    and "cmdProcessCommand (get_message i) w1 = Inr (0, ''VALUE '' @ key_text i @ '' '' @ ''flags'' @ '' '' @
      decimal (length ''value'') @ crlf @ ''value'' @ crlf @ ''END'' @ crlf, w2)"
    using set_get_run [of "key_text i" "''flags''" 1000 "''value''" t w] assms(2-)
    unfolding set_message_request get_message_def by auto
  then show ?thesis
    using messages_fit [OF assms(1)] by (simp add: client_round_def client_ask_def server_exchange_def crlf_def)
qed

end
