(* ===== verification/SockQuit.thy ===== *)
theory SockQuit
  imports SockFrames
begin

text \<open>
  The end of a connection: a request whose handler asks to close it, such as \<open>quit\<close>. Every
  request in front of it is answered first, and the loop leaves with the mark to close, however the
  bytes are cut up.
\<close>

text \<open>A request line that ends the connection, and the storage it leaves.\<close>

definition ends_conn :: "frame \<Rightarrow> db \<Rightarrow> db \<Rightarrow> bool" where
  "ends_conn q w w' \<longleftrightarrow> snd q = [] \<and> (\<exists>r out. cmdProcessCommand (fst q) w = Inr (r, out, w') \<and> r < 0)"

inductive closes :: "frame \<Rightarrow> string \<Rightarrow> conn \<Rightarrow> string list \<Rightarrow> db \<Rightarrow> bool" for q where
  line: "\<forall>g \<in> set (fs @ [q]). frame_ok g \<Longrightarrow> awaits_line (fs @ [q]) R c \<Longrightarrow>
     serve fs (cn_db c) = Some (outs, w) \<Longrightarrow> ends_conn q w w' \<Longrightarrow> closes q R c outs w'"
| body: "\<forall>g \<in> set (f # fs @ [q]). frame_ok g \<Longrightarrow> awaits_body f (fs @ [q]) R c \<Longrightarrow>
     cmdProcessCommand (fst f @ snd f) (cn_db c) = Inr (0, out, w1) \<Longrightarrow> serve fs w1 = Some (outs, w) \<Longrightarrow>
     ends_conn q w w' \<Longrightarrow> closes q R c (out # outs) w'"

lemma close_round:
  assumes "awaits_line [q] (new @ R) c" and "fed c new v" and "frame_ok q"
    and "length (cn_data v) < 2 ^ 32 - 1" and "ends_conn q (cn_db c) w'"
  shows "(sockScan v = Inr (v, None) \<and> awaits_line [q] R v) \<or>
     (\<exists>v'. sockScan v = Inr (v', Some True) \<and> cn_sent v' = cn_sent c \<and> cn_db v' = w')"
proof -
  obtain hdr where q: "q = (hdr, [])" using assms(5) by (cases q) (simp add: ends_conn_def)
  obtain h where h: "hdr = h @ crlf" "CHR 0x0D \<notin> set h" "2 \<le> length h" using assms(3) q by (auto simp: frame_ok_def)
  have data: "cn_data v @ R = hdr @ []" and pos: "cn_pos v = 0" and rm: "cn_readMore v \<le> 0"
    using assms(1,2) q by (auto simp: awaits_line_def fed_def)
  from data show ?thesis
  proof (cases rule: append_split)
    case (cut m)
    have "str_find (cn_data v) crlf (cn_pos v + 2) = npos"
      by (rule str_find_crlf_cut [of "[]" h _ m]) (use cut h assms(4) in simp_all)
    moreover have "awaits_line [q] R v" using cut data pos rm q by (simp add: awaits_line_def)
    ultimately show ?thesis using sockScan_cut by blast
  next
    case (full rest)
    then have v: "cn_data v = hdr @ rest" by simp
    have find: "str_find (cn_data v) crlf (cn_pos v + 2) = of_nat (length h)"
      using find_header [OF h, of rest] v assms(4) pos by simp
    have sfx: "length hdr = length h + 2" "suffix crlf hdr" using h(1) by (simp_all add: crlf_def suffix_def)
    obtain r out where cmd: "cmdProcessCommand hdr (cn_db v) = Inr (r, out, w')" "r < 0"
      using assms(2,5) q by (auto simp: ends_conn_def fed_def)
    have "cn_sent v = cn_sent c" using assms(2) by (simp add: fed_def)
    then show ?thesis
      using sockScan_line [OF find v sfx assms(4) counted_down [OF rm] cmd(1)] cmd(2) by simp
  qed
qed

lemma closes_round:
  assumes "closes q (new @ R) c outs w'" and "fed c new v" and "length (cn_data v) < 2 ^ 32 - 1"
  shows "(\<exists>v'. sockScan v = Inr (v', Some True) \<and> outs = [] \<and> cn_sent v' = cn_sent c \<and> cn_db v' = w') \<or>
     (\<exists>v' sent outs'. sockScan v = Inr (v', None) \<and> closes q (cn_persistentData v' @ R) v' outs' w' \<and>
        outs = sent @ outs' \<and> cn_sent v' = cn_sent c @ sent)"
proof -
  have v: "cn_persistentData v = []" "cn_sent v = cn_sent c" "cn_db v = cn_db c" using assms(2) by (auto simp: fed_def)
  have same: ?thesis if "sockScan v = Inr (v, None)" "closes q R v outs w'"
    using that v by (intro disjI2 exI [of _ v] exI [of _ "[]"] exI [of _ outs]) simp
  from assms(1) show ?thesis
  proof (cases rule: closes.cases)
    case (body f fs out w1 outs' w)
    from body_round [OF body(3) assms(2) body(2) assms(3) body(4)] show ?thesis
    proof (elim disjE exE conjE)
      assume "sockScan v = Inr (v, None)" "awaits_body f (fs @ [q]) R v"
      then show ?thesis using same closes.body [OF body(2) _ _ body(5,6)] body(1,4) v by simp
    next
      fix v' assume r: "sockScan v = Inr (v', None)" "awaits_line (fs @ [q]) (cn_persistentData v' @ R) v'"
        "cn_sent v' = cn_sent c @ [out]" "cn_db v' = w1"
      then have "closes q (cn_persistentData v' @ R) v' outs' w'" using body by (intro closes.line [of fs]) simp_all
      with r body(1) show ?thesis by (intro disjI2 exI [of _ v'] exI [of _ "[out]"] exI [of _ outs']) simp
    qed
  next
    case (line fs w)
    show ?thesis
    proof (cases fs)
      case Nil
      with line have "awaits_line [q] (new @ R) c" "frame_ok q" "ends_conn q (cn_db c) w'" "outs = []" by simp_all
      from close_round [OF this(1) assms(2) this(2) assms(3) this(3)] this show ?thesis
        using same closes.line [of "[]" q R v "[]" w w'] line v Nil by auto
    next
      case (Cons f fs')
      obtain out w1 outs' where fr: "frame_reply f (cn_db c) = Some (out, w1)" "serve fs' w1 = Some (outs', w)"
        "outs = out # outs'" using line(3) Cons by (auto split: option.splits)
      have ok: "\<forall>g \<in> set (f # fs' @ [q]). frame_ok g" using line(1) Cons by simp
      have aw: "awaits_line (f # fs' @ [q]) (new @ R) c" using line(2) Cons by simp
      from line_round [OF aw assms(2) ok assms(3) fr(1)] show ?thesis
      proof (elim disjE exE conjE)
        assume "sockScan v = Inr (v, None)" "awaits_line (f # fs' @ [q]) R v"
        then show ?thesis using same closes.line [of fs q R v outs w w'] line Cons v by simp
      next
        fix v' assume r: "sockScan v = Inr (v', None)" "awaits_line (fs' @ [q]) (cn_persistentData v' @ R) v'"
          "cn_sent v' = cn_sent c @ [out]" "cn_db v' = w1"
        then have "closes q (cn_persistentData v' @ R) v' outs' w'" using fr ok line(4) by (intro closes.line [of fs']) simp_all
        with r fr(3) show ?thesis by (intro disjI2 exI [of _ v'] exI [of _ "[out]"] exI [of _ outs']) simp
      next
        fix v' assume r: "sockScan v = Inr (v', None)" "awaits_body f (fs' @ [q]) (cn_persistentData v' @ R) v'"
          "cn_sent v' = cn_sent c" "cmdProcessCommand (fst f @ snd f) (cn_db v') = Inr (0, out, w1)"
        from closes.body [OF ok r(2,4) fr(2) line(4)] r(1,3) fr(3) show ?thesis
          by (intro disjI2 exI [of _ v'] exI [of _ "[]"] exI [of _ outs]) simp
      qed
    qed
  qed
qed

lemma closes_more:
  assumes "closes q R c outs w'"
  shows "R \<noteq> []"
  using assms
proof (cases rule: closes.cases)
  case (line fs w)
  then show ?thesis using frame_ok_nonempty [of q]
    by (cases fs) (auto simp: awaits_line_def flat_def split: prod.splits)
next
  case (body f fs out w1 outs w)
  then show ?thesis by (auto simp: awaits_body_def)
qed

lemma sockLoop_closes:
  assumes "closes q (cn_persistentData c @ concat chunks) c outs w'" and "scanned c" and "\<forall>k \<in> set chunks. k \<noteq> []"
    and "length (cn_persistentData c) + length (concat chunks) < n"
    and "length (cn_data c) + length (cn_persistentData c) + length (concat chunks) < 2 ^ 32 - 3"
  shows "\<exists>c'. sockLoop n chunks e c = Inr (c', True) \<and> cn_sent c' = cn_sent c @ outs \<and> cn_db c' = w'"
  using assms
proof (induction n arbitrary: c chunks outs)
  case (Suc n)
  have "cn_persistentData c @ concat chunks \<noteq> []" using closes_more [OF Suc.prems(1)] .
  from sockLoop_step [OF this Suc.prems(3), of e] obtain new cs v
    where fed: "fed c new v" "new \<noteq> []" "new @ concat cs = cn_persistentData c @ concat chunks" "set cs \<subseteq> set chunks"
      and loop: "\<forall>v' r m. sockScan v = Inr (v', r) \<longrightarrow> sockLoop (Suc m) chunks e c =
        (case r of None \<Rightarrow> sockLoop m cs e v' | Some closing \<Rightarrow> Inr (v', closing))"
    by (elim exE conjE)
  have sum: "length new + length (concat cs) = length (cn_persistentData c) + length (concat chunks)"
    using arg_cong [OF fed(3), of length] by simp
  have d: "cn_data v = cn_data c @ new" "cn_pos v = cn_pos c" "cn_persistentData v = []" using fed(1) by (auto simp: fed_def)
  have len: "length (cn_data c @ new) < 2 ^ 32 - 3" using Suc.prems(5) sum by simp
  have "length (cn_data v) < 2 ^ 32 - 1" using len d by simp
  from closes_round [OF Suc.prems(1) [folded fed(3)] fed(1) this] show ?case
  proof (elim disjE exE conjE, goal_cases)
    case (1 v')
    then show ?case using loop by auto
  next
    case (2 v' sent outs')
    have round: "scanned v' \<and> length (cn_persistentData v') < length new \<and>
        length (cn_data v') + length (cn_persistentData v') \<le> length (cn_data c @ new)"
      by (rule sockScan_round [of _ v]) (use Suc.prems(2) d fed(2) len 2 in \<open>simp_all add: scanned_def\<close>)
    have "\<exists>c'. sockLoop n cs e v' = Inr (c', True) \<and> cn_sent c' = cn_sent v' @ outs' \<and> cn_db c' = w'"
      by (rule Suc.IH) (use 2 round Suc.prems(3-5) fed(4) sum in auto)
    then show ?case using loop 2 by auto
  qed
qed simp

lemma sockLoop_quit:
  assumes "idle c" and "concat chunks = flat (fs @ [q])" and "\<forall>f \<in> set (fs @ [q]). frame_ok f"
    and "\<forall>k \<in> set chunks. k \<noteq> []" and "length (concat chunks) < 2 ^ 32 - 3"
    and "serve fs (cn_db c) = Some (outs, w)" and "ends_conn q w w'"
  shows "\<exists>c'. sockLoop (Suc (length (concat chunks))) chunks e c = Inr (c', True) \<and>
     cn_sent c' = cn_sent c @ outs \<and> cn_db c' = w'"
proof (rule sockLoop_closes)
  have "awaits_line (fs @ [q]) (concat chunks) c"
    by (rule awaits_line_fresh) (use assms in \<open>simp_all add: idle_def\<close>)
  then show "closes q (cn_persistentData c @ concat chunks) c outs w'"
    using assms by (intro closes.line [of fs]) (simp_all add: idle_def)
  show "scanned c" using assms(1) by (simp add: scanned_def idle_def str_find_short)
qed (use assms(1,4,5) in \<open>simp_all add: idle_def\<close>)

end
