(* ===== verification/Memcapable.thy ===== *)
theory Memcapable
  imports SockSession SMain SockQuit
begin

text \<open>
  The conformance test the server is checked with, \<open>clients/memcapable.cc\<close> of libmemcached, as
  \<open>memcapable -a\<close> runs it: the helpers that send and receive, the test cases of the text protocol,
  and the loop of \<open>main\<close> over them. The tests of the binary protocol are left out.

  A test is a function of the wire: the connection as the server sees it, the bytes written and not
  yet received, the bytes sent back and not yet read. It returns \<open>None\<close> where the source returns
  \<open>TEST_FAIL\<close>, by \<open>verify\<close>, by \<open>execute\<close> or directly. Writing never fails: the
  requests are far shorter than the buffer of the socket. A read that finds nothing lets the server
  run on what was written; when there is still nothing, it times out, or reports the end when the
  server has closed the connection. The network cuts what it carries as it likes.
\<close>

section \<open>The wire\<close>

datatype test_return = TEST_SKIP | TEST_PASS | TEST_PASS_RECONNECT | TEST_FAIL

record wire =
  w_net :: "string \<Rightarrow> string list"
  w_conn :: conn
  w_closed :: bool
  w_out :: string
  w_in :: "string list"

text \<open>
  The server receives what was written, answers what it can, and waits in \<open>recv\<close> again or closes
  the connection.
\<close>

definition deliver :: "wire \<Rightarrow> wire result" where
  "deliver x =
     (if w_closed x \<or> w_out x = [] then Inr x
      else rbind (sockLoop (Suc (length (w_out x))) (w_net x (w_out x)) WouldBlock (w_conn x))
             (\<lambda>(c, closing). Inr (x\<lparr>w_conn := c\<lparr>cn_sent := []\<rparr>, w_closed := closing, w_out := [],
                                   w_in := concat (map (w_net x) (cn_sent c))\<rparr>)))"

datatype io_result = IoBytes string | IoClosed | IoTimeout

definition timeout_io_op :: "nat \<Rightarrow> wire \<Rightarrow> (io_result \<times> wire) result" where
  "timeout_io_op len x =
     rbind (if w_in x = [] then deliver x else Inr x)
       (\<lambda>x. case w_in x of
               [] \<Rightarrow> Inr (if w_closed x then IoClosed else IoTimeout, x)
             | s # ss \<Rightarrow> Inr (IoBytes (take len s), x\<lparr>w_in := (if length s \<le> len then ss else drop len s # ss)\<rparr>))"

section \<open>Tests\<close>

type_synonym 'a test = "wire \<Rightarrow> ('a option \<times> wire) result"

definition pass :: "'a \<Rightarrow> 'a test" where
  "pass a x = Inr (Some a, x)"

definition fail :: "'a test" where
  "fail x = Inr (None, x)"

definition tbind :: "'a test \<Rightarrow> ('a \<Rightarrow> 'b test) \<Rightarrow> 'b test" where
  "tbind m f x = rbind (m x) (\<lambda>(r, x). case r of None \<Rightarrow> Inr (None, x) | Some a \<Rightarrow> f a x)"

text \<open>The two macros, and \<open>ensure\<close> behind them: anything but success returns \<open>TEST_FAIL\<close>.\<close>

definition verify :: "bool \<Rightarrow> 'a test \<Rightarrow> 'a test" where
  "verify val m = (if val then m else fail)"

definition execute :: "test_return test \<Rightarrow> 'a test \<Rightarrow> 'a test" where
  "execute e m = tbind e (\<lambda>r. verify (r = TEST_PASS) m)"

section \<open>Sending and receiving\<close>

text \<open>
  How many bytes of a buffer \<open>send\<close> takes: one at least, and the network decides how many more. The
  loop goes on with the rest.
\<close>

definition sent :: "(string \<Rightarrow> string list) \<Rightarrow> string \<Rightarrow> nat" where
  "sent net buf = (case net buf of [] \<Rightarrow> length buf | s # _ \<Rightarrow> min (max 1 (length s)) (length buf))"

function retry_write :: "string \<Rightarrow> test_return test" where
  "retry_write buf x =
     (let nw = sent (w_net x) buf; x' = x\<lparr>w_out := w_out x @ take nw buf\<rparr>
      in if nw < length buf then retry_write (drop nw buf) x' else pass TEST_PASS x')"
  by pat_completeness auto
termination by (relation "measure (\<lambda>(buf, x). length buf)") (auto simp: sent_def split: list.splits)

declare retry_write.simps [simp del]

text \<open>The loop reads on until all bytes are there; no bytes at all are a failure.\<close>

function retry_read :: "nat \<Rightarrow> string test" where
  "retry_read len x =
     (case timeout_io_op len x of
        Inl e \<Rightarrow> Inl e
      | Inr (r, x') \<Rightarrow>
          (case r of
             IoBytes s \<Rightarrow>
               if s = [] then fail x'
               else if length s < len
               then rbind (retry_read (len - length s) x')
                      (\<lambda>(t, x). Inr (map_option (\<lambda>t. s @ t) t, x))
               else pass s x'
           | _ \<Rightarrow> fail x'))"
  by pat_completeness auto
termination by (relation "measure (\<lambda>(len, x). len)") auto

declare retry_read.simps [simp del]

definition send_string :: "string \<Rightarrow> test_return test" where
  "send_string cmd = execute (retry_write cmd) (pass TEST_PASS)"

text \<open>One byte at a time, up to the line end; the argument is the room left in the buffer.\<close>

fun receive_line :: "nat \<Rightarrow> string test" where
  "receive_line 0 = fail"
| "receive_line (Suc n) =
     tbind (retry_read 1)
       (\<lambda>b. if b = [CHR 0x0A] then (if 0 < n then pass b else fail)
            else tbind (receive_line n) (\<lambda>bs. pass (b @ bs)))"

text \<open>The part of a buffer the string functions of C look at.\<close>

definition c_str :: "string \<Rightarrow> string" where
  "c_str buf = takeWhile (\<lambda>c. c \<noteq> CHR 0x00) buf"

definition receive_response :: "string \<Rightarrow> test_return test" where
  "receive_response msg = tbind (receive_line 80) (\<lambda>buffer. verify (msg = c_str buffer) (pass TEST_PASS))"

definition receive_error_response :: "test_return test" where
  "receive_error_response =
     tbind (receive_line 80)
       (\<lambda>buffer. verify (prefix ''ERROR'' (c_str buffer) \<or> prefix ''CLIENT_ERROR'' (c_str buffer) \<or>
                        prefix ''SERVER_ERROR'' (c_str buffer)) (pass TEST_PASS))"

text \<open>\<open>snprintf\<close> into a buffer of the given size.\<close>

definition snprintf :: "nat \<Rightarrow> string \<Rightarrow> string" where
  "snprintf n s = take (n - 1) s"

definition noreply_mark :: "bool \<Rightarrow> string" where
  "noreply_mark noreply = (if noreply then '' noreply'' else [])"

text \<open>
  \<open>strtoul\<close> and \<open>strtoull\<close> to base ten, with the text the end pointer is left at: blanks, an
  optional sign, digits; without digits the pointer stays; a number too large gives the maximum.
\<close>

definition strtoul :: "string \<Rightarrow> 'a::len word \<times> string" where
  "strtoul s =
     (let t = dropWhile is_space s;
          neg = (case t of c # _ \<Rightarrow> c = CHR ''-'' | [] \<Rightarrow> False);
          u = (case t of c # r \<Rightarrow> if c = CHR ''-'' \<or> c = CHR ''+'' then r else t | [] \<Rightarrow> []);
          ds = takeWhile is_digit u; n = digits_val ds
      in if ds = [] then (0, s)
         else (if 2 ^ LENGTH('a) \<le> n then - 1 else if neg then - of_nat n else of_nat n, dropWhile is_digit u))"

section \<open>Simple commands\<close>

definition test_ascii_quit :: "test_return test" where
  "test_ascii_quit =
     execute (send_string (''quit foo bar'' @ crlf)) (
     execute receive_error_response (
     execute (send_string (''quit noreply'' @ crlf)) (
     execute receive_error_response (
     execute (send_string (''quit'' @ crlf)) (\<lambda>x.
       rbind (timeout_io_op 80 x) (\<lambda>(r, x). verify (r = IoClosed) (pass TEST_PASS_RECONNECT) x))))))"

definition test_ascii_version :: "test_return test" where
  "test_ascii_version =
     execute (send_string (''version foo bar'' @ crlf)) (
     execute receive_error_response (
     execute (send_string (''version noreply'' @ crlf)) (
     execute receive_error_response (
     execute (send_string (''version'' @ crlf)) (
     tbind (receive_line 256) (\<lambda>buffer.
     verify (prefix ''VERSION '' (c_str buffer)) (pass TEST_PASS)))))))"

definition test_ascii_verbosity :: "test_return test" where
  "test_ascii_verbosity =
     execute (send_string (''verbosity foo bar my'' @ crlf)) (
     execute receive_error_response (
     execute (send_string (''verbosity noreply'' @ crlf)) (
     execute receive_error_response (
     execute (send_string (''verbosity 0 noreply'' @ crlf)) (
     execute test_ascii_version (
     execute (send_string (''verbosity'' @ crlf)) (
     execute receive_error_response (
     execute (send_string (''verbosity 1'' @ crlf)) (
     execute (receive_response (''OK'' @ crlf)) (
     execute (send_string (''verbosity 0'' @ crlf)) (
     execute (receive_response (''OK'' @ crlf)) (
     pass TEST_PASS))))))))))))"

section \<open>Storing and adding\<close>

text \<open>A reply that is only there without \<open>noreply\<close>, read by a test that goes on with the version test.\<close>

definition reply_unless :: "bool \<Rightarrow> string \<Rightarrow> 'a test \<Rightarrow> 'a test" where
  "reply_unless noreply msg m = (if noreply then m else execute (receive_response msg) m)"

text \<open>The same where the test asks for the version at once instead.\<close>

definition reply_or_version :: "bool \<Rightarrow> string \<Rightarrow> 'a test \<Rightarrow> 'a test" where
  "reply_or_version noreply msg m =
     (if noreply then execute test_ascii_version m else execute (receive_response msg) m)"

definition test_ascii_set_impl :: "string \<Rightarrow> bool \<Rightarrow> test_return test" where
  "test_ascii_set_impl key noreply =
     (let buffer = snprintf 1024 (''set '' @ key @ '' 0 0 5'' @ noreply_mark noreply @ crlf @ ''value'' @ crlf)
      in execute (send_string buffer) (reply_unless noreply (''STORED'' @ crlf) test_ascii_version))"

definition test_ascii_add_impl :: "string \<Rightarrow> bool \<Rightarrow> test_return test" where
  "test_ascii_add_impl key noreply =
     (let buffer = snprintf 1024 (''add '' @ key @ '' 0 0 5'' @ noreply_mark noreply @ crlf @ ''value'' @ crlf)
      in execute (send_string buffer) (
         reply_unless noreply (''STORED'' @ crlf) (
         execute (send_string buffer) (
         reply_unless noreply (''NOT_STORED'' @ crlf) test_ascii_version))))"

section \<open>Reading values\<close>

definition skip_blanks :: "string \<Rightarrow> string" where
  "skip_blanks s = dropWhile (\<lambda>c. c \<noteq> CHR 0x0A \<and> is_space c) s"

definition at_newline :: "string \<Rightarrow> bool" where
  "at_newline s \<longleftrightarrow> (case s of c # _ \<Rightarrow> c = CHR 0x0A | [] \<Rightarrow> False)"

text \<open>The value block of a key the client does not know; the key, the value and its length.\<close>

definition ascii_get_unknown_value :: "(string \<times> string \<times> uint) test" where
  "ascii_get_unknown_value =
     tbind (receive_line 1024) (\<lambda>buffer.
     verify (prefix ''VALUE '' (c_str buffer)) (
     let rest = drop 6 (c_str buffer); key = takeWhile (\<lambda>c. c \<noteq> CHR '' '') rest in
     verify (key \<noteq> rest) (
     let ptr = drop (length key + 1) rest; (val, end1) = (strtoul ptr :: uint \<times> string) in
     verify (ptr \<noteq> end1) (
     verify (val = 0) (
     let (ndata, end2) = (strtoul end1 :: uint \<times> string) in
     verify (ptr \<noteq> end2) (
     verify (at_newline (skip_blanks end2)) (
     tbind (retry_read (unat ndata)) (\<lambda>v.
     tbind (retry_read 2) (\<lambda>nl.
     verify (nl = crlf) (pass (key, v, ndata)))))))))))"

text \<open>The block of a known key; \<open>gets\<close> also reads the CAS identifier.\<close>

definition ascii_get_value :: "string \<Rightarrow> string \<Rightarrow> test_return test" where
  "ascii_get_value key value =
     (let datasize = length value in
      verify (datasize < 1024) (
      tbind (receive_line 1024) (\<lambda>buffer.
      verify (prefix ''VALUE '' (c_str buffer)) (
      verify (prefix key (drop 6 (c_str buffer))) (
      let ptr = drop (6 + length key + 1) (c_str buffer); (val, end1) = (strtoul ptr :: uint \<times> string) in
      verify (ptr \<noteq> end1) (
      verify (val = 0) (
      let (val, end2) = (strtoul end1 :: uint \<times> string) in
      verify (ptr \<noteq> end2) (
      verify (val = of_nat datasize) (
      verify (at_newline (skip_blanks end2)) (
      tbind (retry_read datasize) (\<lambda>buffer.
      verify (buffer = value) (
      tbind (retry_read 2) (\<lambda>buffer.
      verify (buffer = crlf) (pass TEST_PASS))))))))))))))"

definition ascii_gets_value :: "string \<Rightarrow> string \<Rightarrow> u64 test" where
  "ascii_gets_value key value =
     (let datasize = length value in
      verify (datasize < 1024) (
      tbind (receive_line 1024) (\<lambda>buffer.
      verify (prefix ''VALUE '' (c_str buffer)) (
      verify (prefix key (drop 6 (c_str buffer))) (
      let ptr = drop (6 + length key + 1) (c_str buffer); (val, end1) = (strtoul ptr :: uint \<times> string) in
      verify (ptr \<noteq> end1) (
      verify (val = 0) (
      let (val, end2) = (strtoul end1 :: uint \<times> string) in
      verify (ptr \<noteq> end2) (
      verify (val = of_nat datasize) (
      let (cas, end3) = (strtoul end2 :: u64 \<times> string) in
      verify (ptr \<noteq> end3) (
      verify (at_newline (skip_blanks end3)) (
      tbind (retry_read datasize) (\<lambda>buffer.
      verify (buffer = value) (
      tbind (retry_read 2) (\<lambda>buffer.
      verify (buffer = crlf) (pass cas)))))))))))))))"

definition receive_end :: "'a test \<Rightarrow> 'a test" where
  "receive_end m = tbind (retry_read 5) (\<lambda>buffer. verify (buffer = ''END'' @ crlf) m)"

definition ascii_get_item :: "string \<Rightarrow> string \<Rightarrow> bool \<Rightarrow> test_return test" where
  "ascii_get_item key value exist =
     verify (length value < 1024) (
     execute (send_string (snprintf 1024 (''get '' @ key @ crlf))) (
     if exist then execute (ascii_get_value key value) (receive_end (pass TEST_PASS))
     else receive_end (pass TEST_PASS)))"

text \<open>The identifier is an output: a look-up of a missing key leaves the variable as it was.\<close>

definition ascii_gets_item :: "string \<Rightarrow> string \<Rightarrow> bool \<Rightarrow> u64 \<Rightarrow> u64 test" where
  "ascii_gets_item key value exist cas =
     verify (length value < 1024) (
     execute (send_string (snprintf 1024 (''gets '' @ key @ crlf))) (
     if exist then tbind (ascii_gets_value key value) (\<lambda>cas. receive_end (pass cas))
     else receive_end (pass cas)))"

definition ascii_set_item :: "string \<Rightarrow> string \<Rightarrow> test_return test" where
  "ascii_set_item key value =
     (let len = length value in
      execute (send_string (snprintf 300 (''set '' @ key @ '' 0 0 '' @ decimal len @ crlf))) (
      execute (retry_write value) (
      execute (send_string crlf) (
      execute (receive_response (''STORED'' @ crlf)) (
      pass TEST_PASS)))))"

section \<open>Replacing\<close>

definition test_ascii_replace_impl :: "string \<Rightarrow> bool \<Rightarrow> test_return test" where
  "test_ascii_replace_impl key noreply =
     (let buffer = snprintf 1024 (''replace '' @ key @ '' 0 0 5'' @ noreply_mark noreply @ crlf @ ''value'' @ crlf)
      in execute (send_string buffer) (
         reply_or_version noreply (''NOT_STORED'' @ crlf) (
         execute (ascii_set_item key ''value'') (
         execute (ascii_get_item key ''value'' True) (
         execute (send_string buffer) (
         reply_or_version noreply (''STORED'' @ crlf) test_ascii_version))))))"

definition test_ascii_cas_impl :: "string \<Rightarrow> bool \<Rightarrow> test_return test" where
  "test_ascii_cas_impl key noreply =
     execute (ascii_set_item key ''value'') (
     tbind (ascii_gets_item key ''value'' True 0) (\<lambda>cas.
     let buffer = snprintf 1024 (''cas '' @ key @ '' 0 0 6 '' @ decimal (unat cas) @ noreply_mark noreply @ crlf @
                                 ''value2'' @ crlf)
     in execute (send_string buffer) (
        reply_or_version noreply (''STORED'' @ crlf) (
        execute (send_string buffer) (
        reply_or_version noreply (''EXISTS'' @ crlf) test_ascii_version)))))"

definition test_ascii_delete_impl :: "string \<Rightarrow> bool \<Rightarrow> test_return test" where
  "test_ascii_delete_impl key noreply =
     execute (ascii_set_item key ''value'') (
     execute (send_string (''delete'' @ crlf)) (
     execute receive_error_response (
     execute (send_string (''delete a b c d e'' @ crlf)) (
     execute receive_error_response (
     let buffer = snprintf 1024 (''delete '' @ key @ noreply_mark noreply @ crlf)
     in execute (send_string buffer) (
        reply_or_version noreply (''DELETED'' @ crlf) (
        execute (ascii_get_item key ''value'' False) (
        execute (send_string buffer) (
        reply_or_version noreply (''NOT_FOUND'' @ crlf) (pass TEST_PASS))))))))))"

section \<open>Retrieval\<close>

definition test_ascii_get :: "test_return test" where
  "test_ascii_get =
     execute (ascii_set_item ''test_ascii_get'' ''value'') (
     execute (send_string (''get'' @ crlf)) (
     execute receive_error_response (
     execute (ascii_get_item ''test_ascii_get'' ''value'' True) (
     execute (ascii_get_item ''test_ascii_get_notfound'' ''value'' False) (
     pass TEST_PASS)))))"

definition test_ascii_gets :: "test_return test" where
  "test_ascii_gets =
     execute (ascii_set_item ''test_ascii_gets'' ''value'') (
     execute (send_string (''gets'' @ crlf)) (
     execute receive_error_response (
     tbind (ascii_gets_item ''test_ascii_gets'' ''value'' True 0) (\<lambda>cas.
     tbind (ascii_gets_item ''test_ascii_gets_notfound'' ''value'' False cas) (\<lambda>cas.
     pass TEST_PASS)))))"

definition mget_keys :: "string list" where
  "mget_keys = [''test_ascii_mget1'', ''test_ascii_mget2'', ''test_ascii_mget4'', ''test_ascii_mget5'',
     ''test_ascii_mget6'']"

fun set_items :: "string list \<Rightarrow> 'a test \<Rightarrow> 'a test" where
  "set_items [] m = m"
| "set_items (key # keys) m = execute (ascii_set_item key ''value'') (set_items keys m)"

text \<open>The loop that collects the keys of as many value blocks as were stored.\<close>

fun collect_values :: "nat \<Rightarrow> string list test" where
  "collect_values 0 = pass []"
| "collect_values (Suc n) =
     tbind ascii_get_unknown_value (\<lambda>(key, v, nbytes).
     verify (nbytes = 5) (
     verify (take 5 v = ''value'') (
     tbind (collect_values n) (\<lambda>keys. pass (key # keys)))))"

definition test_ascii_mget :: "test_return test" where
  "test_ascii_mget =
     set_items mget_keys (
     execute (send_string (''get test_ascii_mget1 test_ascii_mget2 test_ascii_mget3 '' @
        ''test_ascii_mget4 test_ascii_mget5 '' @ ''test_ascii_mget6'' @ crlf)) (
     tbind (collect_values (length mget_keys)) (\<lambda>returned.
     receive_end (
     verify (\<forall>key \<in> set mget_keys. key \<in> set returned) (pass TEST_PASS)))))"

section \<open>Arithmetic\<close>

text \<open>One request of the counting loops: the reply is the expected number, or the version answers.\<close>

definition count_step :: "string \<Rightarrow> bool \<Rightarrow> nat \<Rightarrow> 'a test \<Rightarrow> 'a test" where
  "count_step cmd noreply n m =
     execute (send_string cmd) (
     if noreply then execute test_ascii_version m
     else tbind (receive_line 80) (\<lambda>buffer. verify (atoi (c_str buffer) = of_nat n) m))"

fun count_steps :: "string \<Rightarrow> bool \<Rightarrow> nat list \<Rightarrow> 'a test \<Rightarrow> 'a test" where
  "count_steps cmd noreply [] m = m"
| "count_steps cmd noreply (n # ns) m = count_step cmd noreply n (count_steps cmd noreply ns m)"

definition test_ascii_incr_impl :: "string \<Rightarrow> bool \<Rightarrow> test_return test" where
  "test_ascii_incr_impl key noreply =
     (let cmd = snprintf 300 (''incr '' @ key @ '' 1'' @ noreply_mark noreply @ crlf)
      in execute (ascii_set_item key ''0'') (
         count_steps cmd noreply [1, 2, 3, 4, 5, 6, 7, 8, 9, 10] (
         execute (ascii_get_item key ''10'' True) (pass TEST_PASS))))"

definition test_ascii_decr_impl :: "string \<Rightarrow> bool \<Rightarrow> test_return test" where
  "test_ascii_decr_impl key noreply =
     (let cmd = snprintf 300 (''decr '' @ key @ '' 1'' @ noreply_mark noreply @ crlf)
      in execute (ascii_set_item key ''9'') (
         count_steps cmd noreply [8, 7, 6, 5, 4, 3, 2, 1, 0] (
         execute (ascii_get_item key ''0'' True) (
         execute (send_string cmd) (
         (if noreply then execute test_ascii_version else (\<lambda>m. tbind (receive_line 80) (\<lambda>_. m))) (
         execute (ascii_get_item key ''0'' True) (pass TEST_PASS)))))))"

section \<open>Flushing, appending and statistics\<close>

definition test_ascii_flush_impl :: "string \<Rightarrow> bool \<Rightarrow> test_return test" where
  "test_ascii_flush_impl key noreply =
     execute (ascii_set_item key key) (
     execute (ascii_get_item key key True) (
     (if noreply
      then (\<lambda>m. execute (send_string (''flush_all noreply'' @ crlf)) (execute test_ascii_version m))
      else (\<lambda>m. execute (send_string (''flush_all'' @ crlf)) (execute (receive_response (''OK'' @ crlf)) m))) (
     execute (ascii_get_item key key False) (pass TEST_PASS))))"

definition concat_cmd :: "bool \<Rightarrow> string \<Rightarrow> string \<Rightarrow> bool \<Rightarrow> string" where
  "concat_cmd isAppend key value noreply =
     snprintf 400 ((if isAppend then ''append'' else ''prepend'') @ '' '' @ key @ '' 0 0 '' @ decimal (length value) @
        noreply_mark noreply @ crlf @ value @ crlf)"

definition test_ascii_concat_impl :: "string \<Rightarrow> bool \<Rightarrow> bool \<Rightarrow> test_return test" where
  "test_ascii_concat_impl key isAppend noreply =
     (let value = (if isAppend then ''hello'' else '' world'')
      in execute (ascii_set_item key value) (
         let value = (if isAppend then '' world'' else ''hello'')
         in execute (send_string (concat_cmd isAppend key value noreply)) (
            reply_or_version noreply (''STORED'' @ crlf) (
            execute (ascii_get_item key ''hello world'' True) (
            execute (send_string (concat_cmd isAppend (key @ ''_notfound'') value noreply)) (
            reply_or_version noreply (''NOT_STORED'' @ crlf) (pass TEST_PASS)))))))"

text \<open>The lines of the statistics up to the end marker; fuel bounds their number.\<close>

fun stat_lines :: "nat \<Rightarrow> test_return test" where
  "stat_lines 0 x = Inl OutOfFuel"
| "stat_lines (Suc n) x =
     tbind (receive_line 1024) (\<lambda>buffer.
     if c_str buffer = ''END'' @ crlf then pass TEST_PASS_RECONNECT else stat_lines n) x"

definition test_ascii_stat :: "test_return test" where
  "test_ascii_stat =
     execute (send_string (''stats noreply'' @ crlf)) (
     execute receive_error_response (
     execute (send_string (''stats'' @ crlf)) (stat_lines 1000)))"

section \<open>The test program\<close>

type_synonym testcase = "string \<times> test_return test"

definition testcases :: "testcase list" where
  "testcases = [
     (''ascii quit'', test_ascii_quit),
     (''ascii version'', test_ascii_version),
     (''ascii verbosity'', test_ascii_verbosity),
     (''ascii set'', test_ascii_set_impl ''test_ascii_set'' False),
     (''ascii set noreply'', test_ascii_set_impl ''test_ascii_set_noreply'' True),
     (''ascii get'', test_ascii_get),
     (''ascii gets'', test_ascii_gets),
     (''ascii mget'', test_ascii_mget),
     (''ascii flush'', test_ascii_flush_impl ''test_ascii_flush'' False),
     (''ascii flush noreply'', test_ascii_flush_impl ''test_ascii_flush_noreply'' True),
     (''ascii add'', test_ascii_add_impl ''test_ascii_add'' False),
     (''ascii add noreply'', test_ascii_add_impl ''test_ascii_add_noreply'' True),
     (''ascii replace'', test_ascii_replace_impl ''test_ascii_replace'' False),
     (''ascii replace noreply'', test_ascii_replace_impl ''test_ascii_replace_noreply'' True),
     (''ascii cas'', test_ascii_cas_impl ''test_ascii_cas'' False),
     (''ascii cas noreply'', test_ascii_cas_impl ''test_ascii_cas_noreply'' True),
     (''ascii delete'', test_ascii_delete_impl ''test_ascii_delete'' False),
     (''ascii delete noreply'', test_ascii_delete_impl ''test_ascii_delete_noreply'' True),
     (''ascii incr'', test_ascii_incr_impl ''test_ascii_incr'' False),
     (''ascii incr noreply'', test_ascii_incr_impl ''test_ascii_incr_noreply'' True),
     (''ascii decr'', test_ascii_decr_impl ''test_ascii_decr'' False),
     (''ascii decr noreply'', test_ascii_decr_impl ''test_ascii_decr_noreply'' True),
     (''ascii append'', test_ascii_concat_impl ''test_ascii_append'' True False),
     (''ascii append noreply'', test_ascii_concat_impl ''test_ascii_append_noreply'' True True),
     (''ascii prepend'', test_ascii_concat_impl ''test_ascii_prepend'' False False),
     (''ascii prepend noreply'', test_ascii_concat_impl ''test_ascii_prepend_noreply'' False True),
     (''ascii stat'', test_ascii_stat)]"

text \<open>
  Closing the socket and connecting again: what was still on its way reaches the server before the
  new connection does.
\<close>

definition reconnect :: "wire \<Rightarrow> wire result" where
  "reconnect x =
     rbind (deliver x)
       (\<lambda>x. Inr (x\<lparr>w_conn := start_conn (cn_db (w_conn x)), w_closed := False, w_out := [], w_in := []\<rparr>))"

text \<open>The loop of \<open>main\<close>: the number of tests that failed.\<close>

fun run_tests :: "testcase list \<Rightarrow> nat \<Rightarrow> wire \<Rightarrow> (nat \<times> wire) result" where
  "run_tests [] failed x = Inr (failed, x)"
| "run_tests ((description, function) # ts) failed x =
     rbind (function x)
       (\<lambda>(ret, x).
          let failed = (if ret = None \<or> ret = Some TEST_FAIL then Suc failed else failed)
          in rbind (if ret = None \<or> ret = Some TEST_FAIL \<or> ret = Some TEST_PASS_RECONNECT then reconnect x else Inr x)
               (run_tests ts failed))"

text \<open>
  \<open>memcapable -a\<close>, or \<open>memcapable -a -T testname\<close>, on a connection that is open: the number of
  failures decides the exit status.
\<close>

definition memcapable_ascii :: "string option \<Rightarrow> wire \<Rightarrow> (nat \<times> wire) result" where
  "memcapable_ascii testname x =
     run_tests (filter (\<lambda>(description, _). testname = None \<or> testname = Some description) testcases) 0 x"

definition connect_to :: "(string \<Rightarrow> string list) \<Rightarrow> db \<Rightarrow> wire" where
  "connect_to net w = \<lparr>w_net = net, w_conn = start_conn w, w_closed = False, w_out = [], w_in = []\<rparr>"

end
