(* ===== verification/MemcapableWire.thy ===== *)
theory MemcapableWire
  imports Memcapable
begin

text \<open>
  What a test can rely on when it talks to the server: every request it writes is answered, and what
  it reads are the answers, in order, whatever the pieces the network makes of both. The interface
  is a locale, the helpers of the tests are treated in it once, and the model of the connection
  provides it.
\<close>

section \<open>Steps of a test\<close>

lemma tbind_eq [simp]: "m x = Inr (Some a, x') \<Longrightarrow> tbind m f x = f a x'"
  by (simp add: tbind_def)

lemma tbind_fail [simp]: "m x = Inr (None, x') \<Longrightarrow> tbind m f x = Inr (None, x')"
  by (simp add: tbind_def)

lemma pass_eq [simp]: "pass a x = Inr (Some a, x)"
  by (simp add: pass_def)

lemma verify_simps [simp]: "verify True m = m" "verify False m = fail"
  by (simp_all add: verify_def)

lemma fail_eq [simp]: "fail x = Inr (None, x)"
  by (simp add: fail_def)

lemma execute_eq [simp]: "e x = Inr (Some TEST_PASS, x') \<Longrightarrow> execute e m x = m x'"
  by (simp add: execute_def)

lemma execute_fail [simp]: "e x = Inr (None, x') \<Longrightarrow> execute e m x = Inr (None, x')"
  by (simp add: execute_def)

lemma retry_write_eq: "retry_write s x = Inr (Some TEST_PASS, x\<lparr>w_out := w_out x @ s\<rparr>)"
proof (induction s x rule: retry_write.induct)
  case (1 s x)
  then show ?case by (subst retry_write.simps) (auto simp: Let_def)
qed

lemma send_string_eq [simp]: "send_string s x = Inr (Some TEST_PASS, x\<lparr>w_out := w_out x @ s\<rparr>)"
  by (simp add: send_string_def retry_write_eq)

lemma c_str_id [simp]: "CHR 0x00 \<notin> set s \<Longrightarrow> c_str s = s"
  unfolding c_str_def by (subst takeWhile_eq_all_conv) auto

lemma snprintf_id [simp]: "length s < n \<Longrightarrow> snprintf n s = s"
  by (simp add: snprintf_def)

section \<open>The interface\<close>

text \<open>
  \<open>linked n inb s x\<close>: after at most \<open>n\<close> requests, the test will still read the bytes \<open>inb\<close>, and
  the server will then be in state \<open>s\<close>.
\<close>

locale text_link =
  fixes linked :: "nat \<Rightarrow> string \<Rightarrow> 's \<Rightarrow> wire \<Rightarrow> bool"
    and answer :: "frame \<Rightarrow> 's \<Rightarrow> string \<Rightarrow> 's \<Rightarrow> bool"
  assumes link_write: "linked n inb s x \<Longrightarrow> n < 1000 \<Longrightarrow> answer f s out s' \<Longrightarrow>
      linked (Suc n) (inb @ out) s' (x\<lparr>w_out := w_out x @ fst f @ snd f\<rparr>)"
    and link_read: "linked n inb s x \<Longrightarrow> 0 < len \<Longrightarrow> len \<le> length inb \<Longrightarrow>
      \<exists>x'. retry_read len x = Inr (Some (take len inb), x') \<and> linked n (drop len inb) s x'"
    and link_mono: "linked n inb s x \<Longrightarrow> n \<le> n' \<Longrightarrow> n' \<le> 1000 \<Longrightarrow> linked n' inb s x"
begin

lemma read_bytes:
  assumes "linked n (b @ rest) s x" and "b \<noteq> []" and "len = length b"
  shows "\<exists>x'. retry_read len x = Inr (Some b, x') \<and> linked n rest s x'"
  using link_read [OF assms(1), of "length b"] assms(2,3) by simp

lemma read_line:
  assumes "linked n (l @ CHR 0x0A # rest) s x" and "CHR 0x0A \<notin> set l" and "length l + 1 < m"
  shows "\<exists>x'. receive_line m x = Inr (Some (l @ [CHR 0x0A]), x') \<and> linked n rest s x'"
  using assms
proof (induction l arbitrary: m x)
  case Nil
  then obtain k where m: "m = Suc k" "0 < k" by (cases m) auto
  have "\<exists>x'. retry_read 1 x = Inr (Some [CHR 0x0A], x') \<and> linked n rest s x'"
    by (rule read_bytes) (use Nil in simp_all)
  then show ?case using m by auto
next
  case (Cons c l)
  then obtain k where m: "m = Suc k" "length l + 1 < k" by (cases m) auto
  have "\<exists>x'. retry_read 1 x = Inr (Some [c], x') \<and> linked n (l @ CHR 0x0A # rest) s x'"
    by (rule read_bytes) (use Cons in simp_all)
  then obtain x1 where x1: "retry_read 1 x = Inr (Some [c], x1)" "linked n (l @ CHR 0x0A # rest) s x1" by blast
  from Cons.IH [OF x1(2) _ m(2)] Cons.prems(2) obtain x2
    where "receive_line k x1 = Inr (Some (l @ [CHR 0x0A]), x2)" "linked n rest s x2" by auto
  then show ?case using m x1 Cons.prems(2) by auto
qed

text \<open>A reply line, with its line end.\<close>

lemma read_crlf_line:
  assumes "linked n (l @ crlf @ rest) s x" and "CHR 0x0A \<notin> set l" and "length l + 2 < m"
  shows "\<exists>x'. receive_line m x = Inr (Some (l @ crlf), x') \<and> linked n rest s x'"
  using read_line [of n "l @ [CHR 0x0D]" rest s x m] assms by (simp add: crlf_def)

lemma read_response:
  assumes "linked n (l @ crlf @ rest) s x" and "CHR 0x0A \<notin> set l" "CHR 0x00 \<notin> set l" and "length l + 2 < 80"
  shows "\<exists>x'. receive_response (l @ crlf) x = Inr (Some TEST_PASS, x') \<and> linked n rest s x'"
proof -
  have "c_str (l @ crlf) = l @ crlf" using assms(3) by (intro c_str_id) (simp add: crlf_def)
  then show ?thesis using read_crlf_line [OF assms(1,2,4)] by (auto simp: receive_response_def)
qed

lemma read_error:
  assumes "linked n (client_error msg @ rest) s x" and "CHR 0x0A \<notin> set msg" and "length msg < 60"
  shows "\<exists>x'. receive_error_response x = Inr (Some TEST_PASS, x') \<and> linked n rest s x'"
proof -
  let ?l = "''CLIENT_ERROR '' @ msg"
  have "linked n (?l @ crlf @ rest) s x" using assms(1) by (simp add: client_error_def)
  from read_crlf_line [OF this, of 80] assms(2,3) obtain x'
    where "receive_line 80 x = Inr (Some (?l @ crlf), x')" "linked n rest s x'" by auto
  then show ?thesis by (simp add: receive_error_response_def c_str_def)
qed

text \<open>A request and the reply to it.\<close>

lemma ask:
  assumes "linked n [] s x" and "n < 1000" and "answer (hdr, body) s out s'" and "msg = hdr @ body"
  shows "linked (Suc n) out s' (x\<lparr>w_out := w_out x @ msg\<rparr>)"
  using link_write [OF assms(1-3)] assms(4) by simp

lemma read_end:
  assumes "linked n (''END'' @ crlf @ rest) s x"
  shows "\<exists>x'. receive_end m x = m x' \<and> linked n rest s x'"
proof -
  have "linked n ((''END'' @ crlf) @ rest) s x" using assms by simp
  from read_bytes [OF this, of 5] show ?thesis by (auto simp: receive_end_def crlf_def)
qed

end

section \<open>The wire and the server\<close>

definition net_ok :: "(string \<Rightarrow> string list) \<Rightarrow> bool" where
  "net_ok net \<longleftrightarrow> (\<forall>s. concat (net s) = s \<and> [] \<notin> set (net s))"

definition wire_linked :: "nat \<Rightarrow> string \<Rightarrow> db \<Rightarrow> wire \<Rightarrow> bool" where
  "wire_linked n inb w x \<longleftrightarrow>
     net_ok (w_net x) \<and> \<not> w_closed x \<and> [] \<notin> set (w_in x) \<and> idle (w_conn x) \<and> cn_sent (w_conn x) = [] \<and>
     n \<le> 1000 \<and> length (w_out x) \<le> 500 * n \<and>
     (\<exists>fs outs. w_out x = flat fs \<and> (\<forall>f \<in> set fs. frame_ok f) \<and> serve fs (cn_db (w_conn x)) = Some (outs, w) \<and>
        inb = concat (w_in x) @ concat outs)"

lemma flat_append [simp]: "flat (fs @ gs) = flat fs @ flat gs"
  by (simp add: flat_def)

lemma serve_append:
  "serve fs w = Some (outs, w1) \<Longrightarrow> serve gs w1 = Some (outs', w2) \<Longrightarrow> serve (fs @ gs) w = Some (outs @ outs', w2)"
  by (induction fs arbitrary: w outs) (fastforce split: option.splits)+

lemma concat_concat_net:
  assumes "net_ok net"
  shows "concat (concat (map net outs)) = concat outs" and "[] \<notin> set (concat (map net outs))"
  using assms by (induction outs) (auto simp: net_ok_def)

lemma deliver_linked:
  assumes "wire_linked n inb w x" and "w_in x = []"
  shows "\<exists>x'. deliver x = Inr x' \<and> wire_linked n inb w x' \<and> concat (w_in x') = inb"
proof -
  from assms obtain fs outs where fs: "w_out x = flat fs" "\<forall>f \<in> set fs. frame_ok f"
    "serve fs (cn_db (w_conn x)) = Some (outs, w)" "inb = concat outs" and net: "net_ok (w_net x)"
    and x: "idle (w_conn x)" "cn_sent (w_conn x) = []" "\<not> w_closed x" "length (w_out x) \<le> 500 * n" "n \<le> 1000"
    by (auto simp: wire_linked_def)
  show ?thesis
  proof (cases "w_out x = []")
    case True
    then have "fs = []" using fs(1,2) frame_ok_nonempty [of "hd fs"] by (cases fs) (auto simp: flat_def split: prod.splits)
    with True assms fs show ?thesis by (simp add: deliver_def)
  next
    case False
    have cut: "concat (w_net x (w_out x)) = w_out x" "\<forall>k \<in> set (w_net x (w_out x)). k \<noteq> []"
      using net by (auto simp: net_ok_def)
    have "length (w_out x) < 2 ^ 32 - 3" using x(4,5) by simp
    with sockLoop_idle [OF x(1) _ fs(2) cut(2) _ fs(3), of WouldBlock] cut(1) fs(1) obtain c
      where c: "sockLoop (Suc (length (w_out x))) (w_net x (w_out x)) WouldBlock (w_conn x) = Inr (c, False)"
        "cn_sent c = outs" "cn_db c = w" "idle c" using x(2) by auto
    then show ?thesis
      using False x net fs(4) concat_concat_net [OF net, of outs]
      by (auto simp: deliver_def wire_linked_def idle_def intro!: exI [of _ "[] :: frame list"])
  qed
qed

lemma segment_linked:
  assumes "wire_linked n inb w x" and "w_in x = s # ss" and "0 < len"
  shows "timeout_io_op len x = Inr (IoBytes (take len s), x\<lparr>w_in := (if length s \<le> len then ss else drop len s # ss)\<rparr>)"
    and "wire_linked n (drop (min len (length s)) inb) w (x\<lparr>w_in := (if length s \<le> len then ss else drop len s # ss)\<rparr>)"
    and "take (min len (length s)) inb = take len s" and "s \<noteq> []"
  using assms by (auto simp: timeout_io_op_def wire_linked_def min_def)

lemma read_linked:
  assumes "wire_linked n inb w x" and "0 < len" and "len \<le> length inb"
  shows "\<exists>x'. retry_read len x = Inr (Some (take len inb), x') \<and> wire_linked n (drop len inb) w x'"
  using assms
proof (induction len arbitrary: inb x rule: less_induct)
  case (less len)
  define r where "r = (if w_in x = [] then deliver x else Inr x)"
  have "\<exists>x1. r = Inr x1 \<and> wire_linked n inb w x1 \<and> w_in x1 \<noteq> []"
  proof (cases "w_in x = []")
    case True
    with deliver_linked [OF less.prems(1)] less.prems(2,3) show ?thesis by (auto simp: r_def)
  qed (use less.prems(1) in \<open>simp add: r_def\<close>)
  then obtain x1 s ss where x1: "r = Inr x1" "wire_linked n inb w x1" "w_in x1 = s # ss" by (auto simp: neq_Nil_conv)
  have io: "timeout_io_op len x = timeout_io_op len x1"
    using x1 by (simp add: timeout_io_op_def r_def [symmetric])
  note seg = segment_linked [OF x1(2,3) less.prems(2)]
  let ?x2 = "x1\<lparr>w_in := (if length s \<le> len then ss else drop len s # ss)\<rparr>"
  show ?case
  proof (cases "length s < len")
    case False
    then show ?thesis using io seg less.prems(2) by (subst retry_read.simps) (auto simp: min_def)
  next
    case True
    have "\<exists>x'. retry_read (len - length s) ?x2 = Inr (Some (take (len - length s) (drop (length s) inb)), x') \<and>
        wire_linked n (drop (len - length s) (drop (length s) inb)) w x'"
      by (rule less.IH) (use True seg less.prems in \<open>auto simp: min_def\<close>)
    moreover have "s @ take (len - length s) (drop (length s) inb) = take len inb"
      using True seg(3) take_add [of "length s" "len - length s" inb] by (simp add: min_def)
    ultimately show ?thesis using io seg(1,4) True by (subst retry_read.simps) auto
  qed
qed

lemma write_linked:
  assumes "wire_linked n inb w x" and "n < 1000" and "frame_ok f" and "length (fst f @ snd f) \<le> 500"
    and "frame_reply f w = Some (out, w')"
  shows "wire_linked (Suc n) (inb @ out) w' (x\<lparr>w_out := w_out x @ fst f @ snd f\<rparr>)"
proof -
  from assms(1) obtain fs outs where fs: "w_out x = flat fs" "\<forall>f \<in> set fs. frame_ok f"
    "serve fs (cn_db (w_conn x)) = Some (outs, w)" "inb = concat (w_in x) @ concat outs" by (auto simp: wire_linked_def)
  have "serve [f] w = Some ([out], w')" using assms(5) by simp
  from serve_append [OF fs(3) this] fs assms show ?thesis
    by (cases f) (auto simp: wire_linked_def intro!: exI [of _ "fs @ [f]"] exI [of _ "outs @ [out]"])
qed

text \<open>A request the server answers, and what is left of it.\<close>

definition wire_answer :: "frame \<Rightarrow> db \<Rightarrow> string \<Rightarrow> db \<Rightarrow> bool" where
  "wire_answer f w out w' \<longleftrightarrow> frame_ok f \<and> length (fst f @ snd f) \<le> 500 \<and> frame_reply f w = Some (out, w')"

lemma linked_mono: "wire_linked n inb w x \<Longrightarrow> n \<le> n' \<Longrightarrow> n' \<le> 1000 \<Longrightarrow> wire_linked n' inb w x"
  by (auto simp: wire_linked_def)

interpretation wire: text_link wire_linked wire_answer
  by unfold_locales (auto simp: wire_answer_def intro: write_linked read_linked linked_mono)

section \<open>Leaving and coming back\<close>

lemma net_nothing: "net_ok net \<Longrightarrow> net [] = []"
  unfolding net_ok_def by (metis concat_eq_Nil_conv list.exhaust list.set_intros(1))

lemma outs_nothing: "net_ok net \<Longrightarrow> concat outs = [] \<Longrightarrow> concat (map net outs) = []"
  using net_nothing by (induction outs) auto

lemma nothing_to_read: "wire_linked n [] w x \<Longrightarrow> w_in x = []"
  by (cases "w_in x") (auto simp: wire_linked_def)

text \<open>Closing the socket oneself: the server has seen every request when the next connection comes.\<close>

lemma fresh_linked:
  assumes "net_ok (w_net x)" and "n \<le> 1000"
  shows "wire_linked n [] w (x\<lparr>w_conn := start_conn w, w_closed := False, w_out := [], w_in := []\<rparr>)"
  using assms idle_start [of w]
  by (auto simp: wire_linked_def flat_def start_conn_def intro!: exI [of _ "[] :: frame list"])

lemma settled_linked:
  assumes "wire_linked n inb w x" and "w_out x = []"
  shows "cn_db (w_conn x) = w"
proof -
  from assms obtain fs outs where fs: "[] = flat fs" "\<forall>f \<in> set fs. frame_ok f" "serve fs (cn_db (w_conn x)) = Some (outs, w)"
    by (auto simp: wire_linked_def)
  then have "fs = []" using frame_ok_nonempty [of "hd fs"] by (cases fs) (auto simp: flat_def split: prod.splits)
  with fs(3) show ?thesis by simp
qed

lemma reconnect_linked:
  assumes "wire_linked n [] w x"
  shows "\<exists>x'. reconnect x = Inr x' \<and> wire_linked n [] w x'"
proof -
  from deliver_linked [OF assms nothing_to_read [OF assms]] obtain x1
    where d: "deliver x = Inr x1" "wire_linked n [] w x1" by blast
  have o: "w_out x1 = [] \<or> w_closed x" using d(1) by (auto simp: deliver_def rbind_def simp del: sockLoop.simps split: sum.splits if_splits)
  then have "cn_db (w_conn x1) = w" using settled_linked [OF d(2)] assms by (auto simp: wire_linked_def)
  then show ?thesis using d fresh_linked [of x1 n w] by (auto simp: reconnect_def wire_linked_def)
qed

text \<open>Sending \<open>quit\<close>: the read behind it sees the connection closed.\<close>

lemma quit_linked:
  assumes "wire_linked n [] w x" and "n < 1000" and "frame_ok (hdr, [])" "length hdr \<le> 500" and "ends_conn (hdr, []) w w'"
  shows "\<exists>x' x''. timeout_io_op len (x\<lparr>w_out := w_out x @ hdr\<rparr>) = Inr (IoClosed, x') \<and>
     reconnect x' = Inr x'' \<and> wire_linked (Suc n) [] w' x''"
proof -
  from assms(1) obtain fs outs where fs: "w_out x = flat fs" "\<forall>f \<in> set fs. frame_ok f"
    "serve fs (cn_db (w_conn x)) = Some (outs, w)" "concat outs = []" and net: "net_ok (w_net x)"
    and x: "idle (w_conn x)" "cn_sent (w_conn x) = []" "\<not> w_closed x" "length (w_out x) \<le> 500 * n" "n \<le> 1000"
    by (auto simp: wire_linked_def)
  let ?o = "w_out x @ hdr"
  have o: "?o = flat (fs @ [(hdr, [])])" using fs(1) by (simp add: flat_def)
  have cut: "concat (w_net x ?o) = ?o" "\<forall>k \<in> set (w_net x ?o). k \<noteq> []" using net by (auto simp: net_ok_def)
  have ok: "\<forall>f \<in> set (fs @ [(hdr, [])]). frame_ok f" using fs(2) assms(3) by simp
  have "length (concat (w_net x ?o)) < 2 ^ 32 - 3" using x(4,5) assms(4) cut(1) by simp
  with sockLoop_quit [OF x(1) _ ok cut(2) _ fs(3) assms(5), of WouldBlock] cut(1) o x(2) obtain c
    where c: "sockLoop (Suc (length ?o)) (w_net x ?o) WouldBlock (w_conn x) = Inr (c, True)"
      "cn_sent c = outs" "cn_db c = w'" by auto
  have ne: "?o \<noteq> []" using assms(3) by (auto simp: frame_ok_def crlf_def)
  let ?x = "x\<lparr>w_out := [], w_conn := c\<lparr>cn_sent := []\<rparr>, w_closed := True, w_in := []\<rparr>"
  have d: "deliver (x\<lparr>w_out := ?o\<rparr>) = Inr ?x"
    using c x(3) ne outs_nothing [OF net fs(4)] by (auto simp: deliver_def simp del: sockLoop.simps)
  have io: "timeout_io_op len (x\<lparr>w_out := ?o\<rparr>) = Inr (IoClosed, ?x)"
    using d nothing_to_read [OF assms(1)] by (simp add: timeout_io_op_def)
  have "deliver ?x = Inr ?x" by (simp add: deliver_def)
  then have "reconnect ?x = Inr (?x\<lparr>w_conn := start_conn w', w_closed := False, w_out := [], w_in := []\<rparr>)"
    using c(3) by (simp add: reconnect_def)
  with io show ?thesis using fresh_linked [of ?x "Suc n" w'] net assms(2) by simp
qed

end
