(* ===== verification/MemcapableValues.thy ===== *)
theory MemcapableValues
  imports MemcapableWire
begin

text \<open>
  Reading value blocks: the numbers of a \<open>VALUE\<close> line are found by \<open>strtoul\<close> where the server
  printed them, so the helpers of the tests accept the block of a stored value.
\<close>

section \<open>Numbers\<close>

lemma strtoul_decimal:
  assumes "n < 2 ^ LENGTH('a::len)" and "\<not> is_digit c"
  shows "strtoul (decimal n @ c # r) = (of_nat n :: 'a word, c # r)"
    and "strtoul (CHR '' '' # decimal n @ c # r) = (of_nat n :: 'a word, c # r)"
proof -
  obtain d ds where d: "decimal n = d # ds" using decimal_nonempty list.exhaust by blast
  have dig: "\<forall>x \<in> set (d # ds). is_digit x" using decimal_digits d by metis
  then have "\<not> is_space d" "d \<noteq> CHR ''-''" "d \<noteq> CHR ''+''" using is_digit_not_special by auto
  moreover have "takeWhile is_digit (d # ds @ c # r) = d # ds" "dropWhile is_digit (d # ds @ c # r) = c # r"
    using dig assms(2) by (simp_all add: takeWhile_append2 dropWhile_append2)
  moreover have "digits_val (d # ds) = n" using digits_val_decimal [of n] d by simp
  moreover have "is_space (CHR '' '')" by (simp add: is_space_def)
  ultimately show "strtoul (decimal n @ c # r) = (of_nat n :: 'a word, c # r)"
    "strtoul (CHR '' '' # decimal n @ c # r) = (of_nat n :: 'a word, c # r)"
    using assms(1) by (simp_all add: strtoul_def d Let_def)
qed

lemma atoi_line: "n < 2 ^ 31 \<Longrightarrow> atoi (decimal n @ crlf) = of_nat n"
proof -
  assume n: "n < 2 ^ 31"
  obtain d ds where d: "decimal n = d # ds" using decimal_nonempty list.exhaust by blast
  have dig: "\<forall>x \<in> set (d # ds). is_digit x" using decimal_digits d by metis
  then have "\<not> is_space d" "d \<noteq> CHR ''-''" "d \<noteq> CHR ''+''" using is_digit_not_special by auto
  moreover have "takeWhile is_digit (d # ds @ crlf) = d # ds"
    using dig by (simp add: takeWhile_append2 crlf_def is_digit_def)
  moreover have "digits_val (d # ds) = n" using digits_val_decimal [of n] d by simp
  ultimately show ?thesis using n by (simp add: atoi_def Let_def d)
qed

lemma decimal_plain: "CHR 0x0A \<notin> set (decimal n)" "CHR 0x00 \<notin> set (decimal n)"
  using decimal_digits [of "CHR 0x0A" n] decimal_digits [of "CHR 0x00" n] by (auto simp: is_digit_def)

lemma decimal_0: "decimal 0 = ''0''"
  by code_simp

lemma blanks_end: "at_newline (skip_blanks crlf)"
  by (simp add: at_newline_def skip_blanks_def crlf_def is_space_def)

section \<open>Value blocks\<close>

text \<open>What a key and a value look like that the tests can read back.\<close>

definition plain_key :: "string \<Rightarrow> bool" where
  "plain_key key \<longleftrightarrow> CHR '' '' \<notin> set key \<and> CHR 0x0A \<notin> set key \<and> CHR 0x00 \<notin> set key \<and> length key \<le> 40"

definition plain_value :: "string \<Rightarrow> bool" where
  "plain_value val \<longleftrightarrow> val \<noteq> [] \<and> length val \<le> 100"

definition value_line :: "string \<Rightarrow> nat \<Rightarrow> string \<Rightarrow> string" where
  "value_line key n cas = ''VALUE '' @ key @ '' 0 '' @ decimal n @ cas"

lemma value_line_read:
  assumes "plain_key key" and "n \<le> 100" and "CHR 0x0A \<notin> set cas" "CHR 0x00 \<notin> set cas" and "length cas \<le> 21"
  shows "CHR 0x0A \<notin> set (value_line key n cas)" "length (value_line key n cas) + 2 < 1024"
    "c_str (value_line key n cas @ crlf) = value_line key n cas @ crlf"
    "drop (6 + length key + 1) (value_line key n cas @ crlf) = decimal 0 @ CHR '' '' # decimal n @ cas @ crlf"
    "drop 6 (value_line key n cas @ crlf) = key @ CHR '' '' # decimal 0 @ CHR '' '' # decimal n @ cas @ crlf"
proof -
  have "length (decimal n) \<le> 3" using assms(2) by (intro length_decimal_le) simp_all
  then show "length (value_line key n cas) + 2 < 1024" using assms(1,5) by (simp add: value_line_def plain_key_def)
  show "CHR 0x0A \<notin> set (value_line key n cas)"
    using assms(1,3) decimal_plain by (simp add: value_line_def plain_key_def)
  show "c_str (value_line key n cas @ crlf) = value_line key n cas @ crlf"
    using assms(1,4) decimal_plain by (intro c_str_id) (simp add: value_line_def plain_key_def crlf_def)
  have split: "value_line key n cas @ crlf = (''VALUE '' @ key @ '' '') @ decimal 0 @ CHR '' '' # decimal n @ cas @ crlf"
    by (simp add: value_line_def decimal_0)
  have "6 + length key + 1 = length (''VALUE '' @ key @ '' '')" by simp
  then show "drop (6 + length key + 1) (value_line key n cas @ crlf) = decimal 0 @ CHR '' '' # decimal n @ cas @ crlf"
    unfolding split by (simp only: append_eq_conv_conj [symmetric]) simp
  show "drop 6 (value_line key n cas @ crlf) = key @ CHR '' '' # decimal 0 @ CHR '' '' # decimal n @ cas @ crlf"
    unfolding split by simp
qed

context text_link
begin

lemma read_value:
  assumes "linked n (value_line key (length val) [] @ crlf @ val @ crlf @ rest) s x" and "plain_key key" and "plain_value val"
  shows "\<exists>x'. ascii_get_value key val x = Inr (Some TEST_PASS, x') \<and> linked n rest s x'"
proof -
  let ?l = "value_line key (length val) []"
  have len: "length val \<le> 100" using assms(3) by (simp add: plain_value_def)
  note l = value_line_read [OF assms(2) len, of "[]"]
  from read_crlf_line [OF assms(1), of 1024] l(1,2) obtain x1
    where x1: "receive_line 1024 x = Inr (Some (?l @ crlf), x1)" "linked n (val @ crlf @ rest) s x1" by auto
  from read_bytes [OF x1(2), of "length val"] assms(3) obtain x2
    where x2: "retry_read (length val) x1 = Inr (Some val, x2)" "linked n (crlf @ rest) s x2" by (auto simp: plain_value_def)
  from read_bytes [OF x2(2), of 2] obtain x3
    where x3: "retry_read 2 x2 = Inr (Some crlf, x3)" "linked n rest s x3" by (auto simp: crlf_def)
  have p1: "strtoul (decimal 0 @ CHR '' '' # decimal (length val) @ crlf) =
      (0 :: uint, CHR '' '' # decimal (length val) @ crlf)"
    using strtoul_decimal(1) [where 'a = 32, of 0 "CHR '' ''"] by (simp add: is_digit_def)
  have p2: "strtoul (CHR '' '' # decimal (length val) @ crlf) = (of_nat (length val) :: uint, crlf)"
    using strtoul_decimal(2) [where 'a = 32, of "length val" "CHR 0x0D"] len by (simp add: is_digit_def crlf_def)
  have pre: "prefix ''VALUE '' (?l @ crlf)" "prefix key (key @ CHR '' '' # decimal 0 @ CHR '' '' # decimal (length val) @ crlf)"
    by (simp_all add: value_line_def)
  have "ascii_get_value key val x = Inr (Some TEST_PASS, x3)"
    unfolding ascii_get_value_def Let_def
    using x1(1) x2(1) x3(1) len l(3-5) p1 p2 pre blanks_end by simp
  with x3(2) show ?thesis by blast
qed

lemma read_gets_value:
  assumes "linked n (value_line key (length val) ('' '' @ decimal (unat cas)) @ crlf @ val @ crlf @ rest) s x"
    and "plain_key key" and "plain_value val"
  shows "\<exists>x'. ascii_gets_value key val x = Inr (Some (cas :: u64), x') \<and> linked n rest s x'"
proof -
  let ?c = "decimal (unat cas)"
  let ?l = "value_line key (length val) ('' '' @ ?c)"
  have len: "length val \<le> 100" using assms(3) by (simp add: plain_value_def)
  have cl: "length ('' '' @ ?c) \<le> 21" using length_to_string64 [of cas] by (simp add: to_string_def)
  note l = value_line_read [OF assms(2) len _ _ cl, simplified, OF decimal_plain]
  from read_crlf_line [OF assms(1), of 1024] l(1,2) obtain x1
    where x1: "receive_line 1024 x = Inr (Some (?l @ crlf), x1)" "linked n (val @ crlf @ rest) s x1" by auto
  from read_bytes [OF x1(2), of "length val"] assms(3) obtain x2
    where x2: "retry_read (length val) x1 = Inr (Some val, x2)" "linked n (crlf @ rest) s x2" by (auto simp: plain_value_def)
  from read_bytes [OF x2(2), of 2] obtain x3
    where x3: "retry_read 2 x2 = Inr (Some crlf, x3)" "linked n rest s x3" by (auto simp: crlf_def)
  have p1: "strtoul (decimal 0 @ CHR '' '' # decimal (length val) @ CHR '' '' # ?c @ crlf) =
      (0 :: uint, CHR '' '' # decimal (length val) @ CHR '' '' # ?c @ crlf)"
    using strtoul_decimal(1) [where 'a = 32, of 0 "CHR '' ''"] by (simp add: is_digit_def)
  have p2: "strtoul (CHR '' '' # decimal (length val) @ CHR '' '' # ?c @ crlf) =
      (of_nat (length val) :: uint, CHR '' '' # ?c @ crlf)"
    using strtoul_decimal(2) [where 'a = 32, of "length val" "CHR '' ''"] len by (simp add: is_digit_def)
  have "unat cas < 2 ^ LENGTH(64)" using unsigned_less [of cas] by simp
  then have p3: "strtoul (CHR '' '' # ?c @ crlf) = (cas, crlf)"
    using strtoul_decimal(2) [where 'a = 64, of "unat cas" "CHR 0x0D" "[CHR 0x0A]"] by (simp add: is_digit_def crlf_def)
  have pre: "prefix ''VALUE '' (?l @ crlf)"
    "prefix key (key @ CHR '' '' # decimal 0 @ CHR '' '' # decimal (length val) @ CHR '' '' # ?c @ crlf)"
    by (simp_all add: value_line_def)
  have "ascii_gets_value key val x = Inr (Some cas, x3)"
    unfolding ascii_gets_value_def Let_def
    using x1(1) x2(1) x3(1) len l(3-5) p1 p2 p3 pre blanks_end by simp
  with x3(2) show ?thesis by blast
qed

lemma read_unknown_value:
  assumes "linked n (value_line key (length val) [] @ crlf @ val @ crlf @ rest) s x" and "plain_key key" and "plain_value val"
  shows "\<exists>x'. ascii_get_unknown_value x = Inr (Some (key, val, of_nat (length val)), x') \<and> linked n rest s x'"
proof -
  let ?l = "value_line key (length val) []"
  have len: "length val \<le> 100" using assms(3) by (simp add: plain_value_def)
  note l = value_line_read [OF assms(2) len, of "[]"]
  from read_crlf_line [OF assms(1), of 1024] l(1,2) obtain x1
    where x1: "receive_line 1024 x = Inr (Some (?l @ crlf), x1)" "linked n (val @ crlf @ rest) s x1" by auto
  from read_bytes [OF x1(2), of "length val"] assms(3) obtain x2
    where x2: "retry_read (length val) x1 = Inr (Some val, x2)" "linked n (crlf @ rest) s x2" by (auto simp: plain_value_def)
  from read_bytes [OF x2(2), of 2] obtain x3
    where x3: "retry_read 2 x2 = Inr (Some crlf, x3)" "linked n rest s x3" by (auto simp: crlf_def)
  have p1: "strtoul (decimal 0 @ CHR '' '' # decimal (length val) @ crlf) =
      (0 :: uint, CHR '' '' # decimal (length val) @ crlf)"
    using strtoul_decimal(1) [where 'a = 32, of 0 "CHR '' ''"] by (simp add: is_digit_def)
  have p2: "strtoul (CHR '' '' # decimal (length val) @ crlf) = (of_nat (length val) :: uint, crlf)"
    using strtoul_decimal(2) [where 'a = 32, of "length val" "CHR 0x0D"] len by (simp add: is_digit_def crlf_def)
  have key: "takeWhile (\<lambda>c. c \<noteq> CHR '' '') (key @ CHR '' '' # r) = key" for r
    using assms(2) by (auto simp: plain_key_def takeWhile_tail)
  have pre: "prefix ''VALUE '' (?l @ crlf)" by (simp add: value_line_def)
  have skip: "drop (Suc (length key)) (key @ c # r) = r" for c :: char and r by simp
  have u: "unat (of_nat (length val) :: uint) = length val" using len by (intro unat_of_nat32) simp
  have "ascii_get_unknown_value x = Inr (Some (key, val, of_nat (length val)), x3)"
    unfolding ascii_get_unknown_value_def Let_def
    using x1(1) x2(1) x3(1) l(3,5) p1 p2 pre blanks_end key u skip by (simp del: drop_append drop_drop)
  with x3(2) show ?thesis by blast
qed

end

end
