(* ===== verification/DbEntries.thy ===== *)
theory DbEntries
  imports CmdArith
begin

text \<open>
  The storage within one second and with room to spare, followed entry by entry: which keys have an
  entry, with which value and timestamp, when the last flush was, how much is stored and how many
  CAS identifiers were made up. Each operation is an equation on that content.
\<close>

section \<open>The content\<close>

definition entries :: "db \<Rightarrow> string \<rightharpoonup> MapEntry" where
  "entries w key = gKeyToValueHashMap w (getHashTblNbrFromKey key) key"

lemma entries_writes [simp]:
  "entries (kv_put (getHashTblNbrFromKey key) key it w) = (entries w)(key \<mapsto> it)"
  "entries (kv_erase (getHashTblNbrFromKey key) key w) = (entries w)(key := None)"
  "entries (ts_update h f w) = entries w" "entries (stored_sub m w) = entries w" "entries (stored_add m w) = entries w"
  "entries (tick w) = entries w" "entries (bump w) = entries w" "entries (insert_start w) = entries w"
  by (auto simp: entries_def fun_eq_iff)

text \<open>The generator of the identifiers after a number of insertions, the first of them in second \<open>t\<close>.\<close>

fun gen_at :: "ulong \<Rightarrow> nat \<Rightarrow> mt_state option" where
  "gen_at t 0 = None"
| "gen_at t (Suc i) = Some (snd (mt_next (case gen_at t i of None \<Rightarrow> mt_seed (ucast t) | Some g \<Rightarrow> g)))"

definition cas_at :: "ulong \<Rightarrow> nat \<Rightarrow> string" where
  "cas_at t i = to_string (fst (mt_next (case gen_at t i of None \<Rightarrow> mt_seed (ucast t) | Some g \<Rightarrow> g)))"

lemma insert_cas_at:
  assumes "casGenerator w = gen_at t i" and "now w = t"
  shows "insert_cas w = cas_at t i" and "casGenerator (insert_start w) = gen_at t (Suc i)"
  using assms by (simp_all add: insert_cas_def insert_start_def insertCas_def cas_at_def Let_def case_prod_beta)

lemma length_cas_at: "length (cas_at t i) \<le> 20"
  using length_to_string64 by (simp add: cas_at_def)

text \<open>The bytes an overwrite gives back, and all of them.\<close>

definition esize :: "MapEntry \<Rightarrow> nat" where
  "esize it = length (vs_casUniq (fst it)) + length (vs_flags (fst it)) + length (vs_value (fst it))"

definition entry_total :: "(string \<rightharpoonup> MapEntry) \<Rightarrow> nat" where
  "entry_total E = (\<Sum>k\<in>dom E. esize (the (E k)))"

lemma total_remove:
  assumes "finite (dom E)" and "E k = Some it"
  shows "entry_total E = entry_total (E(k := None)) + esize it"
proof -
  have k: "k \<in> dom E" using assms(2) by blast
  have "entry_total E = esize (the (E k)) + (\<Sum>j\<in>dom E - {k}. esize (the (E j)))"
    unfolding entry_total_def by (rule sum.remove [OF assms(1) k])
  also have "(\<Sum>j\<in>dom E - {k}. esize (the (E j))) = entry_total (E(k := None))"
    unfolding entry_total_def by (intro sum.cong) auto
  finally show ?thesis using assms(2) by simp
qed

lemma total_upd: "finite (dom E) \<Longrightarrow> entry_total (E(k \<mapsto> it)) = entry_total (E(k := None)) + esize it"
  using total_remove [of "E(k \<mapsto> it)" k it] by simp

lemma total_erase: "finite (dom E) \<Longrightarrow> entry_total (E(k := None)) \<le> entry_total E"
  using total_remove [of E k] by (cases "E k") (simp_all add: fun_upd_idem)

lemma total_new: "finite (dom E) \<Longrightarrow> E k = None \<Longrightarrow> entry_total (E(k \<mapsto> it)) = entry_total E + esize it"
  by (simp add: total_upd fun_upd_idem)

text \<open>
  \<open>serving t c i m E F w\<close>: in second \<open>t\<close>, with at most \<open>c\<close> timestamps used, \<open>i\<close> identifiers made
  and \<open>m\<close> bytes stored, the entries are \<open>E\<close> and the last flush was at timestamp \<open>F\<close>.
\<close>

definition serving :: "ulong \<Rightarrow> nat \<Rightarrow> nat \<Rightarrow> nat \<Rightarrow> (string \<rightharpoonup> MapEntry) \<Rightarrow> ulong \<Rightarrow> db \<Rightarrow> bool" where
  "serving t c i m E F w \<longleftrightarrow>
     db_wf w \<and> same_second w t \<and> unat (gTimestamp w) \<le> c \<and> \<not> gIsFlushAllSet w \<and> \<not> badAlloc w \<and>
     gServMemLimit w = SERV_DEF_MEM_LIMIT \<and> unat (gStoredSize w) \<le> m \<and> casGenerator w = gen_at t i \<and>
     entries w = E \<and> gFlushAllTimestamp w = F \<and> finite (dom E) \<and> entry_total E \<le> unat (gStoredSize w)"

lemma serving_mono: "serving t c i m E F w \<Longrightarrow> c \<le> c' \<Longrightarrow> m \<le> m' \<Longrightarrow> serving t c' i m' E F w"
  by (auto simp: serving_def)

lemma serving_now: "serving t c i m E F w \<Longrightarrow> now w = t"
  by (simp add: serving_def same_second_now)

lemma serving_steady: "serving t c i m E F w \<Longrightarrow> c + n < 2 ^ 32 \<Longrightarrow> steady_at t n w"
  by (auto simp: serving_def steady_at_def)

lemma serving_initial: "(\<forall>i. clk i = t) \<Longrightarrow> serving t 0 0 0 Map.empty 0 (initial_db clk)"
  using initial_db_wf [of clk]
  by (simp add: serving_def entry_total_def entries_def fun_eq_iff) (simp add: same_second_def initial_db_def)

lemma serving_tick: "serving t c i m E F w \<Longrightarrow> serving t c i m E F (tick w)"
  by (auto simp: serving_def same_second_def db_wf_def db_wf_at_def)

text \<open>Not every entry is visible: it may have expired or be older than the last flush.\<close>

definition alive :: "ulong \<Rightarrow> ulong \<Rightarrow> MapEntry \<Rightarrow> bool" where
  "alive t F it \<longleftrightarrow> t \<le> vs_expiry (fst it) \<and> F \<le> snd it"

lemma serving_dead: "serving t c i m E F w \<Longrightarrow> entry_dead t w it \<longleftrightarrow> \<not> alive t F it"
  by (auto simp: serving_def entry_dead_def alive_def get_defs not_less)

lemma serving_view:
  "serving t c i m E F w \<Longrightarrow>
   db_view t w key = (case E key of None \<Rightarrow> None | Some it \<Rightarrow> if alive t F it then Some (fst it) else None)"
  using serving_dead [of t c i m E F w] by (auto simp: db_view_def serving_def entries_def split: option.split)

lemma serving_stamp:
  assumes "serving t c i m E F w" and "c < 2 ^ 31"
  shows "gTimestamp w \<noteq> - 1" and "unat (gTimestamp w + 1) = unat (gTimestamp w) + 1" and "F \<le> gTimestamp w"
proof -
  have small: "unat (gTimestamp w) + 1 < 2 ^ 32" using assms by (auto simp: serving_def)
  then show "gTimestamp w \<noteq> - 1" using not_minus_one32 [of "unat (gTimestamp w)"] by auto
  show "unat (gTimestamp w + 1) = unat (gTimestamp w) + 1" using unat_add32 [of "gTimestamp w" 1] small by simp
  show "F \<le> gTimestamp w" using assms(1) by (auto simp: serving_def db_wf_def db_wf_at_def)
qed

lemma serving_room:
  "serving t c i m E F w \<Longrightarrow> m + 2 * length key + length flags + length val + 32 < 7000 \<Longrightarrow> room w key flags val"
  by (auto simp: serving_def room_def SERV_DEF_MEM_LIMIT_def)

section \<open>Look-up and deletion\<close>

lemma get_hit:
  assumes "serving t c i m E F w" and "c < 2 ^ 31" and "E key = Some (v, T)" and "alive t F (v, T)"
  shows "\<exists>w' T'. dbGetElement key out w = (SUCCESS, \<lparr>go_flags = vs_flags v, go_cas = vs_casUniq v,
       go_value = vs_value v, go_expiry = vs_expiry v - t\<rparr>, w') \<and>
     serving t (Suc c) i m (E(key \<mapsto> (v, T'))) F w' \<and> F \<le> T'"
proof -
  obtain st out' w' where g: "dbGetElement key out w = (st, out', w')" by (metis prod_cases3)
  note stamp = serving_stamp [OF assms(1,2)]
  have wf: "db_wf w'" using db_wf_get [OF g] assms(1) stamp(1) by (simp add: serving_def)
  have it: "gKeyToValueHashMap w (getHashTblNbrFromKey key) key = Some (v, T)"
    using assms(1,3) by (auto simp: serving_def entries_def)
  have live: "\<not> entry_dead t w (v, T)" using serving_dead [OF assms(1)] assms(4) by simp
  have *: "(st, out', w') = (SUCCESS, \<lparr>go_flags = vs_flags v, go_cas = vs_casUniq v, go_value = vs_value v,
      go_expiry = vs_expiry v - t\<rparr>, ts_update (getHashTblNbrFromKey key)
        (\<lambda>s. ts_insert \<lparr>tk_timestamp = gTimestamp w, tk_key = key\<rparr>
               (ts_erase \<lparr>tk_timestamp = T, tk_key = key\<rparr> s))
        (kv_put (getHashTblNbrFromKey key) key (v, gTimestamp w) (bump w)))"
    using g it live serving_now [OF assms(1)]
    by (simp add: dbGetElement_def Let_def entry_dead_def get_defs setTimestampToMap_def bump_def tick_def)
  have e: "entries w' = E(key \<mapsto> (v, gTimestamp w))" "casGenerator w' = gen_at t i"
    using * assms(1) by (simp_all add: serving_def)
  have "entry_total (E(key \<mapsto> (v, gTimestamp w))) = entry_total E"
    using total_upd [of E key] total_remove [of E key, OF _ assms(3)] assms(1) by (simp add: serving_def esize_def)
  then have "serving t (Suc c) i m (E(key \<mapsto> (v, gTimestamp w))) F w'"
    using assms(1) dbGetElement_frame [OF g] wf e stamp(2) by (auto simp: serving_def same_second_def)
  with * g stamp(3) show ?thesis by auto
qed

lemma get_miss:
  assumes "serving t c i m E F w" and "c < 2 ^ 31" and "E key = None \<or> (\<exists>it. E key = Some it \<and> \<not> alive t F it)"
  shows "\<exists>w'. dbGetElement key out w = (NOT_EXIST, out, w') \<and> serving t (Suc c) i m (E(key := None)) F w'"
proof -
  obtain st out' w' where g: "dbGetElement key out w = (st, out', w')" by (metis prod_cases3)
  note stamp = serving_stamp [OF assms(1,2)]
  have wf: "db_wf w'" using db_wf_get [OF g] assms(1) stamp(1) by (simp add: serving_def)
  have eE: "gKeyToValueHashMap w (getHashTblNbrFromKey key) key = E key"
    using assms(1) by (auto simp: serving_def entries_def)
  have w: "(tick w)\<lparr>gTimestamp := gTimestamp (tick w) + 1\<rparr> = bump w" by (simp add: bump_def tick_def)
  have *: "st = NOT_EXIST \<and> out' = out \<and> (w' = bump w \<and> E key = None \<or> w' = kv_erase (getHashTblNbrFromKey key) key (bump w))"
    using g [unfolded dbGetElement_def Let_def w, symmetric] eE assms(3) serving_dead [OF assms(1)] serving_now [OF assms(1)]
    by (auto split: option.splits)
  have e: "entries w' = E(key := None)" "casGenerator w' = gen_at t i"
    using * assms(1) by (auto simp: serving_def fun_upd_idem)
  have "serving t (Suc c) i m (E(key := None)) F w'"
    using assms(1) dbGetElement_frame [OF g] wf e stamp(2) total_erase [of E key] by (auto simp: serving_def same_second_def)
  with * g show ?thesis by auto
qed

lemma delete_hit:
  assumes "serving t c i m E F w" and "E key = Some it" and "alive t F it"
  shows "\<exists>w'. dbDeleteElement key 0 w = (SUCCESS, w') \<and> serving t c i m (E(key := None)) F w'"
proof -
  let ?w = "kv_erase (getHashTblNbrFromKey key) key (tick w)"
  have "gKeyToValueHashMap w (getHashTblNbrFromKey key) key = Some it"
    using assms(1,2) by (auto simp: serving_def entries_def)
  moreover have "\<not> entry_dead t w it" using serving_dead [OF assms(1)] assms(3) by simp
  ultimately have d: "dbDeleteElement key 0 w = (SUCCESS, ?w)"
    using serving_now [OF assms(1)] by (simp add: dbDeleteElement_def Let_def)
  have "db_wf ?w" using dbDeleteElement_wf [of w key 0] d assms(1) by (simp add: serving_def)
  then have "serving t c i m (E(key := None)) F ?w"
    using assms(1) total_erase [of E key] by (auto simp: serving_def same_second_def)
  with d show ?thesis by blast
qed

lemma delete_miss:
  assumes "serving t c i m E F w" and "E key = None"
  shows "\<exists>w'. dbDeleteElement key 0 w = (NOT_EXIST, w') \<and> serving t c i m E F w'"
proof -
  have "gKeyToValueHashMap w (getHashTblNbrFromKey key) key = None"
    using assms by (auto simp: serving_def entries_def)
  then have "dbDeleteElement key 0 w = (NOT_EXIST, tick w)" by (simp add: dbDeleteElement_def Let_def)
  then show ?thesis using serving_tick [OF assms(1)] by blast
qed

section \<open>Insertion\<close>

text \<open>The stored size after an overwrite: what the entry gave up is taken off first.\<close>

lemma stored_overwrite:
  fixes S :: ulong
  assumes "old \<le> unat S" and "unat S + new < 2 ^ 32"
  shows "unat (S - (of_nat old - of_nat new)) = unat S - old + new"
proof -
  have eq: "S - (of_nat old - of_nat new) = of_nat (unat S - old + new)"
    using assms(1) by (simp add: of_nat_diff algebra_simps)
  show ?thesis unfolding eq using assms by (intro unat_of_nat32) simp
qed

lemma size_diff:
  "str_size c1 - str_size c2 + str_size f1 - str_size f2 + str_size v1 - str_size v2 =
   of_nat (length c1 + length f1 + length v1) - of_nat (length c2 + length f2 + length v2)"
  by (simp add: str_size_def)

text \<open>What every insertion leaves, whatever it stored.\<close>

lemma serving_insert:
  assumes "serving t c i m E F w" and "c < 2 ^ 31" and "dbInsertElement key flags cas val e w = Inr (st, w')"
    and "gServMemLimit w' = gServMemLimit w" "badAlloc w' = badAlloc w" "gFlushAllTimestamp w' = gFlushAllTimestamp w"
    and "casGenerator w' = gen_at t (Suc i)" and "entries w' = E'" and "unat (gStoredSize w') \<le> m'"
    and "finite (dom E')" "entry_total E' \<le> unat (gStoredSize w')"
  shows "serving t (Suc c) (Suc i) m' E' F w'"
proof -
  note stamp = serving_stamp [OF assms(1,2)]
  have "db_wf w'" using dbInsertElement_wf [OF assms(3)] assms(1) stamp(1) by (simp add: serving_def)
  then show ?thesis
    using assms dbInsertElement_frame [OF assms(3)] stamp(2) by (auto simp: serving_def same_second_def)
qed

lemma insert_new:
  assumes "serving t c i m E F w" and "c < 2 ^ 31" and "E key = None"
    and "m + 2 * length key + length flags + length val + 32 < 7000"
  shows "\<exists>w' T. dbInsertElement key flags [] val 0 w = Inr (SUCCESS, w') \<and>
     serving t (Suc c) (Suc i) (m + 2 * length key + length flags + length val + 32)
       (E(key \<mapsto> (\<lparr>vs_expiry = ULONG_MAX, vs_value = val, vs_flags = flags, vs_casUniq = cas_at t i\<rparr>, T))) F w' \<and> F \<le> T"
proof -
  let ?h = "getHashTblNbrFromKey key"
  let ?v = "\<lparr>vs_expiry = ULONG_MAX, vs_value = val, vs_flags = flags, vs_casUniq = cas_at t i\<rparr>"
  have gen: "casGenerator w = gen_at t i" and now: "now w = t" and bad: "\<not> badAlloc w"
    using assms(1) by (simp_all add: serving_def same_second_now)
  note cas = insert_cas_at [OF gen now]
  have none: "gKeyToValueHashMap w ?h key = None" using assms(1,3) by (auto simp: serving_def entries_def)
  have v: "new_value w flags val 0 (insert_cas w) = ?v" by (simp add: new_value_def expiry_of_def cas)
  let ?w = "ts_update ?h (ts_insert \<lparr>tk_timestamp = gTimestamp w, tk_key = key\<rparr>)
      (stored_add (insert_need key ?v) (kv_put ?h key (?v, gTimestamp w) (insert_start w)))"
  have ins: "dbInsertElement key flags [] val 0 w = Inr (SUCCESS, ?w)"
    using dbInsertElement_room [OF serving_room [OF assms(1,4)] bad, of "[]" 0] none v
    by (simp add: dbInsertCommit_def Let_def)
  let ?n = "2 * length key + length flags + length (cas_at t i) + length val + 12"
  have n: "insert_need key ?v = of_nat ?n" unfolding insert_need_nat by simp
  have S: "unat (gStoredSize w) \<le> m" "entry_total E \<le> unat (gStoredSize w)" "finite (dom E)"
    using assms(1) by (auto simp: serving_def)
  have "unat (gStoredSize w) + ?n < 2 ^ 32" using S(1) assms(4) length_cas_at [of t i] by simp
  then have size: "unat (gStoredSize ?w) = unat (gStoredSize w) + ?n"
    using stored_plus_less(2) [of "gStoredSize w" ?n "- 1"] unfolding n
    using S(1) assms(4) length_cas_at [of t i]
    by (simp add: unat_of_nat32 unat_add32 del: of_nat_add of_nat_mult)
  have "serving t (Suc c) (Suc i) (m + 2 * length key + length flags + length val + 32)
      (E(key \<mapsto> (?v, gTimestamp w))) F ?w"
    by (rule serving_insert [OF assms(1,2) ins])
      (use assms(1) cas(2) size S length_cas_at [of t i] assms(3) in \<open>auto simp: serving_def total_new esize_def\<close>)
  then show ?thesis using ins serving_stamp(3) [OF assms(1,2)] by blast
qed

lemma insert_over:
  assumes "serving t c i m E F w" and "c < 2 ^ 31" and "E key = Some (v, T)"
    and "cas = [] \<or> cas = vs_casUniq v"
    and "m + 2 * length key + length flags + length val + 32 < 7000"
  shows "\<exists>w'. dbInsertElement key flags cas val e w = Inr (SUCCESS, w') \<and>
     serving t (Suc c) (Suc i) (m + length flags + length val + 20)
       (E(key \<mapsto> (\<lparr>vs_expiry = t + e, vs_value = val, vs_flags = flags, vs_casUniq = cas_at t i\<rparr>, T))) F w'"
proof -
  let ?h = "getHashTblNbrFromKey key"
  let ?v = "\<lparr>vs_expiry = t + e, vs_value = val, vs_flags = flags, vs_casUniq = cas_at t i\<rparr>"
  have gen: "casGenerator w = gen_at t i" and now: "now w = t" and bad: "\<not> badAlloc w"
    using assms(1) by (simp_all add: serving_def same_second_now)
  note cas = insert_cas_at [OF gen now]
  have some: "gKeyToValueHashMap w ?h key = Some (v, T)" using assms(1,3) by (auto simp: serving_def entries_def)
  let ?old = "length (vs_casUniq v) + length (vs_flags v) + length (vs_value v)"
  let ?new = "length (cas_at t i) + length flags + length val"
  have it: "overwrite_entry (t + e) (new_value w flags val e (cas_at t i)) (v, T) = (?v, T)"
    by (simp add: overwrite_entry_def set_defs new_value_def)
  let ?w = "ts_update ?h (ts_insert \<lparr>tk_timestamp = gTimestamp w, tk_key = key\<rparr>)
      (stored_sub (of_nat ?old - of_nat ?new) (ts_update ?h (ts_erase \<lparr>tk_timestamp = T, tk_key = key\<rparr>)
        (kv_put ?h key (?v, T) (insert_start w))))"
  have ins: "dbInsertElement key flags cas val e w = Inr (SUCCESS, ?w)"
    using dbInsertElement_room [OF serving_room [OF assms(1,5)] bad, of cas e] some cas(1) now it assms(4)
    by (auto simp: dbInsertCommit_def Let_def get_defs size_diff simp del: of_nat_add)
  have S: "unat (gStoredSize w) \<le> m" "entry_total E \<le> unat (gStoredSize w)" "finite (dom E)"
    using assms(1) by (auto simp: serving_def)
  have tot: "entry_total E = entry_total (E(key := None)) + ?old"
    using total_remove [of E key, OF S(3) assms(3)] by (simp add: esize_def)
  then have "?old \<le> unat (gStoredSize w)" using S(2) by simp
  then have size: "unat (gStoredSize ?w) = unat (gStoredSize w) - ?old + ?new"
    using stored_overwrite [of ?old "gStoredSize w" ?new] S(1) assms(5) length_cas_at [of t i]
    by (simp del: of_nat_add)
  have "serving t (Suc c) (Suc i) (m + length flags + length val + 20) (E(key \<mapsto> (?v, T))) F ?w"
    by (rule serving_insert [OF assms(1,2) ins])
      (use assms(1) cas(2) size S tot length_cas_at [of t i] in \<open>auto simp: serving_def total_upd esize_def\<close>)
  then show ?thesis using ins by blast
qed

lemma insert_cas_differs:
  assumes "serving t c i m E F w" and "c < 2 ^ 31" and "E key = Some (v, T)" and "cas \<noteq> []" "cas \<noteq> vs_casUniq v"
    and "m + 2 * length key + length flags + length val + 32 < 7000"
  shows "\<exists>w'. dbInsertElement key flags cas val e w = Inr (EXIST, w') \<and> serving t (Suc c) (Suc i) m E F w'"
proof -
  have gen: "casGenerator w = gen_at t i" and now: "now w = t" and bad: "\<not> badAlloc w"
    using assms(1) by (simp_all add: serving_def same_second_now)
  have some: "gKeyToValueHashMap w (getHashTblNbrFromKey key) key = Some (v, T)"
    using assms(1,3) by (auto simp: serving_def entries_def)
  have ins: "dbInsertElement key flags cas val e w = Inr (EXIST, insert_start w)"
    using dbInsertElement_room [OF serving_room [OF assms(1,6)] bad, of cas e] some assms(4,5)
    by (auto simp: dbInsertCommit_def Let_def get_defs)
  have "serving t (Suc c) (Suc i) m E F (insert_start w)"
    by (rule serving_insert [OF assms(1,2) ins])
      (use assms(1) insert_cas_at(2) [OF gen now] in \<open>auto simp: serving_def\<close>)
  then show ?thesis using ins by blast
qed

section \<open>Adding and flushing\<close>

lemma serving_add:
  assumes "serving t c i m E F w" and "c < 2 ^ 31" and "dbAddElement key flags cas val e w = Inr (st, w')"
    and "same_second w' t" "gServMemLimit w' = gServMemLimit w" "badAlloc w' = badAlloc w"
      "gFlushAllTimestamp w' = gFlushAllTimestamp w" "gIsFlushAllSet w' = gIsFlushAllSet w"
    and "casGenerator w' = casGenerator w" and "entries w' = E'" and "unat (gStoredSize w') \<le> m'"
    and "finite (dom E')" "entry_total E' \<le> unat (gStoredSize w')"
  shows "serving t (Suc c) i m' E' F w'"
proof -
  note stamp = serving_stamp [OF assms(1,2)]
  have "db_wf w'" using dbAddElement_wf [OF assms(3)] assms(1) stamp(1) by (simp add: serving_def)
  moreover have "gTimestamp w' = gTimestamp w + 1"
    using assms(3)
  proof (cases rule: dbAddElement_cases)
    case (commit w4)
    then show ?thesis
      by (auto simp: dbAddCommit_def Let_def evicts_def shrinks_def split: option.splits if_splits)
  qed (simp add: evicts_def shrinks_def)
  ultimately show ?thesis using assms stamp(2) by (auto simp: serving_def)
qed

lemma add_new:
  assumes "serving t c i m E F w" and "c < 2 ^ 31" and "E key = None"
    and "m + 2 * length key + length flags + length val + 32 < 7000"
  shows "\<exists>w' T. dbAddElement key flags [] val 0 w = Inr (SUCCESS, w') \<and>
     serving t (Suc c) i (m + 2 * length key + length flags + length val + 32)
       (E(key \<mapsto> (\<lparr>vs_expiry = ULONG_MAX, vs_value = val, vs_flags = flags, vs_casUniq = addCas t\<rparr>, T))) F w' \<and> F \<le> T"
proof -
  let ?h = "getHashTblNbrFromKey key"
  let ?v = "\<lparr>vs_expiry = ULONG_MAX, vs_value = val, vs_flags = flags, vs_casUniq = addCas t\<rparr>"
  have now: "now w = t" and bad: "\<not> badAlloc w" using assms(1) by (simp_all add: serving_def same_second_now)
  have none: "gKeyToValueHashMap w ?h key = None" using assms(1,3) by (auto simp: serving_def entries_def)
  have v: "new_value w flags val 0 (addCas (now w)) = ?v" by (simp add: new_value_def expiry_of_def now)
  let ?w = "ts_update ?h (ts_insert \<lparr>tk_timestamp = gTimestamp w, tk_key = key\<rparr>)
      (stored_add (insert_need key ?v) (kv_put ?h key (?v, gTimestamp w) (bump w)))"
  have add: "dbAddElement key flags [] val 0 w = Inr (SUCCESS, ?w)"
    using dbAddElement_room [OF room_add [OF serving_room [OF assms(1,4)]] bad] none v
    by (simp add: dbAddCommit_def Let_def)
  let ?n = "2 * length key + length flags + length (addCas t) + length val + 12"
  have n: "insert_need key ?v = of_nat ?n" unfolding insert_need_nat by simp
  have S: "unat (gStoredSize w) \<le> m" "entry_total E \<le> unat (gStoredSize w)" "finite (dom E)"
    using assms(1) by (auto simp: serving_def)
  have size: "unat (gStoredSize ?w) = unat (gStoredSize w) + ?n" unfolding n
    using S(1) assms(4) length_addCas [of t]
    by (simp add: unat_of_nat32 unat_add32 del: of_nat_add of_nat_mult)
  have "serving t (Suc c) i (m + 2 * length key + length flags + length val + 32) (E(key \<mapsto> (?v, gTimestamp w))) F ?w"
    by (rule serving_add [OF assms(1,2) add])
      (use assms(1) size S length_addCas [of t] assms(3) in
        \<open>auto simp: serving_def same_second_def total_new esize_def\<close>)
  then show ?thesis using add serving_stamp(3) [OF assms(1,2)] by blast
qed

lemma add_present:
  assumes "serving t c i m E F w" and "c < 2 ^ 31" and "E key = Some it" and "alive t F it"
    and "m + 2 * length key + length flags + length val + 32 < 7000"
  shows "\<exists>w'. dbAddElement key flags [] val e w = Inr (EXIST, w') \<and> serving t (Suc c) i m E F w'"
proof -
  have now: "now w = t" and bad: "\<not> badAlloc w" using assms(1) by (simp_all add: serving_def same_second_now)
  have some: "gKeyToValueHashMap w (getHashTblNbrFromKey key) key = Some it"
    using assms(1,3) by (auto simp: serving_def entries_def)
  have add: "dbAddElement key flags [] val e w = Inr (EXIST, bump w)"
    using dbAddElement_room [OF room_add [OF serving_room [OF assms(1,5)]] bad] some assms(4)
      serving_dead [OF assms(1)] now by (simp add: dbAddCommit_def Let_def)
  have "serving t (Suc c) i m E F (bump w)"
    by (rule serving_add [OF assms(1,2) add]) (use assms(1) in \<open>auto simp: serving_def same_second_def\<close>)
  then show ?thesis using add by blast
qed

text \<open>A flush that is due: the entries stay, and all of them are older than it.\<close>

lemma flush_now:
  assumes "serving t c i m E F w" and "c < 2 ^ 31"
  shows "\<exists>F'. serving t (Suc c) i m E F' (dbHandleFlushAll (dbSetFlushAll 0 w)) \<and> F \<le> F' \<and>
     (\<forall>k it. E k = Some it \<longrightarrow> \<not> alive t F' it \<and> snd it < F')"
proof -
  let ?w = "dbHandleFlushAll (dbSetFlushAll 0 w)"
  note stamp = serving_stamp [OF assms]
  have st: "steady_at t (Suc 0) w" by (rule serving_steady [OF assms(1)]) (use assms(2) in simp)
  note fl = flush_due [OF st]
  have now: "now (dbSetFlushAll 0 w) = t" "now w = t"
    using assms(1) by (auto simp: serving_def same_second_def now_def dbSetFlushAll_def)
  have T: "gTimestamp ?w = gTimestamp w + 1" "casGenerator ?w = casGenerator w"
    using now by (simp_all add: dbHandleFlushAll_def Let_def dbSetFlushAll_def now_def)
  have ent: "entries ?w = E" using fl(4) assms(1) by (auto simp: serving_def entries_def fun_eq_iff)
  have sv: "serving t (Suc c) i m E (gTimestamp w + 1) ?w"
    using assms(1) fl T stamp(2) ent by (auto simp: serving_def steady_at_def)
  have old: "snd it < gTimestamp w + 1" if "E k = Some it" for k it
  proof -
    have wf: "db_wf_at (gTimestamp w) w" and "gKeyToValueHashMap w (getHashTblNbrFromKey k) k = Some it"
      using assms(1) that by (auto simp: serving_def db_wf_def entries_def)
    from table_wf_map [OF db_wf_table [OF wf] this(2)] show ?thesis
      using less_plus_one [OF stamp(1), of "snd it"] by (simp add: getTimestampFromMap_def)
  qed
  have "F \<le> gTimestamp w + 1" using stamp by (simp add: word_le_nat_alt)
  with sv old show ?thesis by (metis alive_def linorder_not_le)
qed

end
