(* ===== verification/CmdFrames.thy ===== *)
theory CmdFrames
  imports DbEntries SockFrames
begin

text \<open>
  The requests of a text client, one by one, on the storage of \<open>DbEntries\<close>: the reply to each and the
  content it leaves. A storage request is a frame of two parts; the dispatcher first asks for the
  data block and then answers.
\<close>

section \<open>Frames\<close>

lemma frame_line: "cmdProcessCommand hdr w = Inr (0, out, w') \<Longrightarrow> frame_reply (hdr, []) w = Some (out, w')"
  by (simp add: frame_reply_def)

lemma frame_block:
  assumes "cmdProcessCommand hdr w = Inr (int (length body), [], w)" and "body \<noteq> []"
    and "cmdProcessCommand (hdr @ body) w = Inr (0, out, w')"
  shows "frame_reply (hdr, body) w = Some (out, w')"
  using assms by (simp add: frame_reply_def)

lemma frame_ok_line: "CHR 0x0D \<notin> set h \<Longrightarrow> 2 \<le> length h \<Longrightarrow> frame_ok (h @ crlf, [])"
  by (auto simp: frame_ok_def)

lemma frame_ok_block: "CHR 0x0D \<notin> set h \<Longrightarrow> 2 \<le> length h \<Longrightarrow> CHR 0x0D \<notin> set d \<Longrightarrow> frame_ok (h @ crlf, d @ crlf)"
  by (auto simp: frame_ok_def)

section \<open>Fixed lines\<close>

lemmas line_eval = cmdProcessCommand_def cmdDispatch_def find_space_def str_find_def substr_def stoul_def crlf_def
  past_line_def npos_def Let_def is_space_def is_digit_def

lemma version_lines:
  assumes "\<not> gIsFlushAllSet w"
  shows "cmdProcessCommand (''version foo bar'' @ crlf) w = Inr (0, client_error ''version does not accept options'', w)"
    and "cmdProcessCommand (''version noreply'' @ crlf) w = Inr (0, client_error ''version does not accept options'', w)"
    and "cmdProcessCommand (''version'' @ crlf) w = Inr (0, ''VERSION 1.0'' @ crlf, w)"
  using assms by (simp_all add: line_eval cmdProcessVersion_def str_size_def VERSION_STRING_def)

lemma quit_lines:
  assumes "\<not> gIsFlushAllSet w"
  shows "cmdProcessCommand (''quit foo bar'' @ crlf) w = Inr (0, client_error ''quit has no options'', w)"
    and "cmdProcessCommand (''quit noreply'' @ crlf) w = Inr (0, client_error ''quit has no options'', w)"
    and "cmdProcessCommand (''quit'' @ crlf) w = Inr (- 1, [], w)"
  using assms by (simp_all add: line_eval cmdProcessQuit_def str_size_def)

lemma verbosity_lines:
  assumes "\<not> gIsFlushAllSet w"
  shows "cmdProcessCommand (''verbosity foo bar my'' @ crlf) w = Inr (0, client_error ''invalid expiry time'', w)"
    and "cmdProcessCommand (''verbosity noreply'' @ crlf) w = Inr (0, client_error ''invalid expiry time'', w)"
    and "cmdProcessCommand (''verbosity 0 noreply'' @ crlf) w = Inr (0, [], w)"
    and "cmdProcessCommand (''verbosity'' @ crlf) w = Inr (0, client_error ''exp time not found'', w)"
    and "cmdProcessCommand (''verbosity 1'' @ crlf) w = Inr (0, ''OK'' @ crlf, w)"
    and "cmdProcessCommand (''verbosity 0'' @ crlf) w = Inr (0, ''OK'' @ crlf, w)"
  using assms
  by (simp_all add: line_eval cmdProcessVerbosity_def parseNoreply_def reply_def line_def digits_val_def digit_val_def)

lemma stats_lines:
  assumes "\<not> gIsFlushAllSet w"
  shows "cmdProcessCommand (''stats noreply'' @ crlf) w = Inr (0, client_error ''quit has no options'', w)"
    and "cmdProcessCommand (''stats'' @ crlf) w = Inr (0, ''END'' @ crlf, tick w)"
  using assms by (simp_all add: line_eval cmdProcessStats_def str_size_def line_def)

lemma no_key_lines:
  assumes "\<not> gIsFlushAllSet w"
  shows "cmdProcessCommand (''get'' @ crlf) w = Inr (0, client_error ''no key found'', w)"
    and "cmdProcessCommand (''gets'' @ crlf) w = Inr (0, client_error ''no key found'', w)"
    and "cmdProcessCommand (''delete'' @ crlf) w = Inr (0, client_error ''key not found'', w)"
    and "cmdProcessCommand (''delete a b c d e'' @ crlf) w = Inr (0, client_error ''junk found after key'', w)"
  using assms
  by (simp_all add: line_eval cmdProcessGet_def cmdProcessGets_def cmdProcessGetWith_def cmdProcessDelete_def)

lemma flush_noreply_line:
  "\<not> gIsFlushAllSet w \<Longrightarrow> cmdProcessCommand (''flush_all noreply'' @ crlf) w = Inr (0, [], dbSetFlushAll 0 w)"
  by (simp add: line_eval cmdProcessFlushAll_def)

section \<open>Storage requests\<close>

text \<open>The header of a storage request with flags and expiry time zero, and its data block.\<close>

definition store_hdr :: "string \<Rightarrow> string \<Rightarrow> bool \<Rightarrow> string \<Rightarrow> string" where
  "store_hdr verb key noreply data = storage_line verb key ''0'' 0 (length data) noreply @ crlf"

lemma store_hdr_request: "store_hdr verb key noreply data @ data @ crlf = request verb key ''0'' 0 noreply data"
  by (simp add: store_hdr_def request_def)

definition short_key :: "string \<Rightarrow> bool" where
  "short_key key \<longleftrightarrow> token key \<and> length key \<le> 40 \<and> CHR 0x0A \<notin> set key \<and> CHR 0x00 \<notin> set key"

definition short_data :: "string \<Rightarrow> bool" where
  "short_data data \<longleftrightarrow> data \<noteq> [] \<and> length data \<le> 40 \<and> CHR 0x0D \<notin> set data"

lemma length_store_hdr:
  assumes "length verb \<le> 10" and "short_key key" and "short_data data"
  shows "length (store_hdr verb key noreply data) \<le> 70" "length (store_hdr verb key noreply data @ data @ crlf) \<le> 120"
proof -
  have "length (decimal (length data)) \<le> 2" using assms(3) by (intro length_decimal_le) (simp_all add: short_data_def)
  moreover have "length (decimal 0) \<le> 1" by (intro length_decimal_le) simp_all
  ultimately show "length (store_hdr verb key noreply data) \<le> 70" "length (store_hdr verb key noreply data @ data @ crlf) \<le> 120"
    using assms by (simp_all add: store_hdr_def storage_line_def crlf_def short_key_def short_data_def)
qed

lemma store_well_formed:
  assumes "token verb" "length verb \<le> 10" and "short_key key" and "short_data data"
  shows "well_formed verb key ''0'' 0 noreply data"
  using assms length_store_hdr(2) [OF assms(2-4), of noreply]
  by (simp add: well_formed_def store_hdr_request short_key_def) (simp add: token_def)

lemma store_frame_ok:
  assumes "token verb" "2 \<le> length verb" and "short_key key" and "short_data data"
  shows "frame_ok (store_hdr verb key noreply data, data @ crlf)"
  unfolding store_hdr_def using assms token_decimal [of 0] token_decimal [of "length data"]
  by (intro frame_ok_block) (auto simp: storage_line_def token_def short_key_def short_data_def)

lemma store_hdr_common:
  assumes "token verb" "length verb \<le> 10" and "short_key key" and "short_data data"
  shows "\<exists>st. cmdProcessCommon (store_hdr verb key noreply data) False False store w =
     Inr (int (length data + 2), [], st, w)"
proof -
  let ?in = "store_hdr verb key noreply data"
  have len: "length ?in < 2 ^ 32 - 1" using length_store_hdr(1) [OF assms(2-4), of noreply] by simp
  have inp: "?in = storage_line verb key ''0'' 0 (length data) noreply @ crlf @ []" by (simp add: store_hdr_def)
  have d: "length data < 2 ^ 31 - 2" "data \<noteq> []" using assms(4) by (simp_all add: short_data_def)
  have b: "stoul (decimal (length data)) = Inr (of_nat (length data))" using d by (intro stoul_decimal) simp
  have tok: "token key" "token ''0''" using assms(3) by (simp_all add: short_key_def token_def)
  show ?thesis
    using cmdProcessCommon_line [OF inp assms(1) tok _ len, of store w] relative_expiry [of 0]
      commonData_missing [OF inp len b, of "line_store key ''0'' 0 noreply w store" w] d
    by (simp add: EXPIRY_THRESHOLD_def)
qed

lemma store_dispatch:
  assumes "token verb" "length verb \<le> 10" and "short_key key" and "short_data data" and "\<not> gIsFlushAllSet w"
  shows "cmdProcessCommand (store_hdr verb key noreply data) w = cmdDispatch verb (store_hdr verb key noreply data) w"
    and "cmdProcessCommand (store_hdr verb key noreply data @ data @ crlf) w =
      cmdDispatch verb (request verb key ''0'' 0 noreply data) w"
proof -
  let ?rest = "key @ '' '' @ ''0'' @ '' '' @ decimal 0 @ '' '' @ decimal (length data) @ (if noreply then '' noreply'' else []) @ crlf"
  note len = length_store_hdr [OF assms(2-4), of noreply]
  have "store_hdr verb key noreply data = verb @ '' '' @ ?rest" by (simp add: store_hdr_def storage_line_def)
  from cmdProcessCommand_args [OF this assms(1), of w] len(1) assms(5)
  show "cmdProcessCommand (store_hdr verb key noreply data) w = cmdDispatch verb (store_hdr verb key noreply data) w" by simp
  have "length (request verb key ''0'' 0 noreply data) < 2 ^ 32 - 1" using len(2) by (simp add: store_hdr_request)
  from cmdProcessCommand_args [OF request_verb assms(1) this, of w] assms(5)
  show "cmdProcessCommand (store_hdr verb key noreply data @ data @ crlf) w =
      cmdDispatch verb (request verb key ''0'' 0 noreply data) w" by (simp add: store_hdr_request)
qed

text \<open>The requests that go through the parser once.\<close>

lemma store_frame:
  assumes "verb = ''set'' \<or> verb = ''add'' \<or> verb = ''replace''" and "short_key key" and "short_data data"
    and "\<not> gIsFlushAllSet w" and "cmdDispatch verb (request verb key ''0'' 0 noreply data) w = Inr (0, out, w')"
  shows "frame_reply (store_hdr verb key noreply data, data @ crlf) w = Some (out, w')"
proof (rule frame_block)
  have tok: "token verb" "length verb \<le> 10" using assms(1) by (auto simp: token_def)
  note disp = store_dispatch [OF tok assms(2-4), of noreply]
  obtain st where st: "cmdProcessCommon (store_hdr verb key noreply data) False False empty_store w =
      Inr (int (length data + 2), [], st, w)" using store_hdr_common [OF tok assms(2,3)] by blast
  have "with_store (cmdProcessCommon (store_hdr verb key noreply data) False False empty_store w) f =
      Inr (int (length (data @ crlf)), [], w)" for f unfolding st with_store_def by (simp add: crlf_def)
  then have "cmdDispatch verb (store_hdr verb key noreply data) w = Inr (int (length (data @ crlf)), [], w)"
    using assms(1)
    by (elim disjE) (simp_all only: cmdDispatch_def cmdProcessSet_def cmdProcessAdd_def cmdProcessReplace_def list.inject
        char.inject refl if_True if_False simp_thms list.distinct)
  then show "cmdProcessCommand (store_hdr verb key noreply data) w = Inr (int (length (data @ crlf)), [], w)"
    using disp(1) by simp
  show "cmdProcessCommand (store_hdr verb key noreply data @ data @ crlf) w = Inr (0, out, w')"
    using disp(2) assms(5) by simp
qed (simp add: crlf_def)

lemma zero_expiry: "store_expiry (of_nat 0) w = 0" "expiry_tick (of_nat 0) w = w"
  using relative_expiry [of 0 w] by (simp_all add: EXPIRY_THRESHOLD_def)

lemma set_new_frame:
  assumes "serving t c i m E F w" and "c < 2 ^ 31" and "E key = None" and "m + 200 < 7000"
    and "short_key key" and "short_data data"
  shows "\<exists>w' T. frame_reply (store_hdr ''set'' key noreply data, data @ crlf) w = Some (reply noreply (line ''STORED''), w') \<and>
     serving t (Suc c) (Suc i) (m + 2 * length key + length data + 33)
       (E(key \<mapsto> (\<lparr>vs_expiry = ULONG_MAX, vs_value = data, vs_flags = ''0'', vs_casUniq = cas_at t i\<rparr>, T))) F w' \<and> F \<le> T"
proof -
  have "m + 2 * length key + length ''0'' + length data + 32 < 7000" using assms(4-6) by (simp add: short_key_def short_data_def)
  from insert_new [OF assms(1-3) this] obtain w' T
    where ins: "dbInsertElement key ''0'' [] data 0 w = Inr (SUCCESS, w')" and F: "F \<le> T"
      and sv: "serving t (Suc c) (Suc i) (m + 2 * length key + length ''0'' + length data + 32)
       (E(key \<mapsto> (\<lparr>vs_expiry = ULONG_MAX, vs_value = data, vs_flags = ''0'', vs_casUniq = cas_at t i\<rparr>, T))) F w'"
    by blast
  have wf: "well_formed ''set'' key ''0'' 0 noreply data" using assms(5,6) by (intro store_well_formed) (simp_all add: token_def)
  have fl: "\<not> gIsFlushAllSet w" using assms(1) by (simp add: serving_def)
  have "cmdDispatch ''set'' (request ''set'' key ''0'' 0 noreply data) w = Inr (0, reply noreply (line ''STORED''), w')"
    using cmdProcessSet_request [OF wf, of w] ins zero_expiry by (simp add: cmdDispatch_def)
  from store_frame [OF _ assms(5,6) fl this] sv F show ?thesis by (auto simp: ac_simps)
qed

text \<open>A \<open>set\<close> over an entry, visible or not, keeps its timestamp.\<close>

lemma set_over_frame:
  assumes "serving t c i m E F w" and "c < 2 ^ 31" and "E key = Some (v, T)" and "m + 200 < 7000"
    and "short_key key" and "short_data data"
  shows "\<exists>w'. frame_reply (store_hdr ''set'' key noreply data, data @ crlf) w = Some (reply noreply (line ''STORED''), w') \<and>
     serving t (Suc c) (Suc i) (m + length data + 21)
       (E(key \<mapsto> (\<lparr>vs_expiry = t, vs_value = data, vs_flags = ''0'', vs_casUniq = cas_at t i\<rparr>, T))) F w'"
proof -
  have "m + 2 * length key + length ''0'' + length data + 32 < 7000" using assms(4-6) by (simp add: short_key_def short_data_def)
  from insert_over [OF assms(1-3) _ this, of "[]" 0] obtain w'
    where ins: "dbInsertElement key ''0'' [] data 0 w = Inr (SUCCESS, w')"
      and sv: "serving t (Suc c) (Suc i) (m + length ''0'' + length data + 20)
       (E(key \<mapsto> (\<lparr>vs_expiry = t + 0, vs_value = data, vs_flags = ''0'', vs_casUniq = cas_at t i\<rparr>, T))) F w'"
    by blast
  have wf: "well_formed ''set'' key ''0'' 0 noreply data" using assms(5,6) by (intro store_well_formed) (simp_all add: token_def)
  have fl: "\<not> gIsFlushAllSet w" using assms(1) by (simp add: serving_def)
  have "cmdDispatch ''set'' (request ''set'' key ''0'' 0 noreply data) w = Inr (0, reply noreply (line ''STORED''), w')"
    using cmdProcessSet_request [OF wf, of w] ins zero_expiry by (simp add: cmdDispatch_def)
  from store_frame [OF _ assms(5,6) fl this] sv show ?thesis by (auto simp: ac_simps)
qed

lemma add_new_frame:
  assumes "serving t c i m E F w" and "c < 2 ^ 31" and "E key = None" and "m + 200 < 7000"
    and "short_key key" and "short_data data"
  shows "\<exists>w' T. frame_reply (store_hdr ''add'' key noreply data, data @ crlf) w = Some (reply noreply (line ''STORED''), w') \<and>
     serving t (Suc c) i (m + 2 * length key + length data + 33)
       (E(key \<mapsto> (\<lparr>vs_expiry = ULONG_MAX, vs_value = data, vs_flags = ''0'', vs_casUniq = addCas t\<rparr>, T))) F w' \<and> F \<le> T"
proof -
  have "m + 2 * length key + length ''0'' + length data + 32 < 7000" using assms(4-6) by (simp add: short_key_def short_data_def)
  from add_new [OF assms(1-3) this] obtain w' T
    where add: "dbAddElement key ''0'' [] data 0 w = Inr (SUCCESS, w')" and F: "F \<le> T"
      and sv: "serving t (Suc c) i (m + 2 * length key + length ''0'' + length data + 32)
       (E(key \<mapsto> (\<lparr>vs_expiry = ULONG_MAX, vs_value = data, vs_flags = ''0'', vs_casUniq = addCas t\<rparr>, T))) F w'"
    by blast
  have wf: "well_formed ''add'' key ''0'' 0 noreply data" using assms(5,6) by (intro store_well_formed) (simp_all add: token_def)
  have fl: "\<not> gIsFlushAllSet w" using assms(1) by (simp add: serving_def)
  have "cmdDispatch ''add'' (request ''add'' key ''0'' 0 noreply data) w = Inr (0, reply noreply (line ''STORED''), w')"
    using cmdProcessAdd_request [OF wf, of w] add zero_expiry by (simp add: cmdDispatch_def)
  from store_frame [OF _ assms(5,6) fl this] sv F show ?thesis by (auto simp: ac_simps)
qed

lemma add_present_frame:
  assumes "serving t c i m E F w" and "c < 2 ^ 31" and "E key = Some it" "alive t F it" and "m + 200 < 7000"
    and "short_key key" and "short_data data"
  shows "\<exists>w'. frame_reply (store_hdr ''add'' key noreply data, data @ crlf) w = Some (reply noreply (line ''NOT_STORED''), w') \<and>
     serving t (Suc c) i m E F w'"
proof -
  have "m + 2 * length key + length ''0'' + length data + 32 < 7000" using assms(5-7) by (simp add: short_key_def short_data_def)
  from add_present [OF assms(1-4) this] obtain w'
    where add: "dbAddElement key ''0'' [] data 0 w = Inr (EXIST, w')" and sv: "serving t (Suc c) i m E F w'" by blast
  have wf: "well_formed ''add'' key ''0'' 0 noreply data" using assms(6,7) by (intro store_well_formed) (simp_all add: token_def)
  have fl: "\<not> gIsFlushAllSet w" using assms(1) by (simp add: serving_def)
  have "cmdDispatch ''add'' (request ''add'' key ''0'' 0 noreply data) w = Inr (0, reply noreply (line ''NOT_STORED''), w')"
    using cmdProcessAdd_request [OF wf, of w] add zero_expiry by (simp add: cmdDispatch_def)
  from store_frame [OF _ assms(6,7) fl this] sv show ?thesis by blast
qed

lemma cmdProcessReplace_request:
  assumes "well_formed ''replace'' key ''0'' 0 noreply data"
  shows "cmdProcessReplace (request ''replace'' key ''0'' 0 noreply data) w =
     (let (st, _, w) = dbGetElement key no_out w
      in if st \<noteq> SUCCESS then Inr (0, reply noreply (line ''NOT_STORED''), w)
         else rbind (dbInsertElement key ''0'' [] data 0 w)
                (\<lambda>(st, w). if st = MEMORY_FULL then Inr (0, reply noreply no_memory, w)
                           else Inr (0, reply noreply (line ''STORED''), w)))"
  unfolding cmdProcessReplace_def with_store_request [OF assms] zero_expiry by (simp split: prod.split cong: if_cong)

lemma replace_missing_frame:
  assumes "serving t c i m E F w" and "c < 2 ^ 31" and "E key = None" and "short_key key" and "short_data data"
  shows "\<exists>w'. frame_reply (store_hdr ''replace'' key noreply data, data @ crlf) w = Some (reply noreply (line ''NOT_STORED''), w') \<and>
     serving t (Suc c) i m E F w'"
proof -
  from get_miss [OF assms(1,2), of key no_out] assms(3) obtain w'
    where get: "dbGetElement key no_out w = (NOT_EXIST, no_out, w')" and sv: "serving t (Suc c) i m E F w'"
    by (auto simp: fun_upd_idem)
  have wf: "well_formed ''replace'' key ''0'' 0 noreply data" using assms(4,5) by (intro store_well_formed) (simp_all add: token_def)
  have fl: "\<not> gIsFlushAllSet w" using assms(1) by (simp add: serving_def)
  have "cmdDispatch ''replace'' (request ''replace'' key ''0'' 0 noreply data) w = Inr (0, reply noreply (line ''NOT_STORED''), w')"
    using cmdProcessReplace_request [OF wf, of w] get by (simp add: cmdDispatch_def)
  from store_frame [OF _ assms(4,5) fl this] sv show ?thesis by blast
qed

lemma replace_frame:
  assumes "serving t c i m E F w" and "c + 1 < 2 ^ 31" and "E key = Some (v, T)" "alive t F (v, T)" and "m + 200 < 7000"
    and "short_key key" and "short_data data"
  shows "\<exists>w' T'. frame_reply (store_hdr ''replace'' key noreply data, data @ crlf) w = Some (reply noreply (line ''STORED''), w') \<and>
     serving t (c + 2) (Suc i) (m + length data + 21)
       (E(key \<mapsto> (\<lparr>vs_expiry = t, vs_value = data, vs_flags = ''0'', vs_casUniq = cas_at t i\<rparr>, T'))) F w' \<and> F \<le> T'"
proof -
  have "c < 2 ^ 31" using assms(2) by simp
  from get_hit [OF assms(1) this assms(3,4), of no_out] obtain w1 T' o1
    where get: "dbGetElement key no_out w = (SUCCESS, o1, w1)"
      and sv1: "serving t (Suc c) i m (E(key \<mapsto> (v, T'))) F w1" and F: "F \<le> T'" by auto
  have "m + 2 * length key + length ''0'' + length data + 32 < 7000" using assms(5-7) by (simp add: short_key_def short_data_def)
  with insert_over [OF sv1, of key v T' "[]" "''0''" data 0] assms(2) obtain w'
    where ins: "dbInsertElement key ''0'' [] data 0 w1 = Inr (SUCCESS, w')"
      and sv: "serving t (Suc (Suc c)) (Suc i) (m + length ''0'' + length data + 20)
       (E(key \<mapsto> (\<lparr>vs_expiry = t, vs_value = data, vs_flags = ''0'', vs_casUniq = cas_at t i\<rparr>, T'))) F w'"
    by auto
  have wf: "well_formed ''replace'' key ''0'' 0 noreply data" using assms(6,7) by (intro store_well_formed) (simp_all add: token_def)
  have fl: "\<not> gIsFlushAllSet w" using assms(1) by (simp add: serving_def)
  have "cmdDispatch ''replace'' (request ''replace'' key ''0'' 0 noreply data) w = Inr (0, reply noreply (line ''STORED''), w')"
    using cmdProcessReplace_request [OF wf, of w] get ins by (simp add: cmdDispatch_def)
  from store_frame [OF _ assms(6,7) fl this] sv F show ?thesis by (auto simp: ac_simps)
qed

end
