(* ===== verification/CmdFramesKey.thy ===== *)
theory CmdFramesKey
  imports CmdFrames
begin

text \<open>
  The requests that name a key and no data: \<open>get\<close>, \<open>gets\<close>, \<open>delete\<close>, \<open>incr\<close> and \<open>decr\<close>.
\<close>

section \<open>Retrieval\<close>

text \<open>What a look-up does to the content: it refreshes a visible entry and drops a dead one.\<close>

definition looked_up :: "ulong \<Rightarrow> ulong \<Rightarrow> string \<Rightarrow> (string \<rightharpoonup> MapEntry) \<Rightarrow> (string \<rightharpoonup> MapEntry) \<Rightarrow> bool" where
  "looked_up t F key E E' \<longleftrightarrow>
     (case E key of
        None \<Rightarrow> E' = E
      | Some it \<Rightarrow> if alive t F it then \<exists>T. E' = E(key \<mapsto> (fst it, T)) \<and> F \<le> T else E' = E(key := None))"

definition seen :: "ulong \<Rightarrow> ulong \<Rightarrow> (string \<rightharpoonup> MapEntry) \<Rightarrow> string \<Rightarrow> (string \<times> string \<times> string) option" where
  "seen t F E key =
     (case E key of
        None \<Rightarrow> None
      | Some it \<Rightarrow> if alive t F it then Some (vs_flags (fst it), vs_casUniq (fst it), vs_value (fst it)) else None)"

lemma lookup_step:
  assumes "serving t c i m E F w" and "c < 2 ^ 31"
  shows "\<exists>w' E' o1 st. dbGetElement key no_out w = (st, o1, w') \<and> serving t (Suc c) i m E' F w' \<and> looked_up t F key E E' \<and>
     (case seen t F E key of None \<Rightarrow> st = NOT_EXIST
      | Some (fl, cas, val) \<Rightarrow> st = SUCCESS \<and> go_flags o1 = fl \<and> go_cas o1 = cas \<and> go_value o1 = val)"
proof (cases "\<exists>v T. E key = Some (v, T) \<and> alive t F (v, T)")
  case True
  then obtain v T where E: "E key = Some (v, T)" "alive t F (v, T)" by blast
  from get_hit [OF assms E, of no_out] E show ?thesis by (fastforce simp: looked_up_def seen_def)
next
  case False
  then have "E key = None \<or> (\<exists>it. E key = Some it \<and> \<not> alive t F it)" by (cases "E key") auto
  from get_miss [OF assms this, of no_out] obtain w'
    where "dbGetElement key no_out w = (NOT_EXIST, no_out, w')" "serving t (Suc c) i m (E(key := None)) F w'" by blast
  moreover have "looked_up t F key E (E(key := None))" "seen t F E key = None"
    using False by (auto simp: looked_up_def seen_def fun_upd_idem split: option.split)
  ultimately show ?thesis by auto
qed

lemma looked_up_other: "looked_up t F key E E' \<Longrightarrow> k \<noteq> key \<Longrightarrow> E' k = E k"
  by (auto simp: looked_up_def split: option.splits if_splits)

lemma looked_up_seen: "looked_up t F key E E' \<Longrightarrow> seen t F E' = seen t F E"
  by (rule ext) (auto simp: looked_up_def seen_def alive_def split: option.splits if_splits)

fun looked_up_all :: "ulong \<Rightarrow> ulong \<Rightarrow> string list \<Rightarrow> (string \<rightharpoonup> MapEntry) \<Rightarrow> (string \<rightharpoonup> MapEntry) \<Rightarrow> bool" where
  "looked_up_all t F [] E E' \<longleftrightarrow> E' = E"
| "looked_up_all t F (k # ks) E E' \<longleftrightarrow> (\<exists>E1. looked_up t F k E E1 \<and> looked_up_all t F ks E1 E')"

lemma looked_up_all_other: "looked_up_all t F keys E E' \<Longrightarrow> k \<notin> set keys \<Longrightarrow> E' k = E k"
  by (induction keys arbitrary: E) (auto dest: looked_up_other)

lemma getReplies_serving:
  assumes "serving t c i m E F w" and "c + length keys < 2 ^ 31"
  shows "\<exists>w' E'. getReplies isGets keys w = (concat (map (\<lambda>k. value_block isGets k (seen t F E k)) keys), w') \<and>
     serving t (c + length keys) i m E' F w' \<and> looked_up_all t F keys E E'"
  using assms
proof (induction keys arbitrary: w E c)
  case (Cons key keys)
  have "c < 2 ^ 31" using Cons.prems(2) by simp
  from lookup_step [OF Cons.prems(1) this, of key] obtain w1 E1 o1 st
    where g: "dbGetElement key no_out w = (st, o1, w1)" and sv: "serving t (Suc c) i m E1 F w1"
      and lk: "looked_up t F key E E1"
      and r: "case seen t F E key of None \<Rightarrow> st = NOT_EXIST
        | Some (fl, cas, val) \<Rightarrow> st = SUCCESS \<and> go_flags o1 = fl \<and> go_cas o1 = cas \<and> go_value o1 = val" by blast
  from Cons.IH [OF sv] Cons.prems(2) obtain w' E'
    where rest: "getReplies isGets keys w1 = (concat (map (\<lambda>k. value_block isGets k (seen t F E k)) keys), w')"
      "serving t (Suc c + length keys) i m E' F w'" "looked_up_all t F keys E1 E'"
    using looked_up_seen [OF lk] by auto
  show ?case using g rest lk r by (auto simp: value_block_def split: option.splits)
qed simp

lemma get_frame:
  assumes "serving t c i m E F w" and "c + length keys < 2 ^ 31" and "keys \<noteq> []" and "\<forall>k \<in> set keys. token k"
    and "length (spaced keys) < 1000"
  shows "\<exists>w' E'. frame_reply ((if isGets then ''gets '' else ''get '') @ spaced keys @ crlf, []) w =
       Some (concat (map (\<lambda>k. value_block isGets k (seen t F E k)) keys) @ line ''END'', w') \<and>
     serving t (c + length keys) i m E' F w' \<and> looked_up_all t F keys E E'"
proof -
  let ?verb = "if isGets then ''gets'' else ''get''"
  let ?in = "?verb @ '' '' @ spaced keys @ crlf"
  have len: "length ?in < 2 ^ 32 - 1" using assms(5) by (simp add: crlf_def)
  have tok: "token ?verb" by (simp add: token_def)
  have fl: "\<not> gIsFlushAllSet w" using assms(1) by (simp add: serving_def)
  have "cmdProcessCommand ?in w = cmdProcessGetWith isGets ?in w"
    using cmdProcessCommand_args [OF refl tok len, of w] fl
    by (simp add: cmdDispatch_def cmdProcessGet_def cmdProcessGets_def)
  also have "\<dots> = (let (out, w) = getReplies isGets keys w in Inr (0, out @ line ''END'', w))"
    by (rule cmdProcessGetWith_line [OF refl tok assms(4,3) len])
  finally have "cmdProcessCommand ?in w = (let (out, w) = getReplies isGets keys w in Inr (0, out @ line ''END'', w))" .
  moreover have "?in = (if isGets then ''gets '' else ''get '') @ spaced keys @ crlf" by simp
  ultimately show ?thesis using getReplies_serving [OF assms(1,2), of isGets] frame_line by fastforce
qed

section \<open>Deletion\<close>

definition delete_line :: "string \<Rightarrow> bool \<Rightarrow> string" where
  "delete_line key noreply = ''delete '' @ key @ (if noreply then '' noreply'' else []) @ crlf"

lemma cmdProcessDelete_line:
  assumes "token key" and "length key < 1000"
  shows "cmdProcessDelete (delete_line key noreply) w =
     (let (st, w) = dbDeleteElement key 0 w
      in if st = NOT_EXIST then Inr (0, reply noreply (line ''NOT_FOUND''), w)
         else Inr (0, reply noreply (line ''DELETED''), w))"
proof -
  define input where "input = delete_line key noreply"
  let ?tail = "if noreply then '' noreply'' else []"
  define n where "n = 7 + length key + length ?tail"
  have i: "input = ''delete'' @ '' '' @ key @ ?tail @ crlf" by (simp add: input_def delete_line_def)
  have len: "length input < 2 ^ 32 - 1" and n32: "n < 2 ^ 32 - 1" using assms(2) by (simp_all add: i n_def crlf_def)
  have "str_find input crlf 0 = of_nat (length (''delete'' @ '' '' @ key @ ?tail))"
    by (rule find_line_end [of _ _ "[]"]) (use assms(1) len in \<open>auto simp: i token_def\<close>)
  then have endl: "str_find input crlf 0 = of_nat n" by (simp add: n_def)
  have sp: "find_space input 0 = of_nat (length ''delete'')"
    using find_space_field [of input "[]" "''delete''"] len by (simp add: i)
  have l1: "\<not> past_line (of_nat (length ''delete'')) (of_nat n)" by (rule on_line) (use n32 in \<open>simp_all add: n_def\<close>)
  have s1: "(of_nat (length ''delete'') + 1 :: uint) = of_nat (length ''delete '')" by simp
  show ?thesis unfolding input_def [symmetric]
  proof (cases noreply)
    case False
    have i2: "input = ''delete '' @ key @ crlf @ []" and nn: "n = length ''delete '' + length key"
      using False by (simp_all add: i n_def)
    have p: "past_line (find_space input (of_nat (length ''delete ''))) (of_nat n)"
      unfolding nn by (rule off_line [OF find_space_last [OF i2]]) (use assms(1) len in \<open>simp_all add: token_def\<close>)
    have k: "substr input (of_nat (length ''delete '')) (of_nat n - of_nat (length ''delete '')) = Inr key"
      unfolding nn by (rule substr_field [OF i2 len])
    show "cmdProcessDelete input w = (let (st, w) = dbDeleteElement key 0 w
      in if st = NOT_EXIST then Inr (0, reply noreply (line ''NOT_FOUND''), w)
         else Inr (0, reply noreply (line ''DELETED''), w))"
      unfolding cmdProcessDelete_def Let_def sp endl s1
      using l1 p k False by (simp only: if_True if_False not_True_eq_False rbind_Inr simp_thms)
  next
    case True
    have i2: "input = ''delete '' @ key @ '' '' @ (''noreply'' @ crlf)" and nn: "n = length ''delete '' + length key + 8"
      using True by (simp_all add: i n_def)
    note r = read_field [OF i2 assms(1) len refl, of n]
    have f: "find_space input (of_nat (length ''delete '')) = of_nat (length ''delete '' + length key)"
      and g: "substr input (of_nat (length ''delete '')) (of_nat (length ''delete '' + length key) - of_nat (length ''delete '')) = Inr key"
      and h: "\<not> past_line (of_nat (length ''delete '' + length key)) (of_nat n)"
      using r n32 nn by simp_all
    let ?p = "''delete '' @ key @ '' ''"
    have s3: "(of_nat (length ''delete '' + length key) + 1 :: uint) = of_nat (length ?p)" by simp
    have n3: "n = length ?p + length ''noreply''" using nn by simp
    have k: "substr input (of_nat (length ?p)) (of_nat n - of_nat (length ?p)) = Inr ''noreply''"
      unfolding n3 by (rule substr_field [of _ _ _ crlf]) (use i2 len in simp_all)
    show "cmdProcessDelete input w = (let (st, w) = dbDeleteElement key 0 w
      in if st = NOT_EXIST then Inr (0, reply noreply (line ''NOT_FOUND''), w)
         else Inr (0, reply noreply (line ''DELETED''), w))"
      unfolding cmdProcessDelete_def Let_def sp endl s1 f
      using l1 g h k True by (simp only: s3 if_True if_False not_False_eq_True rbind_Inr simp_thms)
  qed
qed

lemma delete_frame:
  assumes "serving t c i m E F w" and "token key" and "length key < 1000"
  shows "(case E key of None \<Rightarrow>
       (\<exists>w'. frame_reply (delete_line key noreply, []) w = Some (reply noreply (line ''NOT_FOUND''), w') \<and> serving t c i m E F w')
     | Some it \<Rightarrow> alive t F it \<longrightarrow>
       (\<exists>w'. frame_reply (delete_line key noreply, []) w = Some (reply noreply (line ''DELETED''), w') \<and>
          serving t c i m (E(key := None)) F w'))"
proof -
  have fl: "\<not> gIsFlushAllSet w" using assms(1) by (simp add: serving_def)
  have e: "delete_line key noreply = ''delete'' @ '' '' @ (key @ (if noreply then '' noreply'' else []) @ crlf)"
    by (simp add: delete_line_def)
  have "length (delete_line key noreply) < 2 ^ 32 - 1" using assms(3) by (simp add: delete_line_def crlf_def)
  from cmdProcessCommand_args [OF e _ this, of w] fl
  have "cmdProcessCommand (delete_line key noreply) w = cmdProcessDelete (delete_line key noreply) w"
    by (simp add: token_def cmdDispatch_def)
  note d = this [unfolded cmdProcessDelete_line [OF assms(2,3)]]
  show ?thesis
  proof (cases "E key")
    case None
    from delete_miss [OF assms(1) this] d None show ?thesis by (auto intro!: frame_line)
  next
    case (Some it)
    have "\<exists>w'. frame_reply (delete_line key noreply, []) w = Some (reply noreply (line ''DELETED''), w') \<and>
        serving t c i m (E(key := None)) F w'" if "alive t F it"
      using delete_hit [OF assms(1) Some that] d by (auto intro!: frame_line)
    with Some show ?thesis by simp
  qed
qed

section \<open>Counting\<close>

lemma count_frame:
  assumes "serving t c i m E F w" and "c + 1 < 2 ^ 31" and "E key = Some (v, T)" "alive t F (v, T)"
    and "vs_value v = decimal n" and "n < 1000" and "length (vs_flags v) \<le> 1" and "m + 200 < 7000" and "short_key key"
    and "verb = ''incr'' \<and> r = n + 1 \<or> verb = ''decr'' \<and> r = n - 1"
  shows "\<exists>w' T' cas. frame_reply (key_line verb key ''1'' noreply, []) w = Some (reply noreply (line (decimal r)), w') \<and>
     serving t (c + 2) (Suc i) (m + 25) (E(key \<mapsto> (v\<lparr>vs_value := decimal r, vs_casUniq := cas\<rparr>, T'))) F w' \<and> F \<le> T'"
proof -
  have c: "c < 2 ^ 31" using assms(2) by simp
  have fl: "\<not> gIsFlushAllSet w" using assms(1) by (simp add: serving_def)
  have d1: "decimal 1 = ''1''" by code_simp
  have tok: "token verb" "token key" "token ''1''" using assms(9,10) by (auto simp: token_def short_key_def)
  have len: "length (key_line verb key ''1'' noreply) < 2 ^ 32 - 1"
    using assms(9,10) by (auto simp: key_line_def short_key_def crlf_def)
  from parseKeyField_line [OF tok len] obtain ts
    where p: "parseKeyField (key_line verb key ''1'' noreply) = Inr (Inr (key, ''1'', ts, noreply))"
      and q: "parseNoreply (key_line verb key ''1'' noreply) ts noreply = Inr noreply" by blast
  from get_hit [OF assms(1) c assms(3,4), of no_out] obtain w1 T'
    where g: "dbGetElement key no_out w = (SUCCESS, \<lparr>go_flags = vs_flags v, go_cas = vs_casUniq v,
       go_value = vs_value v, go_expiry = vs_expiry v - t\<rparr>, w1)"
      and sv1: "serving t (Suc c) i m (E(key \<mapsto> (v, T'))) F w1" and F: "F \<le> T'" by blast
  have dl: "length (decimal r) \<le> 4" using assms(6,10) by (intro length_decimal_le) auto
  have "m + 2 * length key + length (vs_flags v) + length (decimal r) + 32 < 7000"
    using assms(7-9) dl by (simp add: short_key_def)
  with insert_over [OF sv1, of key v T' "[]" "vs_flags v" "decimal r" "vs_expiry v - t"] assms(2) obtain w'
    where ins: "dbInsertElement key (vs_flags v) [] (decimal r) (vs_expiry v - t) w1 = Inr (SUCCESS, w')"
      and sv: "serving t (Suc (Suc c)) (Suc i) (m + length (vs_flags v) + length (decimal r) + 20)
       (E(key \<mapsto> (\<lparr>vs_expiry = t + (vs_expiry v - t), vs_value = decimal r, vs_flags = vs_flags v,
          vs_casUniq = cas_at t i\<rparr>, T'))) F w'"
    by auto
  have v: "\<lparr>vs_expiry = t + (vs_expiry v - t), vs_value = decimal r, vs_flags = vs_flags v, vs_casUniq = cas_at t i\<rparr> =
      v\<lparr>vs_value := decimal r, vs_casUniq := cas_at t i\<rparr>" by simp
  have sv': "serving t (c + 2) (Suc i) (m + 25)
      (E(key \<mapsto> (v\<lparr>vs_value := decimal r, vs_casUniq := cas_at t i\<rparr>, T'))) F w'"
    by (rule serving_mono [OF sv [unfolded v]]) (use assms(7) dl in simp_all)
  have n: "stoul (vs_value v) = Inr (of_nat n)" "stoul ''1'' = Inr 1"
    using stoul_decimal [of n] stoul_decimal [of 1] assms(5,6) d1 by simp_all
  have r1: "to_string (1 + of_nat n :: ulong) = decimal (n + 1)"
    using assms(6) unat_of_nat32 [of "n + 1"] by (simp add: to_string_def)
  have r2: "to_string (if (of_nat n :: ulong) \<le> 1 then 0 else of_nat n - 1 :: ulong) = decimal (n - 1)"
  proof (cases "n \<le> 1")
    case True
    then have "(of_nat n :: ulong) \<le> 1" using of_nat_le32 [of n 1] by simp
    with True show ?thesis by (simp add: to_string_def)
  next
    case False
    then have "\<not> (of_nat n :: ulong) \<le> 1" using of_nat_le32 [of n 1] assms(6) by simp
    moreover have "(of_nat n - 1 :: ulong) = of_nat (n - 1)" using False by simp
    ultimately show ?thesis using assms(6) unat_of_nat32 [of "n - 1"] by (simp add: to_string_def)
  qed
  have "cmdProcessCommand (key_line verb key ''1'' noreply) w = Inr (0, reply noreply (line (decimal r)), w')"
    using cmdProcessCommand_args [OF key_line_verb tok(1) len, of w] fl assms(10) p q g ins n r1 r2
    by (elim disjE conjE) (simp_all add: cmdDispatch_def cmdProcessIncr_def cmdProcessDecr_def cmdProcessArith_def Let_def)
  from frame_line [OF this] sv' F show ?thesis by blast
qed

end
