(* ===== verification/CmdFramesEdit.thy ===== *)
theory CmdFramesEdit
  imports CmdFramesKey
begin

text \<open>
  The requests with a parse of their own: \<open>append\<close> and \<open>prepend\<close>, whose first attempt at the line
  fails on a full request, and \<open>cas\<close>, which carries an identifier.
\<close>

section \<open>Append and prepend\<close>

text \<open>Without flags and expiry time in mind, the parser takes them for a wrong \<open>noreply\<close>.\<close>

lemma common_junk:
  assumes inp: "input = storage_line verb key ''0'' 0 b noreply @ crlf @ rest"
    and tok: "token verb" "token key" and len: "length input < 2 ^ 32 - 1"
  shows "\<exists>out st. cmdProcessCommon input False True empty_store w = Inr (0, out, st, w) \<and> out \<noteq> [] \<and> st_casStr st = []"
proof -
  let ?pre = "verb @ '' '' @ key @ '' ''"
  let ?tail = "decimal 0 @ '' '' @ decimal b @ (if noreply then '' noreply'' else [])"
  define n where "n = length (storage_line verb key ''0'' 0 b noreply)"
  have n: "n = length ?pre + 2 + length ?tail" by (simp add: n_def storage_line_def)
  have n32: "n < 2 ^ 32 - 1" using len by (simp add: inp n_def)
  have crt: "CHR 0x0D \<notin> set ?tail" using token_decimal [of 0] token_decimal [of b] by (auto simp: token_def)
  have endl: "str_find input crlf 0 = of_nat n"
    unfolding n_def by (rule find_line_end [OF inp])
      (use tok crt len in \<open>auto simp: storage_line_def token_def\<close>)
  have k: "commonKey input (of_nat n) empty_store w = Continue (of_nat (length ?pre), empty_store\<lparr>st_key := key\<rparr>)"
    by (rule commonKey_field) (use inp tok len n32 n in \<open>simp_all add: storage_line_def\<close>)
  have start: "(of_nat (length ?pre) + 1 :: uint) = of_nat (length (?pre @ ''0''))" by simp
  have i2: "input = (?pre @ ''0'') @ [] @ '' '' @ (?tail @ crlf @ rest)" by (simp add: inp storage_line_def)
  have cb: "commonBytes input (of_nat n) False (of_nat (length (?pre @ ''0''))) st w =
      Continue ([], of_nat (length (?pre @ ''0'')), of_nat (length (?pre @ ''0'') + length ([] :: string)), st)" for st
    by (rule commonBytes_field [OF i2 _ len _ n32]) (simp_all add: token_def n)
  let ?p3 = "?pre @ ''0 ''"
  have s3: "(of_nat (length (?pre @ ''0'') + length ([] :: string)) + 1 :: uint) = of_nat (length ?p3)" by simp
  have i3: "input = ?p3 @ ?tail @ crlf @ rest" by (simp add: inp storage_line_def)
  have f3: "str_find input crlf (of_nat (length ?p3)) = of_nat (length ?p3 + length ?tail)"
    by (rule str_find_crlf [OF i3 len crt refl])
  have g3: "substr input (of_nat (length ?p3)) (of_nat (length ?p3 + length ?tail) - of_nat (length ?p3)) = Inr ?tail"
    by (rule substr_field [OF i3 len])
  have d0: "decimal 0 = ''0''" by code_simp
  have ne: "?tail \<noteq> ''noreply''" "?tail \<noteq> ''noreply ''" by (simp_all add: d0)
  have "\<not> (of_nat n :: uint) < of_nat (length (?pre @ ''0'') + length ([] :: string))"
    using n n32 by (subst of_nat_less32) simp_all
  moreover have "(of_nat (length ?p3) :: uint) \<noteq> of_nat n" using n n32 by (subst of_nat_eq32) simp_all
  ultimately have cn: "commonNoreply input (of_nat n) False [] s (of_nat (length (?pre @ ''0'') + length ([] :: string))) st w =
      Return 0 (client_error ''junk found instead of \"noreply\"'') st w" for s st
    unfolding commonNoreply_def Let_def s3 f3 g3 using ne
    by (simp only: if_False if_True lift_simps step_bind_simps simp_thms)
  show ?thesis
    unfolding cmdProcessCommon_def Let_def endl k step_bind_simps prod.case if_True start cb cn step.case
    by (simp add: client_error_def empty_store_def)
qed

lemma common_any_store:
  assumes "token verb" "length verb \<le> 10" and "short_key key" and "short_data data" and "st_casStr st = []"
  shows "cmdProcessCommon (request verb key ''0'' 0 noreply data) False False st w =
     Inr (0, [], \<lparr>st_key = key, st_flags = ''0'', st_expTime = 0, st_bytes = of_nat (length data), st_casStr = [],
       st_noreply = noreply, st_data = data\<rparr>, w)"
proof -
  have len: "length (request verb key ''0'' 0 noreply data) < 2 ^ 32 - 1"
    using length_store_hdr(2) [OF assms(2-4), of noreply] by (simp add: store_hdr_request)
  have inp: "request verb key ''0'' 0 noreply data =
      storage_line verb key ''0'' 0 (length data) noreply @ crlf @ data @ crlf" by (simp add: request_def)
  have d: "data \<noteq> []" "length data < 2 ^ 32" using assms(4) by (simp_all add: short_data_def)
  have b: "stoul (decimal (length data)) = Inr (of_nat (length data))" using d by (intro stoul_decimal) simp
  have tok: "token key" "token ''0''" using assms(3) by (simp_all add: short_key_def token_def)
  from cmdProcessCommon_line [OF inp assms(1) tok _ len, of st w] commonData_enough [OF inp len b]
  show ?thesis using assms(5) d(1) zero_expiry [of w] by (cases st) (simp add: line_store_def)
qed

lemma twice_request:
  assumes "token verb" "length verb \<le> 10" and "short_key key" and "short_data data"
  shows "cmdProcessCommonTwice (request verb key ''0'' 0 noreply data) w =
       Inr (0, [], \<lparr>st_key = key, st_flags = ''0'', st_expTime = 0, st_bytes = of_nat (length data), st_casStr = [],
         st_noreply = noreply, st_data = data\<rparr>, w)"
    and "\<exists>st. cmdProcessCommonTwice (store_hdr verb key noreply data) w = Inr (int (length data + 2), [], st, w)"
proof -
  note len = length_store_hdr [OF assms(2-4), of noreply]
  have tok: "token key" using assms(3) by (simp add: short_key_def)
  have inp: "request verb key ''0'' 0 noreply data =
      storage_line verb key ''0'' 0 (length data) noreply @ crlf @ data @ crlf" by (simp add: request_def)
  have "length (request verb key ''0'' 0 noreply data) < 2 ^ 32 - 1" using len(2) by (simp add: store_hdr_request)
  from common_junk [OF inp assms(1) tok this, of w]
  show "cmdProcessCommonTwice (request verb key ''0'' 0 noreply data) w =
       Inr (0, [], \<lparr>st_key = key, st_flags = ''0'', st_expTime = 0, st_bytes = of_nat (length data), st_casStr = [],
         st_noreply = noreply, st_data = data\<rparr>, w)"
    using common_any_store [OF assms] by (auto simp: cmdProcessCommonTwice_def)
  have inp: "store_hdr verb key noreply data = storage_line verb key ''0'' 0 (length data) noreply @ crlf @ []"
    by (simp add: store_hdr_def)
  have "length (store_hdr verb key noreply data) < 2 ^ 32 - 1" using len(1) by simp
  from common_junk [OF inp assms(1) tok this, of w]
  show "\<exists>st. cmdProcessCommonTwice (store_hdr verb key noreply data) w = Inr (int (length data + 2), [], st, w)"
    using store_hdr_common [OF assms, of noreply _ w] by (fastforce simp: cmdProcessCommonTwice_def)
qed

lemma edit_frame:
  assumes "verb = ''append'' \<and> f = cmdProcessAppend \<or> verb = ''prepend'' \<and> f = cmdProcessPrepend"
    and "short_key key" and "short_data data"
    and "\<not> gIsFlushAllSet w" and "f (request verb key ''0'' 0 noreply data) w = Inr (0, out, w')"
  shows "frame_reply (store_hdr verb key noreply data, data @ crlf) w = Some (out, w')"
proof (rule frame_block)
  have tok: "token verb" "length verb \<le> 10" using assms(1) by (auto simp: token_def)
  note disp = store_dispatch [OF tok assms(2-4), of noreply]
  have d: "cmdDispatch verb input w = f input w" for input
    using assms(1) by (elim disjE conjE) (simp_all add: cmdDispatch_def)
  obtain st where st: "cmdProcessCommonTwice (store_hdr verb key noreply data) w = Inr (int (length data + 2), [], st, w)"
    using twice_request(2) [OF tok assms(2,3)] by blast
  have "with_store (cmdProcessCommonTwice (store_hdr verb key noreply data) w) g =
      Inr (int (length (data @ crlf)), [], w)" for g unfolding st with_store_def by (simp add: crlf_def)
  then have "f (store_hdr verb key noreply data) w = Inr (int (length (data @ crlf)), [], w)"
    using assms(1) by (elim disjE conjE) (simp_all only: cmdProcessAppend_def cmdProcessPrepend_def)
  then show "cmdProcessCommand (store_hdr verb key noreply data) w = Inr (int (length (data @ crlf)), [], w)"
    using disp(1) d by simp
  show "cmdProcessCommand (store_hdr verb key noreply data @ data @ crlf) w = Inr (0, out, w')"
    using disp(2) d assms(5) by simp
qed (simp add: crlf_def)

lemma concat_missing_frame:
  assumes "serving t c i m E F w" and "c < 2 ^ 31" and "E key = None" and "short_key key" and "short_data data"
    and "verb = (if app then ''append'' else ''prepend'')"
  shows "\<exists>w'. frame_reply (store_hdr verb key noreply data, data @ crlf) w = Some (reply noreply (line ''NOT_STORED''), w') \<and>
     serving t (Suc c) i m E F w'"
proof -
  let ?out = "\<lparr>go_flags = ''0'', go_cas = [], go_value = [], go_expiry = 0\<rparr>"
  from get_miss [OF assms(1,2), of key ?out] assms(3) obtain w'
    where get: "dbGetElement key ?out w = (NOT_EXIST, ?out, w')" and sv: "serving t (Suc c) i m E F w'"
    by (auto simp: fun_upd_idem)
  have tok: "token verb" "length verb \<le> 10" using assms(6) by (auto simp: token_def)
  have fl: "\<not> gIsFlushAllSet w" using assms(1) by (simp add: serving_def)
  have "(if app then cmdProcessAppend else cmdProcessPrepend) (request verb key ''0'' 0 noreply data) w =
      Inr (0, reply noreply (line ''NOT_STORED''), w')"
    using twice_request(1) [OF tok assms(4,5), of noreply w] get
    by (simp add: cmdProcessAppend_def cmdProcessPrepend_def with_store_def)
  from edit_frame [where f = "if app then cmdProcessAppend else cmdProcessPrepend", OF _ assms(4,5) fl this] assms(6) sv
  show ?thesis by auto
qed

lemma concat_frame:
  assumes "serving t c i m E F w" and "c + 1 < 2 ^ 31" and "E key = Some (v, T)" "alive t F (v, T)" and "m + 250 < 7000"
    and "short_key key" and "short_data data" and "length (vs_flags v) \<le> 1" "length (vs_value v) \<le> 40"
    and "verb = (if app then ''append'' else ''prepend'')"
    and "r = (if app then vs_value v @ data else data @ vs_value v)"
  shows "\<exists>w' T' cas. frame_reply (store_hdr verb key noreply data, data @ crlf) w = Some (reply noreply (line ''STORED''), w') \<and>
     serving t (c + 2) (Suc i) (m + length r + 21) (E(key \<mapsto> (v\<lparr>vs_value := r, vs_casUniq := cas\<rparr>, T'))) F w' \<and> F \<le> T'"
proof -
  let ?out = "\<lparr>go_flags = ''0'', go_cas = [], go_value = [], go_expiry = 0\<rparr>"
  have c: "c < 2 ^ 31" using assms(2) by simp
  from get_hit [OF assms(1) c assms(3,4), of ?out] obtain w1 T'
    where get: "dbGetElement key ?out w = (SUCCESS, \<lparr>go_flags = vs_flags v, go_cas = vs_casUniq v,
       go_value = vs_value v, go_expiry = vs_expiry v - t\<rparr>, w1)"
      and sv1: "serving t (Suc c) i m (E(key \<mapsto> (v, T'))) F w1" and F: "F \<le> T'" by blast
  have r: "length r \<le> 80" using assms(7,9,11) by (auto simp: short_data_def)
  then have "m + 2 * length key + length (vs_flags v) + length r + 32 < 7000" using assms(5,6,8) by (simp add: short_key_def)
  with insert_over [OF sv1, of key v T' "[]" "vs_flags v" r "vs_expiry v - t"] assms(2) obtain w'
    where ins: "dbInsertElement key (vs_flags v) [] r (vs_expiry v - t) w1 = Inr (SUCCESS, w')"
      and sv: "serving t (Suc (Suc c)) (Suc i) (m + length (vs_flags v) + length r + 20)
       (E(key \<mapsto> (\<lparr>vs_expiry = t + (vs_expiry v - t), vs_value = r, vs_flags = vs_flags v,
          vs_casUniq = cas_at t i\<rparr>, T'))) F w'"
    by auto
  have v: "\<lparr>vs_expiry = t + (vs_expiry v - t), vs_value = r, vs_flags = vs_flags v, vs_casUniq = cas_at t i\<rparr> =
      v\<lparr>vs_value := r, vs_casUniq := cas_at t i\<rparr>" by simp
  have sv': "serving t (c + 2) (Suc i) (m + length r + 21)
      (E(key \<mapsto> (v\<lparr>vs_value := r, vs_casUniq := cas_at t i\<rparr>, T'))) F w'"
    by (rule serving_mono [OF sv [unfolded v]]) (use assms(8) in simp_all)
  have tok: "token verb" "length verb \<le> 10" using assms(10) by (auto simp: token_def)
  have fl: "\<not> gIsFlushAllSet w" using assms(1) by (simp add: serving_def)
  have "(if app then cmdProcessAppend else cmdProcessPrepend) (request verb key ''0'' 0 noreply data) w =
      Inr (0, reply noreply (line ''STORED''), w')"
    using twice_request(1) [OF tok assms(6,7), of noreply w] get ins assms(11)
    by (cases app) (simp_all add: cmdProcessAppend_def cmdProcessPrepend_def with_store_def)
  from edit_frame [where f = "if app then cmdProcessAppend else cmdProcessPrepend", OF _ assms(6,7) fl this] assms(10) sv' F
  show ?thesis by auto
qed

section \<open>Compare and swap\<close>

definition cas_line :: "string \<Rightarrow> nat \<Rightarrow> string \<Rightarrow> bool \<Rightarrow> string" where
  "cas_line key b cas noreply =
     ''cas '' @ key @ '' 0 '' @ decimal 0 @ '' '' @ decimal b @ '' '' @ cas @ (if noreply then '' noreply'' else [])"

text \<open>The identifier and what is behind it.\<close>

lemma common_cas_fields:
  assumes inp: "input = pre @ decimal b @ '' '' @ cas @ (if noreply then '' noreply'' else []) @ crlf @ rest"
    and cr: "CHR 0x0D \<notin> set pre" and tok: "token cas" and len: "length input < 2 ^ 32 - 1"
    and n: "n = length (pre @ decimal b @ '' '' @ cas @ (if noreply then '' noreply'' else []))"
  shows "\<exists>bs start ts st. commonBytes input (of_nat n) True (of_nat (length pre)) store w = Continue (bs, start, ts, st) \<and>
     commonNoreply input (of_nat n) True bs start ts st w = Continue (decimal b, store\<lparr>st_casStr := cas, st_noreply := noreply\<rparr>)"
proof -
  let ?p = "pre @ decimal b @ '' ''"
  have n32: "n < 2 ^ 32 - 1" using len by (simp add: inp n)
  have i1: "input = pre @ decimal b @ '' '' @ (cas @ (if noreply then '' noreply'' else []) @ crlf @ rest)" by (simp add: inp)
  note r = read_field [OF i1 token_decimal len refl, of n]
  have f1: "find_space input (of_nat (length pre)) = of_nat (length pre + length (decimal b))"
    and g1: "substr input (of_nat (length pre)) (of_nat (length pre + length (decimal b)) - of_nat (length pre)) = Inr (decimal b)"
    and h1: "\<not> past_line (of_nat (length pre + length (decimal b))) (of_nat n)"
      "of_nat (length pre + length (decimal b)) \<noteq> npos"
    using r n32 n by simp_all
  have s2: "(of_nat (length pre + length (decimal b)) + 1 :: uint) = of_nat (length ?p)" by simp
  show ?thesis
  proof (cases noreply)
    case False
    have i2: "input = ?p @ cas @ crlf @ rest" and nn: "n = length ?p + length cas" using False by (simp_all add: inp n)
    let ?ts = "find_space input (of_nat (length ?p))"
    have off: "of_nat n < ?ts" unfolding nn by (rule find_space_last [OF i2]) (use tok len in \<open>simp_all add: token_def\<close>)
    obtain c where c: "substr input (of_nat (length ?p)) (?ts - of_nat (length ?p)) = Inr c"
    proof -
      have "unat (of_nat (length ?p) :: uint) = length ?p" by (rule unat_of_nat32) (use len i2 in simp)
      then have "unat (of_nat (length ?p) :: uint) \<le> length input" using i2 by simp
      from substr_ok [OF this] that show thesis by blast
    qed
    have f: "str_find input crlf (of_nat (length ?p)) = of_nat (length ?p + length cas)"
      by (rule str_find_crlf [OF i2 len _ refl]) (use tok in \<open>simp add: token_def\<close>)
    have g: "substr input (of_nat (length ?p)) (of_nat (length ?p + length cas) - of_nat (length ?p)) = Inr cas"
      by (rule substr_field [OF i2 len])
    have "commonBytes input (of_nat n) True (of_nat (length pre)) store w =
        Continue (decimal b, of_nat (length ?p), ?ts, store\<lparr>st_casStr := c\<rparr>)"
      unfolding commonBytes_def Let_def f1 g1 s2 c using h1 by (simp only: lift_simps step_bind_simps if_True if_False simp_thms)
    moreover have "commonNoreply input (of_nat n) True (decimal b) (of_nat (length ?p)) ?ts (store\<lparr>st_casStr := c\<rparr>) w =
        Continue (decimal b, (store\<lparr>st_casStr := c\<rparr>)\<lparr>st_casStr := cas, st_noreply := False\<rparr>)"
      unfolding commonNoreply_def Let_def f g using off by (simp only: lift_simps step_bind_simps if_True)
    ultimately show ?thesis using False by auto
  next
    case True
    have i2: "input = ?p @ cas @ '' '' @ (''noreply'' @ crlf @ rest)" and nn: "n = length ?p + length cas + 8"
      using True by (simp_all add: inp n)
    note r2 = read_field [OF i2 tok len refl, of n]
    have f2: "find_space input (of_nat (length ?p)) = of_nat (length ?p + length cas)"
      and g2: "substr input (of_nat (length ?p)) (of_nat (length ?p + length cas) - of_nat (length ?p)) = Inr cas"
      and h2: "\<not> (of_nat n :: uint) < of_nat (length ?p + length cas)"
      using r2 n32 nn by simp_all
    let ?q = "?p @ cas @ '' ''"
    have i3: "input = ?q @ ''noreply'' @ crlf @ rest" and n3: "n = length ?q + length ''noreply''" using i2 nn by simp_all
    have s3: "(of_nat (length ?p + length cas) + 1 :: uint) = of_nat (length ?q)" by simp
    have f3: "str_find input crlf (of_nat (length ?q)) = of_nat (length ?q + length ''noreply'')"
      by (rule str_find_crlf [OF i3 len _ refl]) simp
    have g3: "substr input (of_nat (length ?q)) (of_nat (length ?q + length ''noreply'') - of_nat (length ?q)) = Inr ''noreply''"
      by (rule substr_field [OF i3 len])
    have ne: "(of_nat (length ?q) :: uint) \<noteq> of_nat n" using n3 n32 by (subst of_nat_eq32) simp_all
    have "commonBytes input (of_nat n) True (of_nat (length pre)) store w =
        Continue (decimal b, of_nat (length ?p), of_nat (length ?p + length cas), store\<lparr>st_casStr := cas\<rparr>)"
      unfolding commonBytes_def Let_def f1 g1 s2 f2 g2 using h1 by (simp only: lift_simps step_bind_simps if_True if_False simp_thms)
    moreover have "commonNoreply input (of_nat n) True (decimal b) (of_nat (length ?p)) (of_nat (length ?p + length cas))
        (store\<lparr>st_casStr := cas\<rparr>) w = Continue (decimal b, store\<lparr>st_casStr := cas, st_noreply := True\<rparr>)"
      unfolding commonNoreply_def Let_def s3 f3 g3 using h2 ne
      by (simp only: lift_simps step_bind_simps if_True if_False simp_thms)
    ultimately show ?thesis using True by auto
  qed
qed

lemma common_cas_line:
  assumes inp: "input = cas_line key b cas noreply @ crlf @ rest" and tok: "token key" "token cas"
    and len: "length input < 2 ^ 32 - 1"
  shows "cmdProcessCommon input True False empty_store w =
    (case commonData input (of_nat (length (cas_line key b cas noreply))) (decimal b)
        (empty_store\<lparr>st_key := key, st_flags := ''0'', st_expTime := 0, st_casStr := cas, st_noreply := noreply\<rparr>) w of
       Throw e \<Rightarrow> Inl e | Return r out store w \<Rightarrow> Inr (r, out, store, w) | Continue _ \<Rightarrow> Inr (0, [], empty_store, w))"
proof -
  let ?vk = "''cas'' @ '' '' @ key @ '' ''"
  let ?pre = "?vk @ ''0'' @ '' '' @ decimal 0 @ '' ''"
  let ?opt = "if noreply then '' noreply'' else []"
  define n where "n = length (cas_line key b cas noreply)"
  have hdr: "cas_line key b cas noreply = ?pre @ decimal b @ '' '' @ cas @ ?opt" by (simp add: cas_line_def)
  have n: "n = length (?pre @ decimal b @ '' '' @ cas @ ?opt)" unfolding n_def hdr by simp
  have i: "input = ?pre @ decimal b @ '' '' @ cas @ ?opt @ crlf @ rest" by (simp add: inp hdr)
  have n32: "n < 2 ^ 32 - 1" using len by (simp add: inp n_def)
  have cr: "CHR 0x0D \<notin> set ?pre" "CHR 0x0D \<notin> set (decimal b)" using tok token_decimal [of b] token_decimal [of 0] by (auto simp: token_def)
  have endl: "str_find input crlf 0 = of_nat n"
    unfolding n_def by (rule find_line_end [OF inp]) (use tok cr len in \<open>auto simp: hdr token_def\<close>)
  have k: "commonKey input (of_nat n) empty_store w = Continue (of_nat (length ?vk), empty_store\<lparr>st_key := key\<rparr>)"
    using commonKey_field [of input "''cas''" key "''0'' @ '' '' @ decimal 0 @ '' '' @ decimal b @ '' '' @ cas @ ?opt @ crlf @ rest" n empty_store w]
      i tok len n32 n by (simp add: token_def)
  have f: "commonFlags input (of_nat n) (of_nat (length ?vk)) st w =
      Continue (of_nat (length (?vk @ ''0'' @ '' '' @ decimal 0)), st\<lparr>st_flags := ''0'', st_expTime := 0\<rparr>, w)" for st
  proof -
    have "commonFlags input (of_nat n) (of_nat (length ?vk)) st w =
        Continue (of_nat (length (?vk @ ''0'' @ '' '' @ decimal 0)), st\<lparr>st_flags := ''0'', st_expTime := store_expiry 0 w\<rparr>,
          expiry_tick 0 w)"
      by (rule commonFlags_fields [of _ _ _ _ "decimal b @ '' '' @ cas @ ?opt @ crlf @ rest"])
        (use i len n32 n stoul_decimal [of 0] in \<open>simp_all add: token_def [of "''0''"]\<close>)
    then show ?thesis using zero_expiry [of w] by simp
  qed
  have next1: "(of_nat (length (?vk @ ''0'' @ '' '' @ decimal 0)) + 1 :: uint) = of_nat (length ?pre)" by simp
  from common_cas_fields [OF i cr(1) tok(2) len n,
      of "empty_store\<lparr>st_key := key, st_flags := ''0'', st_expTime := 0\<rparr>" w]
  obtain bs start ts st where
    c: "commonBytes input (of_nat n) True (of_nat (length ?pre)) (empty_store\<lparr>st_key := key, st_flags := ''0'', st_expTime := 0\<rparr>) w =
        Continue (bs, start, ts, st)"
      "commonNoreply input (of_nat n) True bs start ts st w = Continue (decimal b,
        empty_store\<lparr>st_key := key, st_flags := ''0'', st_expTime := 0, st_casStr := cas, st_noreply := noreply\<rparr>)" by auto
  show ?thesis
    unfolding cmdProcessCommon_def Let_def endl k step_bind_simps prod.case if_False f next1 c n_def [symmetric] ..
qed

lemma cas_sizes:
  assumes "short_key key" and "short_data data" and "token cas" "length cas \<le> 20"
  shows "frame_ok (cas_line key (length data) cas noreply @ crlf, data @ crlf)"
    and "length (cas_line key (length data) cas noreply @ crlf) \<le> 100"
proof -
  have "length (decimal (length data)) \<le> 2" using assms(2) by (intro length_decimal_le) (simp_all add: short_data_def)
  moreover have "length (decimal 0) \<le> 1" by (intro length_decimal_le) simp_all
  ultimately show "length (cas_line key (length data) cas noreply @ crlf) \<le> 100"
    using assms(1,4) by (simp add: cas_line_def crlf_def short_key_def)
  show "frame_ok (cas_line key (length data) cas noreply @ crlf, data @ crlf)"
    using assms(1-3) token_decimal [of 0] token_decimal [of "length data"]
    by (intro frame_ok_block) (auto simp: cas_line_def token_def short_key_def short_data_def)
qed

lemma cas_frame:
  assumes "short_key key" and "short_data data" and "token cas" "length cas \<le> 20" and "\<not> gIsFlushAllSet w"
    and "rbind (dbInsertElement key ''0'' cas data 0 w)
            (\<lambda>(st, w). if st = MEMORY_FULL then Inr (0, reply noreply no_memory, w)
                       else if st = EXIST then Inr (0, reply noreply (line ''EXISTS''), w)
                       else if st = NOT_EXIST then Inr (0, reply noreply (line ''NOT_FOUND''), w)
                       else Inr (0, reply noreply (line ''STORED''), w)) = (Inr (0, out, w') :: handler_result)"
  shows "frame_reply (cas_line key (length data) cas noreply @ crlf, data @ crlf) w = Some (out, w')"
proof -
  let ?l = "cas_line key (length data) cas noreply"
  note len = cas_sizes(2) [OF assms(1-4), of noreply]
  have len2: "length (?l @ crlf @ data @ crlf) < 2 ^ 32 - 1" using len assms(2) by (simp add: short_data_def crlf_def)
  have len1: "length (?l @ crlf) < 2 ^ 32 - 1" using len by simp
  have tok: "token key" "token cas" using assms(1,3) by (simp_all add: short_key_def)
  have d: "data \<noteq> []" "length data + 2 < 2 ^ 31" using assms(2) by (simp_all add: short_data_def)
  have b: "stoul (decimal (length data)) = Inr (of_nat (length data))" using d by (intro stoul_decimal) simp
  let ?st = "empty_store\<lparr>st_key := key, st_flags := ''0'', st_expTime := 0, st_casStr := cas, st_noreply := noreply\<rparr>"
  have disp: "cmdProcessCommand (?l @ crlf @ x) w = cmdProcessCas (?l @ crlf @ x) w"
    if "length (?l @ crlf @ x) < 2 ^ 32 - 1" for x
  proof -
    have "?l @ crlf @ x = ''cas'' @ '' '' @ (key @ '' 0 '' @ decimal 0 @ '' '' @ decimal (length data) @ '' '' @ cas @
        (if noreply then '' noreply'' else []) @ crlf @ x)" by (simp add: cas_line_def)
    from cmdProcessCommand_args [OF this _ that, of w] assms(5) show ?thesis by (simp add: token_def cmdDispatch_def)
  qed
  show ?thesis
  proof (rule frame_block)
    have i1: "?l @ crlf = ?l @ crlf @ []" by simp
    have "cmdProcessCommon (?l @ crlf) True False empty_store w =
        Inr (int (length data + 2), [], ?st\<lparr>st_bytes := of_nat (length data), st_data := []\<rparr>, w)"
      using common_cas_line [OF i1 tok len1, of w] commonData_missing [OF i1 len1 b _ d(2), of ?st w] d(1) by simp
    then show "cmdProcessCommand (?l @ crlf) w = Inr (int (length (data @ crlf)), [], w)"
      using disp [of "[]"] len1 by (simp add: cmdProcessCas_def with_store_def crlf_def)
    have i2: "?l @ crlf @ data @ crlf = ?l @ crlf @ (data @ crlf)" by simp
    have "cmdProcessCommon (?l @ crlf @ data @ crlf) True False empty_store w =
        Inr (0, [], ?st\<lparr>st_bytes := of_nat (length data), st_data := data\<rparr>, w)"
      using common_cas_line [OF i2 tok len2, of w] commonData_enough [OF i2 len2 b, of ?st w] d(1) by simp
    then show "cmdProcessCommand ((?l @ crlf) @ data @ crlf) w = Inr (0, out, w')"
      using disp [of "data @ crlf"] len2 assms(6) by (simp add: cmdProcessCas_def with_store_def cong: if_cong)
  qed (simp add: crlf_def)
qed

end
