(* ===== verification/MemcapableTests.thy ===== *)
theory MemcapableTests
  imports MemcapableValues CmdFramesEdit
begin

text \<open>
  The test cases of \<open>memcapable\<close> against the contract of a cache: what each request answers,
  stated over the content a client can rely on. A link that keeps the contract passes every test;
  each test says how many requests it makes, how much it stores and which keys it needs.
\<close>

section \<open>What a client relies on\<close>

text \<open>
  The identifiers made and the bytes stored so far; the values that are visible, with the identifier
  where it is known; the keys without an entry; and the keys whose entry a flush has hidden.
\<close>

record cache =
  ca_made :: nat
  ca_stored :: nat
  ca_seen :: "string \<rightharpoonup> string \<times> u64 option"
  ca_absent :: "string set"
  ca_dead :: "string set"

definition made :: "cache \<Rightarrow> cache" where
  "made s = s\<lparr>ca_made := Suc (ca_made s)\<rparr>"

definition grown :: "nat \<Rightarrow> cache \<Rightarrow> cache" where
  "grown b s = s\<lparr>ca_stored := ca_stored s + b\<rparr>"

definition put :: "string \<Rightarrow> string \<Rightarrow> u64 option \<Rightarrow> cache \<Rightarrow> cache" where
  "put key val c s = s\<lparr>ca_seen := (ca_seen s)(key \<mapsto> (val, c)), ca_absent := ca_absent s - {key}\<rparr>"

definition dropped :: "string \<Rightarrow> cache \<Rightarrow> cache" where
  "dropped key s = s\<lparr>ca_seen := (ca_seen s)(key := None), ca_absent := insert key (ca_absent s), ca_dead := ca_dead s - {key}\<rparr>"

definition flushed :: "cache \<Rightarrow> cache" where
  "flushed s = s\<lparr>ca_seen := Map.empty, ca_dead := ca_dead s \<union> dom (ca_seen s)\<rparr>"

lemmas cache_defs = made_def grown_def put_def dropped_def flushed_def

abbreviation has_room :: "cache \<Rightarrow> bool" where
  "has_room s \<equiv> ca_stored s \<le> 6700"

text \<open>A new entry, and a smaller one in its place.\<close>

abbreviation new_bytes :: nat where
  "new_bytes \<equiv> 153"

abbreviation over_bytes :: nat where
  "over_bytes \<equiv> 45"

definition block :: "cache \<Rightarrow> string \<Rightarrow> string" where
  "block s key =
     (if key \<in> ca_absent s then []
      else case ca_seen s key of None \<Rightarrow> [] | Some (v, _) \<Rightarrow> value_line key (length v) [] @ crlf @ v @ crlf)"

text \<open>
  What a test may change: it stores so many bytes, makes so many identifiers and touches only the
  keys given. Whatever else was visible still is, or a flush has hidden it.
\<close>

definition left :: "string set \<Rightarrow> nat \<Rightarrow> nat \<Rightarrow> cache \<Rightarrow> cache \<Rightarrow> bool" where
  "left K b j s s' \<longleftrightarrow>
     ca_stored s' \<le> ca_stored s + b \<and> ca_made s' = ca_made s + j \<and> ca_absent s - K \<subseteq> ca_absent s' \<and>
     ca_dead s - K \<subseteq> ca_dead s' \<and> dom (ca_seen s) - K \<subseteq> dom (ca_seen s') \<union> ca_dead s'"

lemma left_refl: "left K b 0 s s"
  by (auto simp: left_def)

lemma left_trans:
  assumes "left K b j s s1" and "left K' b' j' s1 s'"
  shows "left (K \<union> K') (b + b') (j + j') s s'"
  using assms unfolding left_def by (elim conjE, intro conjI) (simp, simp, blast+)

lemma left_keeps:
  assumes "left K b j s s'" and "k \<notin> K"
  shows "k \<in> ca_dead s \<Longrightarrow> k \<in> ca_dead s'" and "k \<in> dom (ca_seen s) \<union> ca_dead s \<Longrightarrow> k \<in> dom (ca_seen s') \<union> ca_dead s'"
  using assms unfolding left_def by blast+

text \<open>The requests that are answered alike in every state: by an error, or by the text given.\<close>

definition fixed_errors :: "(string \<times> string) list" where
  "fixed_errors =
     [(''version foo bar'', ''version does not accept options''),
      (''version noreply'', ''version does not accept options''),
      (''quit foo bar'', ''quit has no options''),
      (''quit noreply'', ''quit has no options''),
      (''verbosity foo bar my'', ''invalid expiry time''),
      (''verbosity noreply'', ''invalid expiry time''),
      (''verbosity'', ''exp time not found''),
      (''stats noreply'', ''quit has no options''),
      (''get'', ''no key found''),
      (''gets'', ''no key found''),
      (''delete'', ''key not found''),
      (''delete a b c d e'', ''junk found after key'')]"

definition fixed_replies :: "(string \<times> string) list" where
  "fixed_replies =
     [(''version'', line ''VERSION 1.0''), (''verbosity 0 noreply'', []), (''verbosity 1'', line ''OK''),
      (''verbosity 0'', line ''OK''), (''stats'', line ''END'')]"

definition word10 :: "string \<Rightarrow> bool" where
  "word10 d \<longleftrightarrow> d \<noteq> [] \<and> length d \<le> 10 \<and> CHR 0x0D \<notin> set d"

section \<open>Running a test\<close>

text \<open>The test gets through, with a result and a wire as described.\<close>

definition runs :: "'a test \<Rightarrow> wire \<Rightarrow> ('a \<Rightarrow> wire \<Rightarrow> bool) \<Rightarrow> bool" where
  "runs m x Q \<longleftrightarrow> (\<exists>a x'. m x = Inr (Some a, x') \<and> Q a x')"

lemma runs_pass [simp]: "runs (pass a) x Q \<longleftrightarrow> Q a x"
  by (simp add: runs_def)

lemma runs_verify [simp]: "runs (verify b m) x Q \<longleftrightarrow> b \<and> runs m x Q"
  by (cases b) (simp_all add: runs_def)

lemma runs_tbind: "runs e x (\<lambda>a x'. runs (f a) x' Q) \<Longrightarrow> runs (tbind e f) x Q"
  by (auto simp: runs_def)

lemma runs_execute: "runs e x (\<lambda>r x'. r = TEST_PASS \<and> runs m x' Q) \<Longrightarrow> runs (execute e m) x Q"
  by (auto simp: runs_def)

lemma runs_mono: "runs m x P \<Longrightarrow> (\<And>a x'. P a x' \<Longrightarrow> Q a x') \<Longrightarrow> runs m x Q"
  by (auto simp: runs_def)

lemma runs_send: "runs m (x\<lparr>w_out := w_out x @ msg\<rparr>) Q \<Longrightarrow> runs (execute (send_string msg) m) x Q"
  by (rule runs_execute) (simp add: runs_def [of "send_string msg"])

context text_link
begin

lemma step_silent:
  assumes "linked n [] s x" and "n < 1000" and "answer (hdr, body) s [] s'" and "msg = hdr @ body"
    and "\<And>x'. linked (Suc n) [] s' x' \<Longrightarrow> runs m x' Q"
  shows "runs (execute (send_string msg) m) x Q"
  by (rule runs_send) (rule assms(5) [OF ask [OF assms(1-4)]])

lemma step_response:
  assumes "linked n [] s x" and "n < 1000" and "answer (hdr, body) s (line l) s'" and "msg = hdr @ body"
    and "CHR 0x0A \<notin> set l" "CHR 0x00 \<notin> set l" and "length l + 2 < 80"
    and "\<And>x'. linked (Suc n) [] s' x' \<Longrightarrow> runs m x' Q"
  shows "runs (execute (send_string msg) (execute (receive_response (l @ crlf)) m)) x Q"
proof (rule runs_send, rule runs_execute)
  have "linked (Suc n) (l @ crlf @ []) s' (x\<lparr>w_out := w_out x @ msg\<rparr>)" using ask [OF assms(1-4)] by (simp add: line_def)
  from read_response [OF this assms(5-7)] assms(8)
  show "runs (receive_response (l @ crlf)) (x\<lparr>w_out := w_out x @ msg\<rparr>) (\<lambda>r x'. r = TEST_PASS \<and> runs m x' Q)"
    by (auto simp: runs_def [of "receive_response (l @ crlf)"])
qed

lemma step_error:
  assumes "linked n [] s x" and "n < 1000" and "answer (hdr, []) s (client_error l) s'"
    and "CHR 0x0A \<notin> set l" and "length l < 60" and "\<And>x'. linked (Suc n) [] s' x' \<Longrightarrow> runs m x' Q"
  shows "runs (execute (send_string hdr) (execute receive_error_response m)) x Q"
proof (rule runs_send, rule runs_execute)
  have "linked (Suc n) (client_error l @ []) s' (x\<lparr>w_out := w_out x @ hdr\<rparr>)" using ask [OF assms(1-3)] by simp
  from read_error [OF this assms(4,5)] assms(6)
  show "runs receive_error_response (x\<lparr>w_out := w_out x @ hdr\<rparr>) (\<lambda>r x'. r = TEST_PASS \<and> runs m x' Q)"
    by (auto simp: runs_def [of receive_error_response])
qed

lemma step_line:
  assumes "linked n [] s x" and "n < 1000" and "answer (hdr, body) s (line l) s'" and "msg = hdr @ body"
    and "CHR 0x0A \<notin> set l" and "length l + 2 < k" and "\<And>x'. linked (Suc n) [] s' x' \<Longrightarrow> runs (f (l @ crlf)) x' Q"
  shows "runs (execute (send_string msg) (tbind (receive_line k) f)) x Q"
proof (rule runs_send, rule runs_tbind)
  have "linked (Suc n) (l @ crlf @ []) s' (x\<lparr>w_out := w_out x @ msg\<rparr>)" using ask [OF assms(1-4)] by (simp add: line_def)
  from read_crlf_line [OF this assms(5,6)] assms(7)
  show "runs (receive_line k) (x\<lparr>w_out := w_out x @ msg\<rparr>) (\<lambda>a x'. runs (f a) x' Q)"
    by (auto simp: runs_def [of "receive_line k"])
qed

end

section \<open>The requests of the tests\<close>

lemma decimal_small:
  "decimal (Suc (Suc (Suc (Suc (Suc 0))))) = ''5''" "decimal (Suc (Suc (Suc (Suc (Suc (Suc 0)))))) = ''6''"
  "decimal 9 = ''9''" "decimal 10 = ''10''"
  by code_simp+

lemma short_plain: "short_key key \<Longrightarrow> plain_key key"
  by (simp add: short_key_def plain_key_def token_def)

lemma word10_short: "word10 d \<Longrightarrow> short_data d"
  by (simp add: word10_def short_data_def)

lemma store_msg:
  assumes "short_key key"
  shows "snprintf 1024 (''set '' @ key @ '' 0 0 5'' @ noreply_mark nr @ crlf @ ''value'' @ crlf) =
      store_hdr ''set'' key nr ''value'' @ ''value'' @ crlf"
    and "snprintf 1024 (''add '' @ key @ '' 0 0 5'' @ noreply_mark nr @ crlf @ ''value'' @ crlf) =
      store_hdr ''add'' key nr ''value'' @ ''value'' @ crlf"
    and "snprintf 1024 (''replace '' @ key @ '' 0 0 5'' @ noreply_mark nr @ crlf @ ''value'' @ crlf) =
      store_hdr ''replace'' key nr ''value'' @ ''value'' @ crlf"
  using assms
  by (simp_all add: store_hdr_def storage_line_def noreply_mark_def decimal_0 decimal_small short_key_def crlf_def)

lemma set_item_msg:
  assumes "short_key key" and "short_data v"
  shows "snprintf 300 (''set '' @ key @ '' 0 0 '' @ decimal (length v) @ crlf) = store_hdr ''set'' key False v"
proof -
  have eq: "''set '' @ key @ '' 0 0 '' @ decimal (length v) @ crlf = store_hdr ''set'' key False v"
    by (simp add: store_hdr_def storage_line_def decimal_0)
  have "length (store_hdr ''set'' key False v) < 300" using length_store_hdr(1) [OF _ assms, of "''set''" False] by simp
  then show ?thesis unfolding eq by (rule snprintf_id)
qed

lemma concat_msg:
  assumes "short_key key" and "short_data v"
  shows "concat_cmd app key v nr = store_hdr (if app then ''append'' else ''prepend'') key nr v @ v @ crlf"
proof -
  let ?verb = "if app then ''append'' else ''prepend''"
  have eq: "?verb @ '' '' @ key @ '' 0 0 '' @ decimal (length v) @ noreply_mark nr @ crlf @ v @ crlf =
      store_hdr ?verb key nr v @ v @ crlf"
    by (simp add: store_hdr_def storage_line_def decimal_0 noreply_mark_def)
  have "length (store_hdr ?verb key nr v @ v @ crlf) < 400" using length_store_hdr(2) [OF _ assms, of ?verb nr] by (cases app) simp_all
  then show ?thesis unfolding concat_cmd_def eq by (rule snprintf_id)
qed

lemma cas_msg:
  assumes "short_key key"
  shows "snprintf 1024 (''cas '' @ key @ '' 0 0 6 '' @ decimal (unat (c :: u64)) @ noreply_mark nr @ crlf @ ''value2'' @ crlf) =
      (cas_line key (length ''value2'') (decimal (unat c)) nr @ crlf) @ ''value2'' @ crlf"
  using assms length_to_string64 [of c]
  by (simp add: cas_line_def noreply_mark_def decimal_0 decimal_small short_key_def crlf_def to_string_def)

lemma key_msg:
  assumes "short_key key"
  shows "snprintf 1024 (''get '' @ key @ crlf) = ''get '' @ spaced [key] @ crlf"
    and "snprintf 1024 (''gets '' @ key @ crlf) = ''gets '' @ key @ crlf"
    and "snprintf 1024 (''delete '' @ key @ noreply_mark nr @ crlf) = delete_line key nr"
    and "snprintf 300 (''incr '' @ key @ '' 1'' @ noreply_mark nr @ crlf) = key_line ''incr'' key ''1'' nr"
    and "snprintf 300 (''decr '' @ key @ '' 1'' @ noreply_mark nr @ crlf) = key_line ''decr'' key ''1'' nr"
  using assms by (simp_all add: delete_line_def key_line_def noreply_mark_def short_key_def crlf_def)

lemma runs_write3:
  "runs (execute (send_string (a @ b @ c)) m) x Q \<Longrightarrow>
   runs (execute (send_string a) (execute (retry_write b) (execute (send_string c) m))) x Q"
  by (simp add: runs_def retry_write_eq)

text \<open>The numbers a counting loop expects.\<close>

fun counts :: "string \<Rightarrow> nat \<Rightarrow> nat list \<Rightarrow> bool" where
  "counts verb a [] \<longleftrightarrow> True"
| "counts verb a (r # rs) \<longleftrightarrow>
     a < 1000 \<and> (verb = ''incr'' \<and> r = a + 1 \<or> verb = ''decr'' \<and> r = a - 1) \<and> counts verb r rs"

section \<open>The contract\<close>

locale text_cache = text_link linked answer
  for linked :: "nat \<Rightarrow> string \<Rightarrow> cache \<Rightarrow> wire \<Rightarrow> bool" and answer :: "frame \<Rightarrow> cache \<Rightarrow> string \<Rightarrow> cache \<Rightarrow> bool" +
  fixes ident :: "nat \<Rightarrow> u64"
  assumes error_answer: "(l, e) \<in> set fixed_errors \<Longrightarrow> answer (l @ crlf, []) s (client_error e) s"
    and fixed_answer: "(l, out) \<in> set fixed_replies \<Longrightarrow> answer (l @ crlf, []) s out s"
    and set_answer: "has_room s \<Longrightarrow> short_key key \<Longrightarrow> short_data d \<Longrightarrow> key \<in> ca_absent s \<Longrightarrow>
      answer (store_hdr ''set'' key nr d, d @ crlf) s (reply nr (line ''STORED''))
        (made (grown new_bytes (put key d (Some (ident (ca_made s))) s)))"
    and set_dead_answer: "has_room s \<Longrightarrow> short_key key \<Longrightarrow> word10 d \<Longrightarrow> key \<in> ca_dead s \<Longrightarrow>
      answer (store_hdr ''set'' key nr d, d @ crlf) s (reply nr (line ''STORED'')) (made (grown over_bytes s))"
    and add_answer: "has_room s \<Longrightarrow> short_key key \<Longrightarrow> short_data d \<Longrightarrow> key \<in> ca_absent s \<Longrightarrow>
      answer (store_hdr ''add'' key nr d, d @ crlf) s (reply nr (line ''STORED'')) (grown new_bytes (put key d None s))"
    and add_again_answer: "has_room s \<Longrightarrow> short_key key \<Longrightarrow> short_data d \<Longrightarrow> ca_seen s key \<noteq> None \<Longrightarrow>
      answer (store_hdr ''add'' key nr d, d @ crlf) s (reply nr (line ''NOT_STORED'')) s"
    and replace_answer: "has_room s \<Longrightarrow> short_key key \<Longrightarrow> word10 d \<Longrightarrow> ca_seen s key \<noteq> None \<Longrightarrow>
      answer (store_hdr ''replace'' key nr d, d @ crlf) s (reply nr (line ''STORED''))
        (made (grown over_bytes (put key d (Some (ident (ca_made s))) s)))"
    and replace_absent_answer: "short_key key \<Longrightarrow> short_data d \<Longrightarrow> key \<in> ca_absent s \<Longrightarrow>
      answer (store_hdr ''replace'' key nr d, d @ crlf) s (reply nr (line ''NOT_STORED'')) s"
    and get_answer: "keys \<noteq> [] \<Longrightarrow> length keys \<le> 6 \<Longrightarrow>
      \<forall>k \<in> set keys. short_key k \<and> (ca_seen s k \<noteq> None \<or> k \<in> ca_absent s) \<Longrightarrow>
      answer (''get '' @ spaced keys @ crlf, []) s (concat (map (block s) keys) @ line ''END'') s"
    and gets_answer: "short_key key \<Longrightarrow> ca_seen s key = Some (v, Some c) \<Longrightarrow>
      answer (''gets '' @ key @ crlf, []) s
        (value_line key (length v) ('' '' @ decimal (unat c)) @ crlf @ v @ crlf @ line ''END'') s"
    and gets_absent_answer: "short_key key \<Longrightarrow> key \<in> ca_absent s \<Longrightarrow>
      answer (''gets '' @ key @ crlf, []) s (line ''END'') s"
    and get_dead_answer: "short_key key \<Longrightarrow> key \<in> ca_dead s \<Longrightarrow>
      answer (''get '' @ key @ crlf, []) s (line ''END'') (dropped key s)"
    and delete_answer: "short_key key \<Longrightarrow> ca_seen s key \<noteq> None \<Longrightarrow>
      answer (delete_line key nr, []) s (reply nr (line ''DELETED'')) (dropped key s)"
    and delete_absent_answer: "short_key key \<Longrightarrow> key \<in> ca_absent s \<Longrightarrow>
      answer (delete_line key nr, []) s (reply nr (line ''NOT_FOUND'')) s"
    and count_answer: "has_room s \<Longrightarrow> short_key key \<Longrightarrow> ca_seen s key = Some (decimal n, cas) \<Longrightarrow> n < 1000 \<Longrightarrow>
      verb = ''incr'' \<and> r = n + 1 \<or> verb = ''decr'' \<and> r = n - 1 \<Longrightarrow>
      answer (key_line verb key ''1'' nr, []) s (reply nr (line (decimal r))) (made (grown over_bytes (put key (decimal r) None s)))"
    and concat_answer: "has_room s \<Longrightarrow> short_key key \<Longrightarrow> word10 d \<Longrightarrow> ca_seen s key = Some (v, cas) \<Longrightarrow> length v \<le> 10 \<Longrightarrow>
      verb = (if app then ''append'' else ''prepend'') \<Longrightarrow> val = (if app then v @ d else d @ v) \<Longrightarrow>
      answer (store_hdr verb key nr d, d @ crlf) s (reply nr (line ''STORED'')) (made (grown over_bytes (put key val None s)))"
    and concat_absent_answer: "short_key key \<Longrightarrow> short_data d \<Longrightarrow> key \<in> ca_absent s \<Longrightarrow>
      verb = (if app then ''append'' else ''prepend'') \<Longrightarrow>
      answer (store_hdr verb key nr d, d @ crlf) s (reply nr (line ''NOT_STORED'')) s"
    and cas_answer: "has_room s \<Longrightarrow> short_key key \<Longrightarrow> word10 d \<Longrightarrow> ca_seen s key = Some (v, Some c) \<Longrightarrow>
      answer (cas_line key (length d) (decimal (unat c)) nr @ crlf, d @ crlf) s (reply nr (line ''STORED''))
        (made (grown over_bytes (put key d (Some (ident (ca_made s))) s)))"
    and cas_differs_answer: "has_room s \<Longrightarrow> short_key key \<Longrightarrow> word10 d \<Longrightarrow> ca_seen s key = Some (v, Some c') \<Longrightarrow> c' \<noteq> c \<Longrightarrow>
      answer (cas_line key (length d) (decimal (unat c)) nr @ crlf, d @ crlf) s (reply nr (line ''EXISTS'')) (made s)"
    and flush_answer: "answer (''flush_all'' @ crlf, []) s (line ''OK'') (flushed s)"
    and flush_noreply_answer: "answer (''flush_all noreply'' @ crlf, []) s [] (flushed s)"
    and link_quit: "linked n [] s x \<Longrightarrow> n < 1000 \<Longrightarrow>
      \<exists>x' x''. timeout_io_op 80 (x\<lparr>w_out := w_out x @ ''quit'' @ crlf\<rparr>) = Inr (IoClosed, x') \<and>
        reconnect x' = Inr x'' \<and> linked (Suc n) [] s x''"
    and link_reconnect: "linked n [] s x \<Longrightarrow> \<exists>x'. reconnect x = Inr x' \<and> linked n [] s x'"
begin

section \<open>Tests without content\<close>

lemma step_refused:
  assumes "linked n [] s x" and "n < 1000" and "l \<in> fst ` set fixed_errors" and "\<And>x'. linked (Suc n) [] s x' \<Longrightarrow> runs m x' Q"
  shows "runs (execute (send_string (l @ crlf)) (execute receive_error_response m)) x Q"
proof -
  from assms(3) obtain e where e: "(l, e) \<in> set fixed_errors" by force
  then have "CHR 0x0A \<notin> set e \<and> length e < 60" by (auto simp: fixed_errors_def)
  then show ?thesis using step_error [OF assms(1,2) error_answer [OF e]] assms(4) by blast
qed

lemma step_fixed:
  assumes "linked n [] s x" and "n < 1000" and "(l, line e) \<in> set fixed_replies" and "\<And>x'. linked (Suc n) [] s x' \<Longrightarrow> runs m x' Q"
  shows "runs (execute (send_string (l @ crlf)) (execute (receive_response (e @ crlf)) m)) x Q"
proof -
  have "CHR 0x0A \<notin> set e \<and> CHR 0x00 \<notin> set e \<and> length e + 2 < 80" using assms(3) by (auto simp: fixed_replies_def line_def)
  then show ?thesis by (intro step_response [OF assms(1,2) fixed_answer [OF assms(3)]]) (use assms(4) in auto)
qed

lemma test_version:
  assumes "linked n [] s x" and "n + 3 \<le> 1000"
  shows "runs test_ascii_version x (\<lambda>r x'. r = TEST_PASS \<and> linked (n + 3) [] s x')"
  unfolding test_ascii_version_def
  using assms
  apply (elim step_refused; (simp add: fixed_errors_def; fail)?)
  apply (erule step_line [OF _ _ fixed_answer [of "''version''" "line ''VERSION 1.0''"]]; (simp add: fixed_replies_def; fail)?)
  apply (simp add: c_str_def crlf_def link_mono)
  done

lemma end_version:
  assumes "linked n [] s x" and "n + 3 \<le> 1000" and "\<And>x'. linked (n + 3) [] s x' \<Longrightarrow> Q TEST_PASS x'"
  shows "runs test_ascii_version x Q"
  by (rule runs_mono [OF test_version [OF assms(1,2)]]) (use assms(3) in blast)

lemma step_version:
  assumes "linked n [] s x" and "n + 3 \<le> 1000" and "\<And>x'. linked (n + 3) [] s x' \<Longrightarrow> runs m x' Q"
  shows "runs (execute test_ascii_version m) x Q"
  by (rule runs_execute, rule runs_mono [OF test_version [OF assms(1,2)]]) (use assms(3) in blast)

lemma test_verbosity:
  assumes "linked n [] s x" and "n + 9 \<le> 1000"
  shows "runs test_ascii_verbosity x (\<lambda>r x'. r = TEST_PASS \<and> linked (n + 9) [] s x')"
  unfolding test_ascii_verbosity_def
  using assms
  apply (elim step_refused; (simp add: fixed_errors_def; fail)?)
  apply (erule step_silent [OF _ _ fixed_answer [of "''verbosity 0 noreply''" "[]"]]; (simp add: fixed_replies_def; fail)?)
  apply (erule step_version; (simp; fail)?)
  apply (elim step_refused; (simp add: fixed_errors_def; fail)?)
  apply (elim step_fixed; (simp add: fixed_replies_def; fail)?)
  apply (simp add: link_mono)
  done

text \<open>The end of the connection, and the beginning of the next.\<close>

lemma test_quit:
  assumes "linked n [] s x" and "n + 3 \<le> 1000"
  shows "runs test_ascii_quit x (\<lambda>r x1. r = TEST_PASS_RECONNECT \<and> (\<exists>x2. reconnect x1 = Inr x2 \<and> linked (n + 3) [] s x2))"
  unfolding test_ascii_quit_def
  using assms
  apply (elim step_refused; (simp add: fixed_errors_def; fail)?)
  apply (rule runs_send)
  apply (drule link_quit, simp)
  apply (auto simp: runs_def link_mono)
  done

lemma test_stat:
  assumes "linked n [] s x" and "n + 2 \<le> 1000"
  shows "runs test_ascii_stat x (\<lambda>r x1. r = TEST_PASS_RECONNECT \<and> (\<exists>x2. reconnect x1 = Inr x2 \<and> linked (n + 2) [] s x2))"
proof -
  have stat: "stat_lines 1000 = tbind (receive_line 1024)
      (\<lambda>buffer. if c_str buffer = ''END'' @ crlf then pass TEST_PASS_RECONNECT else stat_lines 999)"
    using stat_lines.simps(2) [of 999] by (intro ext) (simp del: stat_lines.simps)
  show ?thesis
    unfolding test_ascii_stat_def stat
    using assms
    apply (elim step_refused; (simp add: fixed_errors_def; fail)?)
    apply (erule step_line [OF _ _ fixed_answer [of "''stats''" "line ''END''"]]; (simp add: fixed_replies_def; fail)?)
    apply (drule link_reconnect)
    apply (auto simp: c_str_def crlf_def link_mono)
    done
qed

section \<open>Steps with a key\<close>

lemma step_reply:
  assumes "linked n [] s x" and "n < 1000" and "answer (hdr, body) s (reply nr (line l)) s'" and "msg = hdr @ body"
    and "CHR 0x0A \<notin> set l" "CHR 0x00 \<notin> set l" and "length l + 2 < 80"
    and "\<And>x'. linked (Suc n) [] s' x' \<Longrightarrow> runs m x' Q"
  shows "runs (execute (send_string msg) (reply_unless nr (l @ crlf) m)) x Q"
proof (cases nr)
  case True
  then show ?thesis using step_silent [OF assms(1,2) _ assms(4) assms(8)] assms(3) by (simp add: reply_unless_def reply_def)
next
  case False
  then show ?thesis using step_response [OF assms(1,2) _ assms(4-8)] assms(3) by (simp add: reply_unless_def reply_def)
qed

lemma step_reply_version:
  assumes "linked n [] s x" and "n + 4 \<le> 1000" and "answer (hdr, body) s (reply nr (line l)) s'" and "msg = hdr @ body"
    and "CHR 0x0A \<notin> set l" "CHR 0x00 \<notin> set l" and "length l + 2 < 80"
    and "\<And>x'. linked (n + 4) [] s' x' \<Longrightarrow> runs m x' Q"
  shows "runs (execute (send_string msg) (reply_or_version nr (l @ crlf) m)) x Q"
proof (cases nr)
  case True
  then have "runs (execute (send_string msg) (execute test_ascii_version m)) x Q"
    using assms
    apply (elim step_silent [OF _ _ _ assms(4)]; (simp add: reply_def; fail)?)
    apply (erule step_version; simp add: add.commute)
    done
  with True show ?thesis by (simp add: reply_or_version_def)
next
  case False
  have "runs (execute (send_string msg) (execute (receive_response (l @ crlf)) m)) x Q"
    by (rule step_response [OF assms(1) _ _ assms(4-7)]) (use assms(2,3,8) False link_mono [of "Suc n" "[]" s' _ "n + 4"] in \<open>auto simp: reply_def\<close>)
  with False show ?thesis by (simp add: reply_or_version_def)
qed

lemma step_set:
  assumes "linked n [] s x" and "n < 1000" and "has_room s" and "short_key key" "short_data v" and "key \<in> ca_absent s"
    and "\<And>x'. linked (Suc n) [] (made (grown new_bytes (put key v (Some (ident (ca_made s))) s))) x' \<Longrightarrow> runs m x' Q"
  shows "runs (execute (ascii_set_item key v) m) x Q"
proof (rule runs_execute)
  have "answer (store_hdr ''set'' key False v, v @ crlf) s (line ''STORED'')
      (made (grown new_bytes (put key v (Some (ident (ca_made s))) s)))"
    using set_answer [OF assms(3-6), of False] by (simp add: reply_def)
  then show "runs (ascii_set_item key v) x (\<lambda>r x'. r = TEST_PASS \<and> runs m x' Q)"
    unfolding ascii_set_item_def Let_def set_item_msg [OF assms(4,5)]
    by (intro runs_write3 step_response [OF assms(1,2)]) (use assms(7) in simp_all)
qed

lemma runs_end:
  assumes "linked n (line ''END'') s x" and "\<And>x'. linked n [] s x' \<Longrightarrow> runs m x' Q"
  shows "runs (receive_end m) x Q"
  using read_end [of n "[]" s x m] assms by (auto simp: line_def runs_def)

lemma step_get:
  assumes "linked n [] s x" and "n < 1000" and "short_key key" and "ca_seen s key = Some (v, c)" "key \<notin> ca_absent s" and "plain_value v"
    and "\<And>x'. linked (Suc n) [] s x' \<Longrightarrow> runs m x' Q"
  shows "runs (execute (ascii_get_item key v True) m) x Q"
proof (rule runs_execute)
  have "answer (''get '' @ spaced [key] @ crlf, []) s (concat (map (block s) [key]) @ line ''END'') s"
    by (rule get_answer) (use assms(3,4) in simp_all)
  from ask [OF assms(1,2) this, of "''get '' @ spaced [key] @ crlf"]
  have "linked (Suc n) (value_line key (length v) [] @ crlf @ v @ crlf @ line ''END'') s
      (x\<lparr>w_out := w_out x @ ''get '' @ spaced [key] @ crlf\<rparr>)" using assms(4,5) by (simp add: block_def)
  from read_value [OF this short_plain [OF assms(3)] assms(6)] obtain x1
    where x1: "ascii_get_value key v (x\<lparr>w_out := w_out x @ ''get '' @ spaced [key] @ crlf\<rparr>) = Inr (Some TEST_PASS, x1)"
      "linked (Suc n) (line ''END'') s x1" by blast
  have "runs (receive_end (pass TEST_PASS)) x1 (\<lambda>r x'. r = TEST_PASS \<and> runs m x' Q)"
    by (rule runs_end [OF x1(2)]) (use assms(7) in simp)
  with x1(1) have "runs (execute (ascii_get_value key v) (receive_end (pass TEST_PASS)))
      (x\<lparr>w_out := w_out x @ ''get '' @ spaced [key] @ crlf\<rparr>) (\<lambda>r x'. r = TEST_PASS \<and> runs m x' Q)"
    by (intro runs_execute) (simp add: runs_def [of "ascii_get_value key v"])
  then show "runs (ascii_get_item key v True) x (\<lambda>r x'. r = TEST_PASS \<and> runs m x' Q)"
    unfolding ascii_get_item_def key_msg [OF assms(3)] using assms(6) by (simp add: runs_send plain_value_def)
qed

lemma step_get_absent:
  assumes "linked n [] s x" and "n < 1000" and "short_key key" and "key \<in> ca_absent s" and "length v < 1024" and "\<And>x'. linked (Suc n) [] s x' \<Longrightarrow> runs m x' Q"
  shows "runs (execute (ascii_get_item key v False) m) x Q"
proof (rule runs_execute)
  have "answer (''get '' @ spaced [key] @ crlf, []) s (concat (map (block s) [key]) @ line ''END'') s"
    by (rule get_answer) (use assms(3,4) in simp_all)
  from ask [OF assms(1,2) this, of "''get '' @ spaced [key] @ crlf"] assms(4)
  have "linked (Suc n) (line ''END'') s (x\<lparr>w_out := w_out x @ ''get '' @ spaced [key] @ crlf\<rparr>)" by (simp add: block_def)
  then have "runs (receive_end (pass TEST_PASS)) (x\<lparr>w_out := w_out x @ ''get '' @ spaced [key] @ crlf\<rparr>)
      (\<lambda>r x'. r = TEST_PASS \<and> runs m x' Q)" by (rule runs_end) (use assms(6) in simp)
  then show "runs (ascii_get_item key v False) x (\<lambda>r x'. r = TEST_PASS \<and> runs m x' Q)"
    unfolding ascii_get_item_def key_msg [OF assms(3)] using assms(5) by (simp add: runs_send)
qed

lemma step_get_hidden:
  assumes "linked n [] s x" and "n < 1000" and "short_key key" and "key \<in> ca_dead s" and "length v < 1024"
    and "\<And>x'. linked (Suc n) [] (dropped key s) x' \<Longrightarrow> runs m x' Q"
  shows "runs (execute (ascii_get_item key v False) m) x Q"
proof (rule runs_execute)
  have "linked (Suc n) (line ''END'') (dropped key s) (x\<lparr>w_out := w_out x @ ''get '' @ spaced [key] @ crlf\<rparr>)"
    by (rule ask [OF assms(1,2) get_dead_answer [OF assms(3,4)]]) simp
  then have "runs (receive_end (pass TEST_PASS)) (x\<lparr>w_out := w_out x @ ''get '' @ spaced [key] @ crlf\<rparr>)
      (\<lambda>r x'. r = TEST_PASS \<and> runs m x' Q)" by (rule runs_end) (use assms(6) in simp)
  then show "runs (ascii_get_item key v False) x (\<lambda>r x'. r = TEST_PASS \<and> runs m x' Q)"
    unfolding ascii_get_item_def key_msg [OF assms(3)] using assms(5) by (simp add: runs_send)
qed

lemma step_gets:
  assumes "linked n [] s x" and "n < 1000" and "short_key key" and "ca_seen s key = Some (v, Some c)" and "plain_value v"
    and "\<And>x'. linked (Suc n) [] s x' \<Longrightarrow> runs (f c) x' Q"
  shows "runs (tbind (ascii_gets_item key v True c0) f) x Q"
proof (rule runs_tbind)
  let ?x = "x\<lparr>w_out := w_out x @ ''gets '' @ key @ crlf\<rparr>"
  from ask [OF assms(1,2) gets_answer [OF assms(3,4)], of "''gets '' @ key @ crlf"]
  have "linked (Suc n) (value_line key (length v) ('' '' @ decimal (unat c)) @ crlf @ v @ crlf @ line ''END'') s ?x" by simp
  from read_gets_value [OF this short_plain [OF assms(3)] assms(5)] obtain x1
    where x1: "ascii_gets_value key v ?x = Inr (Some c, x1)" "linked (Suc n) (line ''END'') s x1" by blast
  have "runs (receive_end (pass c)) x1 (\<lambda>c x'. runs (f c) x' Q)" by (rule runs_end [OF x1(2)]) (use assms(6) in simp)
  with x1(1) have "runs (tbind (ascii_gets_value key v) (\<lambda>cas. receive_end (pass cas))) ?x (\<lambda>c x'. runs (f c) x' Q)"
    by (intro runs_tbind) (simp add: runs_def [of "ascii_gets_value key v"])
  then show "runs (ascii_gets_item key v True c0) x (\<lambda>c x'. runs (f c) x' Q)"
    unfolding ascii_gets_item_def key_msg [OF assms(3)] using assms(5) by (simp add: runs_send plain_value_def)
qed

lemma step_gets_absent:
  assumes "linked n [] s x" and "n < 1000" and "short_key key" and "key \<in> ca_absent s" and "length v < 1024"
    and "\<And>x'. linked (Suc n) [] s x' \<Longrightarrow> runs (f c) x' Q"
  shows "runs (tbind (ascii_gets_item key v False c) f) x Q"
proof (rule runs_tbind)
  have "linked (Suc n) (line ''END'') s (x\<lparr>w_out := w_out x @ ''gets '' @ key @ crlf\<rparr>)"
    by (rule ask [OF assms(1,2) gets_absent_answer [OF assms(3,4)]]) simp
  then have "runs (receive_end (pass c)) (x\<lparr>w_out := w_out x @ ''gets '' @ key @ crlf\<rparr>) (\<lambda>c x'. runs (f c) x' Q)"
    by (rule runs_end) (use assms(6) in simp)
  then show "runs (ascii_gets_item key v False c) x (\<lambda>c x'. runs (f c) x' Q)"
    unfolding ascii_gets_item_def key_msg [OF assms(3)] using assms(5) by (simp add: runs_send)
qed

text \<open>The counting loops: each step is answered by the number expected, or not at all.\<close>

lemma step_number:
  assumes "linked n [] s x" and "n + 4 \<le> 1000" and "has_room s" and "short_key key" and "ca_seen s key = Some (decimal a, c)"
    and "a < 1000" and "verb = ''incr'' \<and> r = a + 1 \<or> verb = ''decr'' \<and> r = a - 1"
    and "\<And>x'. linked (n + 4) [] (made (grown over_bytes (put key (decimal r) None s))) x' \<Longrightarrow>
      runs (if nr then m else f (decimal r @ crlf)) x' Q"
  shows "runs (execute (send_string (key_line verb key ''1'' nr))
     (if nr then execute test_ascii_version m else tbind (receive_line 80) f)) x Q"
proof -
  let ?s = "made (grown over_bytes (put key (decimal r) None s))" and ?msg = "key_line verb key ''1'' nr"
  note ans = count_answer [OF assms(3-7), of nr]
  have r: "length (decimal r) \<le> 4" using assms(6,7) by (auto intro!: length_decimal_le)
  have more: "linked (n + 4) [] ?s x'" if "linked (Suc n) [] ?s x'" for x'
    by (rule link_mono [OF that]) (use assms(2) in simp_all)
  show ?thesis
  proof (cases nr)
    case True
    then have quiet: "answer (?msg, []) s [] ?s" using ans by (simp add: reply_def)
    have "runs (execute (send_string ?msg) (execute test_ascii_version m)) x Q"
      using assms(1,2,8) True
      apply (elim step_silent [OF _ _ quiet]; (simp; fail)?)
      apply (erule step_version; simp add: add.commute)
      done
    with True show ?thesis by simp
  next
    case False
    then have reply: "answer (?msg, []) s (line (decimal r)) ?s" using ans by (simp add: reply_def)
    have "runs (execute (send_string ?msg) (tbind (receive_line 80) f)) x Q"
      by (intro step_line [OF assms(1) _ reply]) (use assms(2,8) False r decimal_plain(1) [of r] more in simp_all)
    with False show ?thesis by simp
  qed
qed

lemma step_count:
  assumes "linked n [] s x" and "n + 4 \<le> 1000" and "has_room s" and "short_key key" and "ca_seen s key = Some (decimal a, c)"
    and "a < 1000" and "verb = ''incr'' \<and> r = a + 1 \<or> verb = ''decr'' \<and> r = a - 1"
    and "\<And>x'. linked (n + 4) [] (made (grown over_bytes (put key (decimal r) None s))) x' \<Longrightarrow> runs m x' Q"
  shows "runs (count_step (key_line verb key ''1'' nr) nr r m) x Q"
  unfolding count_step_def
proof (rule step_number [OF assms(1-7)])
  have r: "r < 2 ^ 31" using assms(6,7) by auto
  have "c_str (decimal r @ crlf) = decimal r @ crlf" using decimal_plain by (intro c_str_id) (simp add: crlf_def)
  then show "runs (if nr then m else verify (atoi (c_str (decimal r @ crlf)) = of_nat r) m) x' Q"
    if "linked (n + 4) [] (made (grown over_bytes (put key (decimal r) None s))) x'" for x'
    using assms(8) [OF that] atoi_line [OF r] by simp
qed

lemma step_counts:
  assumes "linked n [] s x" and "n + 4 * length rs \<le> 1000" and "ca_stored s + 45 * length rs \<le> 6700" and "short_key key"
    and "ca_seen s key = Some (decimal a, c)" "key \<notin> ca_absent s" and "counts verb a rs"
    and "\<And>s' x' c. linked (n + 4 * length rs) [] s' x' \<Longrightarrow> left {key} (45 * length rs) (length rs) s s' \<Longrightarrow>
      key \<notin> ca_absent s' \<Longrightarrow> ca_seen s' key = Some (decimal (last (a # rs)), c) \<Longrightarrow> runs m x' Q"
  shows "runs (count_steps (key_line verb key ''1'' nr) nr rs m) x Q"
  using assms
proof (induction rs arbitrary: n s x a c)
  case Nil
  then show ?case using left_refl [of "{key}" 0 s] by simp
next
  case (Cons r rs)
  let ?s = "made (grown over_bytes (put key (decimal r) None s))"
  have one: "left {key} 45 1 s ?s" by (auto simp: left_def cache_defs)
  have "runs (count_step (key_line verb key ''1'' nr) nr r (count_steps (key_line verb key ''1'' nr) nr rs m)) x Q"
  proof (rule step_count [OF Cons.prems(1) _ _ Cons.prems(4,5)])
    fix x' assume x': "linked (n + 4) [] ?s x'"
    show "runs (count_steps (key_line verb key ''1'' nr) nr rs m) x' Q"
    proof (rule Cons.IH [OF x' _ _ Cons.prems(4)])
      fix s' x'' c assume h: "linked (n + 4 + 4 * length rs) [] s' x''" "left {key} (45 * length rs) (length rs) ?s s'"
        "key \<notin> ca_absent s'" "ca_seen s' key = Some (decimal (last (r # rs)), c)"
      show "runs m x'' Q"
        by (rule Cons.prems(8)) (use h left_trans [OF one h(2)] in \<open>simp_all add: ac_simps\<close>)
    qed (use Cons.prems in \<open>simp_all add: cache_defs\<close>)
  qed (use Cons.prems in simp_all)
  then show ?case by simp
qed

section \<open>The tests\<close>

text \<open>
  A test that passes: starting from the identifier \<open>i\<close> and with the keys \<open>K\<close> absent it makes at
  most \<open>r\<close> requests, stores at most \<open>b\<close> bytes and makes \<open>j\<close> identifiers; \<open>R\<close> is what else it leaves.
\<close>

definition tested where
  "tested i j K r b R f \<longleftrightarrow>
     (\<forall>n s x. linked n [] s x \<and> ca_made s = i \<and> n + r \<le> 1000 \<and> ca_stored s + b \<le> 6700 \<and> K \<subseteq> ca_absent s \<longrightarrow>
        runs f x (\<lambda>ret x1. ret \<noteq> TEST_FAIL \<and>
          (\<exists>x' s'. (if ret = TEST_PASS_RECONNECT then reconnect x1 else Inr x1) = Inr x' \<and>
             linked (n + r) [] s' x' \<and> left K b j s s' \<and> R s s')))"

lemma testedI:
  assumes "\<And>n s x. linked n [] s x \<Longrightarrow> ca_made s = i \<Longrightarrow> n + r \<le> 1000 \<Longrightarrow> ca_stored s + b \<le> 6700 \<Longrightarrow> K \<subseteq> ca_absent s \<Longrightarrow>
      runs f x (\<lambda>ret x'. ret = TEST_PASS \<and> (\<exists>s'. linked (n + r) [] s' x' \<and> left K b j s s' \<and> R s s'))"
  shows "tested i j K r b R f"
  unfolding tested_def
proof (intro allI impI, elim conjE)
  fix n s x
  assume "linked n [] s x" "ca_made s = i" "n + r \<le> 1000" "ca_stored s + b \<le> 6700" "K \<subseteq> ca_absent s"
  from assms [OF this] show "runs f x (\<lambda>ret x1. ret \<noteq> TEST_FAIL \<and>
      (\<exists>x' s'. (if ret = TEST_PASS_RECONNECT then reconnect x1 else Inr x1) = Inr x' \<and>
         linked (n + r) [] s' x' \<and> left K b j s s' \<and> R s s'))"
    by (rule runs_mono) auto
qed

lemma tested_fixed:
  "tested i 0 {} 3 0 (\<lambda>_ _. True) test_ascii_quit" "tested i 0 {} 3 0 (\<lambda>_ _. True) test_ascii_version"
  "tested i 0 {} 9 0 (\<lambda>_ _. True) test_ascii_verbosity" "tested i 0 {} 2 0 (\<lambda>_ _. True) test_ascii_stat"
  unfolding tested_def using left_refl
  by (auto intro!: runs_mono [OF test_quit] runs_mono [OF test_version] runs_mono [OF test_verbosity] runs_mono [OF test_stat];
      fastforce)+

lemmas sides = short_data_def word10_def plain_value_def cache_defs

lemma ends_left:
  assumes "linked n [] s' x" and "n \<le> n'" and "n' \<le> 1000" and "left K b j s s'" and "R s s'"
  shows "TEST_PASS = TEST_PASS \<and> (\<exists>s'. linked n' [] s' x \<and> left K b j s s' \<and> R s s')"
  using assms link_mono by blast

lemma tested_set:
  assumes key: "short_key key"
  shows "tested i 1 {key} 4 153 (\<lambda>_ _. True) (test_ascii_set_impl key nr)"
  unfolding test_ascii_set_impl_def Let_def store_msg [OF key]
  apply (rule testedI)
  apply (erule step_reply [OF _ _ set_answer [OF _ key]]; (simp add: sides; fail)?)
  apply (erule end_version; (simp; fail)?)
  apply (erule ends_left; (simp add: left_def cache_defs; fail)?)
  apply (auto simp: left_def cache_defs)
  done

lemma tested_add:
  assumes key: "short_key key"
  shows "tested i 0 {key} 5 153 (\<lambda>_ _. True) (test_ascii_add_impl key nr)"
  unfolding test_ascii_add_impl_def Let_def store_msg [OF key]
  apply (rule testedI)
  apply (erule step_reply [OF _ _ add_answer [OF _ key]]; (simp add: sides; fail)?)
  apply (erule step_reply [OF _ _ add_again_answer [OF _ key]]; (simp add: sides; fail)?)
  apply (erule end_version; (simp; fail)?)
  apply (erule ends_left; (simp; fail)?)
  apply (auto simp: left_def cache_defs)
  done

lemma tested_get:
  assumes keys: "short_key key" "short_key nokey" and ne: "key \<noteq> nokey"
    and f: "f = execute (ascii_set_item key ''value'') (execute (send_string (''get'' @ crlf)) (execute receive_error_response (
      execute (ascii_get_item key ''value'' True) (execute (ascii_get_item nokey ''value'' False) (pass TEST_PASS)))))"
  shows "tested i 1 {key, nokey} 4 153 (\<lambda>_ s'. ca_seen s' key \<noteq> None) f"
  unfolding f
  apply (rule testedI)
  apply (erule step_set; (use keys in \<open>simp add: sides\<close>; fail)?)
  apply (erule step_refused; (simp add: fixed_errors_def; fail)?)
  apply (erule step_get; (use keys ne in \<open>simp add: sides\<close>; fail)?)
  apply (erule step_get_absent; (use keys ne in \<open>simp add: sides\<close>; fail)?)
  apply (simp only: runs_pass)
  apply (erule ends_left; (simp; fail)?)
  apply (auto simp: left_def cache_defs)
  done

lemma tested_gets:
  assumes keys: "short_key key" "short_key nokey" and ne: "key \<noteq> nokey"
    and f: "f = execute (ascii_set_item key ''value'') (execute (send_string (''gets'' @ crlf)) (execute receive_error_response (
      tbind (ascii_gets_item key ''value'' True 0) (\<lambda>cas. tbind (ascii_gets_item nokey ''value'' False cas) (\<lambda>cas. pass TEST_PASS)))))"
  shows "tested i 1 {key, nokey} 4 153 (\<lambda>_ _. True) f"
  unfolding f
  apply (rule testedI)
  apply (erule step_set; (use keys in \<open>simp add: sides\<close>; fail)?)
  apply (erule step_refused; (simp add: fixed_errors_def; fail)?)
  apply (erule step_gets; (use keys ne in \<open>simp add: sides\<close>; fail)?)
  apply (erule step_gets_absent; (use keys ne in \<open>simp add: sides\<close>; fail)?)
  apply (simp only: runs_pass)
  apply (erule ends_left; (simp; fail)?)
  apply (auto simp: left_def cache_defs)
  done

lemma tested_replace:
  assumes key: "short_key key"
  shows "tested i 2 {key} 13 198 (\<lambda>_ _. True) (test_ascii_replace_impl key nr)"
  unfolding test_ascii_replace_impl_def Let_def store_msg [OF key]
  apply (rule testedI)
  apply (erule step_reply_version [OF _ _ replace_absent_answer [OF key]]; (simp add: sides; fail)?)
  apply (erule step_set; (use key in \<open>simp add: sides\<close>; fail)?)
  apply (erule step_get; (use key in \<open>simp add: sides\<close>; fail)?)
  apply (erule step_reply_version [OF _ _ replace_answer [OF _ key]]; (simp add: sides; fail)?)
  apply (erule end_version; (simp; fail)?)
  apply (erule ends_left; (simp; fail)?)
  apply (auto simp: left_def cache_defs)
  done

lemma tested_delete:
  assumes key: "short_key key"
  shows "tested i 1 {key} 12 153 (\<lambda>_ _. True) (test_ascii_delete_impl key nr)"
  unfolding test_ascii_delete_impl_def Let_def key_msg [OF key]
  apply (rule testedI)
  apply (erule step_set; (use key in \<open>simp add: sides\<close>; fail)?)
  apply (elim step_refused; (simp add: fixed_errors_def; fail)?)
  apply (erule step_reply_version [OF _ _ delete_answer [OF key]]; (simp add: sides; fail)?)
  apply (erule step_get_absent; (use key in \<open>simp add: sides\<close>; fail)?)
  apply (erule step_reply_version [OF _ _ delete_absent_answer [OF key]]; (simp add: sides; fail)?)
  apply (simp only: runs_pass)
  apply (erule ends_left; (simp; fail)?)
  apply (auto simp: left_def cache_defs)
  done

lemma tested_concat:
  assumes keys: "short_key key" "short_key (key @ ''_notfound'')"
  shows "tested i 2 {key, key @ ''_notfound''} 10 198 (\<lambda>_ _. True) (test_ascii_concat_impl key app nr)"
proof -
  let ?v = "if app then ''hello'' else '' world''" and ?d = "if app then '' world'' else ''hello''"
  have d: "short_data ?v" "short_data ?d" "word10 ?d" "length ?v \<le> 10" by (auto simp: sides)
  have r: "''hello world'' = (if app then ?v @ ?d else ?d @ ?v)" by simp
  show ?thesis
    unfolding test_ascii_concat_impl_def Let_def concat_msg [OF keys(1) d(2)] concat_msg [OF keys(2) d(2)]
    apply (rule testedI)
    apply (erule step_set; (use keys d in \<open>simp add: cache_defs\<close>; fail)?)
    apply (erule step_reply_version [OF _ _ concat_answer [OF _ keys(1) d(3) _ d(4) refl r]]; (simp add: cache_defs; fail)?)
    apply (erule step_get; (use keys in \<open>simp add: sides\<close>; fail)?)
    apply (erule step_reply_version [OF _ _ concat_absent_answer [OF keys(2) d(2) _ refl]]; (simp add: cache_defs; fail)?)
    apply (simp only: runs_pass)
    apply (erule ends_left; (simp; fail)?)
    apply (auto simp: left_def cache_defs)
    done
qed

text \<open>The second of two equal \<open>cas\<close> requests finds another identifier, if the generator does not repeat itself.\<close>

lemma tested_cas:
  assumes key: "short_key key" and id: "ident (Suc i) \<noteq> ident i"
  shows "tested i 3 {key} 13 198 (\<lambda>_ _. True) (test_ascii_cas_impl key nr)"
  unfolding test_ascii_cas_impl_def Let_def cas_msg [OF key]
  apply (rule testedI)
  apply (erule step_set; (use key in \<open>simp add: sides\<close>; fail)?)
  apply (erule step_gets; (use key in \<open>simp add: sides\<close>; fail)?)
  apply (erule step_reply_version [OF _ _ cas_answer [where d = "''value2''", OF _ key]]; (simp add: sides; fail)?)
  apply (erule step_reply_version [OF _ _ cas_differs_answer [where d = "''value2''" and c = "ident i", OF _ key]]; (use id in \<open>simp add: sides\<close>; fail)?)
  apply (erule end_version; (simp; fail)?)
  apply (erule ends_left; (simp; fail)?)
  apply (auto simp: left_def cache_defs)
  done

lemma tested_incr:
  assumes key: "short_key key"
  shows "tested i 11 {key} 42 603 (\<lambda>_ _. True) (test_ascii_incr_impl key nr)"
  unfolding test_ascii_incr_impl_def Let_def key_msg [OF key]
  apply (rule testedI)
  apply (erule step_set; (use key in \<open>simp add: sides\<close>; fail)?)
  apply (erule step_counts [where a = 0]; (use key in \<open>simp add: sides decimal_0\<close>; fail)?)
  apply (erule step_get; (use key in \<open>simp add: sides decimal_small\<close>; fail)?)
  apply (simp only: runs_pass)
  apply (erule ends_left; (simp; fail)?)
  apply (auto simp: left_def cache_defs)
  done

lemma tested_decr:
  assumes key: "short_key key"
  shows "tested i 11 {key} 43 603 (\<lambda>_ _. True) (test_ascii_decr_impl key nr)"
proof -
  have eq: "test_ascii_decr_impl key nr = execute (ascii_set_item key ''9'') (
      count_steps (key_line ''decr'' key ''1'' nr) nr [8, 7, 6, 5, 4, 3, 2, 1, 0] (
      execute (ascii_get_item key ''0'' True) (
      execute (send_string (key_line ''decr'' key ''1'' nr)) (
      if nr then execute test_ascii_version (execute (ascii_get_item key ''0'' True) (pass TEST_PASS))
      else tbind (receive_line 80) (\<lambda>_. execute (ascii_get_item key ''0'' True) (pass TEST_PASS))))))"
    unfolding test_ascii_decr_impl_def Let_def key_msg [OF key] by (cases nr) (simp_all only: if_True if_False)
  show ?thesis
    unfolding eq
    apply (rule testedI)
    apply (erule step_set; (use key in \<open>simp add: sides\<close>; fail)?)
    apply (erule step_counts [where a = 9]; (use key in \<open>simp add: sides decimal_small\<close>; fail)?)
    apply (erule step_get; (use key in \<open>simp add: sides decimal_0\<close>; fail)?)
    apply (erule step_number [where a = 0]; (use key in \<open>simp add: left_def sides\<close>; fail)?)
    apply (subst if_cancel)
    apply (erule step_get; (use key in \<open>simp add: sides decimal_0\<close>; fail)?)
    apply (simp only: runs_pass)
    apply (erule ends_left; (simp; fail)?)
    apply (auto simp: left_def cache_defs)
    done
qed

lemma step_flush:
  assumes "linked n [] s x" and "n + 4 \<le> 1000" and "\<And>x'. linked (n + 4) [] (flushed s) x' \<Longrightarrow> runs m x' Q"
  shows "runs ((if nr
      then (\<lambda>m. execute (send_string (''flush_all noreply'' @ crlf)) (execute test_ascii_version m))
      else (\<lambda>m. execute (send_string (''flush_all'' @ crlf)) (execute (receive_response (''OK'' @ crlf)) m))) m) x Q"
proof (cases nr)
  case True
  have "runs (execute (send_string (''flush_all noreply'' @ crlf)) (execute test_ascii_version m)) x Q"
    using assms
    apply (elim step_silent [OF _ _ flush_noreply_answer]; (simp; fail)?)
    apply (erule step_version; simp add: add.commute)
    done
  with True show ?thesis by simp
next
  case False
  have "runs (execute (send_string (''flush_all'' @ crlf)) (execute (receive_response (''OK'' @ crlf)) m)) x Q"
    by (rule step_response [OF assms(1) _ flush_answer]) (use assms(2,3) link_mono [of "Suc n" "[]" "flushed s" _ "n + 4"] in auto)
  with False show ?thesis by simp
qed

lemma tested_flush:
  assumes key: "short_key key" "key \<noteq> []"
  shows "tested i 1 {key} 7 153 (\<lambda>s s'. dom (ca_seen s) - {key} \<subseteq> ca_dead s') (test_ascii_flush_impl key nr)"
  unfolding test_ascii_flush_impl_def
  apply (rule testedI)
  apply (erule step_set; (use key in \<open>simp add: sides short_key_def token_def\<close>; fail)?)
  apply (erule step_get; (use key in \<open>simp add: sides short_key_def\<close>; fail)?)
  apply (erule step_flush; (simp; fail)?)
  apply (erule step_get_hidden; (use key in \<open>simp add: sides short_key_def\<close>; fail)?)
  apply (simp only: runs_pass)
  apply (erule ends_left; (simp; fail)?)
  apply (auto simp: left_def cache_defs)
  done

text \<open>Several keys at once: the blocks come in the order asked for, without the missing one.\<close>

lemma collect:
  assumes "linked n (concat (map (block s) keys) @ rest) s x"
    and "\<forall>k \<in> set keys. short_key k \<and> k \<notin> ca_absent s \<and> (\<exists>c. ca_seen s k = Some (''value'', c))"
  shows "runs (collect_values (length keys)) x (\<lambda>r x'. r = keys \<and> linked n rest s x')"
  using assms
proof (induction keys arbitrary: x)
  case (Cons key keys)
  then have "block s key = value_line key (length ''value'') [] @ crlf @ ''value'' @ crlf" by (auto simp: block_def)
  then have "linked n (value_line key (length ''value'') [] @ crlf @ ''value'' @ crlf @ concat (map (block s) keys) @ rest) s x"
    using Cons.prems(1) by simp
  from read_unknown_value [OF this] obtain x1
    where x1: "ascii_get_unknown_value x = Inr (Some (key, ''value'', of_nat (length ''value'')), x1)"
      "linked n (concat (map (block s) keys) @ rest) s x1"
    using Cons.prems(2) short_plain by (auto simp: plain_value_def)
  from Cons.IH [OF x1(2)] Cons.prems(2) obtain x2
    where "collect_values (length keys) x1 = Inr (Some keys, x2)" "linked n rest s x2" by (auto simp: runs_def)
  with x1(1) show ?case by (simp add: runs_def)
qed simp

lemma mget_line:
  "''get test_ascii_mget1 test_ascii_mget2 test_ascii_mget3 '' @ ''test_ascii_mget4 test_ascii_mget5 '' @ ''test_ascii_mget6'' @ crlf =
   ''get '' @ spaced [''test_ascii_mget1'', ''test_ascii_mget2'', ''test_ascii_mget3'', ''test_ascii_mget4'', ''test_ascii_mget5'',
     ''test_ascii_mget6''] @ crlf"
  by simp

lemma step_mget:
  assumes "linked n [] s x" and "n < 1000" and "''test_ascii_mget3'' \<in> ca_absent s"
    and "\<forall>k \<in> set mget_keys. k \<notin> ca_absent s \<and> (\<exists>c. ca_seen s k = Some (''value'', c))"
    and "\<And>x'. linked (Suc n) [] s x' \<Longrightarrow> Q TEST_PASS x'"
  shows "runs (execute (send_string (''get test_ascii_mget1 test_ascii_mget2 test_ascii_mget3 '' @
        ''test_ascii_mget4 test_ascii_mget5 '' @ ''test_ascii_mget6'' @ crlf)) (
     tbind (collect_values (length mget_keys)) (\<lambda>returned.
     receive_end (verify (\<forall>key \<in> set mget_keys. key \<in> set returned) (pass TEST_PASS))))) x Q"
proof (rule runs_send, rule runs_tbind)
  let ?keys = "[''test_ascii_mget1'', ''test_ascii_mget2'', ''test_ascii_mget3'', ''test_ascii_mget4'', ''test_ascii_mget5'',
     ''test_ascii_mget6'']"
  have short: "\<forall>k \<in> set ?keys. short_key k" by (simp add: short_key_def token_def)
  have ans: "answer (''get '' @ spaced ?keys @ crlf, []) s (concat (map (block s) ?keys) @ line ''END'') s"
    by (rule get_answer) (use assms(3,4) short in \<open>auto simp: mget_keys_def\<close>)
  have eq: "concat (map (block s) ?keys) = concat (map (block s) mget_keys)"
    using assms(3) by (simp add: block_def [of s "''test_ascii_mget3''"] mget_keys_def)
  note collect [OF ask [OF assms(1,2) ans [unfolded eq] append_Nil2 [symmetric]]]
  moreover have "\<forall>k \<in> set mget_keys. short_key k" using short by (simp add: mget_keys_def)
  ultimately have "runs (collect_values (length mget_keys)) (x\<lparr>w_out := w_out x @ ''get '' @ spaced ?keys @ crlf\<rparr>)
      (\<lambda>r x'. r = mget_keys \<and> linked (Suc n) (line ''END'') s x')" using assms(4) by blast
  then show "runs (collect_values (length mget_keys)) (x\<lparr>w_out := w_out x @ ''get test_ascii_mget1 test_ascii_mget2 test_ascii_mget3 '' @
        ''test_ascii_mget4 test_ascii_mget5 '' @ ''test_ascii_mget6'' @ crlf\<rparr>)
      (\<lambda>returned x'. runs (receive_end (verify (\<forall>key \<in> set mget_keys. key \<in> set returned) (pass TEST_PASS))) x' Q)"
    unfolding mget_line
    by (rule runs_mono) (use assms(5) in \<open>auto intro!: runs_end\<close>)
qed

lemma tested_mget:
  "tested i 5 (insert ''test_ascii_mget3'' (set mget_keys)) 6 765 (\<lambda>_ _. True) test_ascii_mget"
  unfolding test_ascii_mget_def
  apply (subst mget_keys_def)+
  apply (simp only: set_items.simps)
  apply (rule testedI)
  apply (elim step_set; (simp add: sides short_key_def token_def; fail)?)
  apply (simp only: mget_keys_def [symmetric])
  apply (erule step_mget; (simp add: cache_defs mget_keys_def; fail)?)
  apply (erule ends_left; (simp; fail)?)
  apply (auto simp: left_def cache_defs mget_keys_def)
  done

section \<open>The test program\<close>

text \<open>
  Between two tests: at most \<open>r\<close> requests, \<open>b\<close> bytes and \<open>i\<close> identifiers so far, only the keys
  \<open>U\<close> used, and the content as \<open>P\<close> says.
\<close>

definition between where
  "between U i r b P x \<longleftrightarrow>
     (\<exists>s. linked r [] s x \<and> ca_made s = i \<and> ca_stored s \<le> b \<and> (\<forall>k. k \<notin> U \<longrightarrow> k \<in> ca_absent s) \<and> P s)"

lemma run_step:
  assumes "between U i r b P x" and "tested i j K r1 b1 R f" and "K \<inter> U = {}" and "r + r1 \<le> 1000" and "b + b1 \<le> 6700"
    and "\<And>s s'. P s \<Longrightarrow> left K b1 j s s' \<Longrightarrow> R s s' \<Longrightarrow> P' s'"
    and "\<And>x'. between (K \<union> U) (i + j) (r + r1) (b + b1) P' x' \<Longrightarrow> \<exists>x''. run_tests ts failed x' = Inr (failed, x'') \<and> Z x''"
  shows "\<exists>x''. run_tests ((d, f) # ts) failed x = Inr (failed, x'') \<and> Z x''"
proof -
  from assms(1) obtain s where s: "linked r [] s x" "ca_made s = i" "ca_stored s \<le> b" "\<forall>k. k \<notin> U \<longrightarrow> k \<in> ca_absent s" "P s"
    by (auto simp: between_def)
  have "K \<subseteq> ca_absent s" using s(4) assms(3) by blast
  with assms(2,4,5) s(1-3) have "runs f x (\<lambda>ret x1. ret \<noteq> TEST_FAIL \<and>
      (\<exists>x' s'. (if ret = TEST_PASS_RECONNECT then reconnect x1 else Inr x1) = Inr x' \<and>
         linked (r + r1) [] s' x' \<and> left K b1 j s s' \<and> R s s'))"
    unfolding tested_def by simp
  then obtain ret x1 x' s' where f: "f x = Inr (Some ret, x1)" "ret \<noteq> TEST_FAIL"
    "(if ret = TEST_PASS_RECONNECT then reconnect x1 else Inr x1) = Inr x'" "linked (r + r1) [] s' x'" "left K b1 j s s'" "R s s'"
    by (auto simp: runs_def)
  have "between (K \<union> U) (i + j) (r + r1) (b + b1) P' x'"
    unfolding between_def
    by (rule exI [of _ s']) (use s f(4,5) assms(6) [OF s(5) f(5,6)] in \<open>auto simp: left_def\<close>)
  from assms(7) [OF this] f(1-3) show ?thesis by auto
qed

lemmas run_same = run_step [where P' = P and P = P for P]

text \<open>The keys of the tests.\<close>

lemmas a_key = short_key_def token_def mget_keys_def

text \<open>
  Every test passes; at the end, the key of the retrieval test has an entry that a flush has hidden.
\<close>

lemma all_tests:
  assumes "between {} 0 0 0 (\<lambda>_. True) x" and "ident 16 \<noteq> ident 15" and "ident 19 \<noteq> ident 18"
  shows "\<exists>x'. run_tests testcases 0 x = Inr (0, x') \<and> (\<exists>U. between U 75 349 6291 (\<lambda>s. ''test_ascii_get'' \<in> ca_dead s) x')"
  unfolding testcases_def test_ascii_get_def test_ascii_gets_def
  using assms(1)
  apply -
  apply (erule run_same, rule tested_fixed, simp, simp, simp, simp)
  apply (erule run_same, rule tested_fixed, simp, simp, simp, simp)
  apply (erule run_same, rule tested_fixed, simp, simp, simp, simp)
  apply (erule run_same, rule tested_set, simp add: a_key, simp, simp, simp, simp)
  apply (erule run_same, rule tested_set, simp add: a_key, simp, simp, simp, simp)
  apply (erule run_step [where P' = "\<lambda>s. ''test_ascii_get'' \<in> dom (ca_seen s) \<union> ca_dead s"], rule tested_get [OF _ _ _ refl],
      simp add: a_key, simp add: a_key, simp, simp, simp, simp, blast)
  apply (erule run_same, rule tested_gets [OF _ _ _ refl], simp add: a_key, simp add: a_key, simp, simp add: a_key, simp, simp, rule left_keeps(2), assumption, simp add: a_key, assumption)
  apply (erule run_same, rule tested_mget, simp add: a_key, simp, simp, rule left_keeps(2), assumption, simp add: a_key, assumption)
  apply (erule run_step [where P' = "\<lambda>s. ''test_ascii_get'' \<in> ca_dead s"], rule tested_flush,
      simp add: a_key, simp, simp add: a_key, simp, simp, force simp: left_def)
  apply (erule run_same, rule tested_flush, simp add: a_key, simp, simp add: a_key, simp, simp, rule left_keeps(1), assumption, simp add: a_key, assumption)
  apply (erule run_same, rule tested_add, simp add: a_key, simp add: a_key, simp, simp, rule left_keeps(1), assumption, simp add: a_key, assumption)
  apply (erule run_same, rule tested_add, simp add: a_key, simp add: a_key, simp, simp, rule left_keeps(1), assumption, simp add: a_key, assumption)
  apply (erule run_same, rule tested_replace, simp add: a_key, simp add: a_key, simp, simp, rule left_keeps(1), assumption, simp add: a_key, assumption)
  apply (erule run_same, rule tested_replace, simp add: a_key, simp add: a_key, simp, simp, rule left_keeps(1), assumption, simp add: a_key, assumption)
  apply (erule run_same, rule tested_cas, simp add: a_key, use assms(2,3) in simp, simp add: a_key, simp, simp, rule left_keeps(1), assumption, simp add: a_key, assumption)
  apply (erule run_same, rule tested_cas, simp add: a_key, use assms(2,3) in simp, simp add: a_key, simp, simp, rule left_keeps(1), assumption, simp add: a_key, assumption)
  apply (erule run_same, rule tested_delete, simp add: a_key, simp add: a_key, simp, simp, rule left_keeps(1), assumption, simp add: a_key, assumption)
  apply (erule run_same, rule tested_delete, simp add: a_key, simp add: a_key, simp, simp, rule left_keeps(1), assumption, simp add: a_key, assumption)
  apply (erule run_same, rule tested_incr, simp add: a_key, simp add: a_key, simp, simp, rule left_keeps(1), assumption, simp add: a_key, assumption)
  apply (erule run_same, rule tested_incr, simp add: a_key, simp add: a_key, simp, simp, rule left_keeps(1), assumption, simp add: a_key, assumption)
  apply (erule run_same, rule tested_decr, simp add: a_key, simp add: a_key, simp, simp, rule left_keeps(1), assumption, simp add: a_key, assumption)
  apply (erule run_same, rule tested_decr, simp add: a_key, simp add: a_key, simp, simp, rule left_keeps(1), assumption, simp add: a_key, assumption)
  apply (erule run_same, rule tested_concat, simp add: a_key, simp add: a_key, simp add: a_key, simp, simp, rule left_keeps(1), assumption, simp add: a_key, assumption)
  apply (erule run_same, rule tested_concat, simp add: a_key, simp add: a_key, simp add: a_key, simp, simp, rule left_keeps(1), assumption, simp add: a_key, assumption)
  apply (erule run_same, rule tested_concat, simp add: a_key, simp add: a_key, simp add: a_key, simp, simp, rule left_keeps(1), assumption, simp add: a_key, assumption)
  apply (erule run_same, rule tested_concat, simp add: a_key, simp add: a_key, simp add: a_key, simp, simp, rule left_keeps(1), assumption, simp add: a_key, assumption)
  apply (erule run_same, rule tested_fixed, simp add: a_key, simp, simp, rule left_keeps(1), assumption, simp add: a_key, assumption)
  apply (auto simp del: Un_insert_left Un_insert_right)
  done

text \<open>
  Storing a key whose entry a flush has hidden is acknowledged and does not show: the test of
  \<open>get\<close> fails then.
\<close>

lemma set_hidden:
  assumes "linked n [] s x" and "n < 1000" and "has_room s" and "short_key key" "word10 v" and "key \<in> ca_dead s"
  shows "runs (ascii_set_item key v) x (\<lambda>r x'. r = TEST_PASS \<and> linked (Suc n) [] (made (grown over_bytes s)) x')"
proof -
  have "answer (store_hdr ''set'' key False v, v @ crlf) s (line ''STORED'') (made (grown over_bytes s))"
    using set_dead_answer [OF assms(3-6), of False] by (simp add: reply_def)
  then show ?thesis
    unfolding ascii_set_item_def Let_def set_item_msg [OF assms(4) word10_short [OF assms(5)]]
    by (intro runs_write3 step_response [OF assms(1,2)]) simp_all
qed

lemma get_item_fails:
  assumes "linked n [] s x" and "n < 1000" and "short_key key" and "key \<in> ca_dead s" and "length v < 1024"
  shows "\<exists>x'. ascii_get_item key v True x = Inr (None, x') \<and> linked (Suc n) [] (dropped key s) x'"
proof -
  let ?x = "x\<lparr>w_out := w_out x @ ''get '' @ spaced [key] @ crlf\<rparr>"
  have "linked (Suc n) (line ''END'') (dropped key s) ?x"
    by (rule ask [OF assms(1,2) get_dead_answer [OF assms(3,4)]]) simp
  then have "linked (Suc n) (''END'' @ crlf @ []) (dropped key s) ?x" by (simp add: line_def)
  from read_crlf_line [OF this, of 1024] obtain x'
    where x': "receive_line 1024 ?x = Inr (Some (''END'' @ crlf), x')" "linked (Suc n) [] (dropped key s) x'" by auto
  have no: "\<not> prefix ''VALUE '' (c_str (''END'' @ crlf))" by (simp add: c_str_def crlf_def)
  have "ascii_get_value key v ?x = Inr (None, x')"
    unfolding ascii_get_value_def Let_def using x'(1) no assms(5) by simp
  then have "ascii_get_item key v True x = Inr (None, x')"
    unfolding ascii_get_item_def key_msg [OF assms(3)] using assms(5) by simp
  with x'(2) show ?thesis by blast
qed

lemma get_fails:
  assumes "between U i r b (\<lambda>s. ''test_ascii_get'' \<in> ca_dead s) x" and "r + 3 \<le> 1000" and "b \<le> 6600"
  shows "\<exists>x'. run_tests [(d, test_ascii_get)] failed x = Inr (Suc failed, x')"
proof -
  have key: "short_key ''test_ascii_get''" by (simp add: a_key)
  from assms obtain s where s: "linked r [] s x" "has_room s" "''test_ascii_get'' \<in> ca_dead s" by (auto simp: between_def)
  let ?s = "made (grown over_bytes s)"
  from set_hidden [OF s(1) _ s(2) key _ s(3), of "''value''"] assms(2) obtain x1
    where x1: "ascii_set_item ''test_ascii_get'' ''value'' x = Inr (Some TEST_PASS, x1)" "linked (Suc r) [] ?s x1"
    by (auto simp: runs_def word10_def)
  have err: "answer (''get'' @ crlf, []) ?s (client_error ''no key found'') ?s" by (rule error_answer) (simp add: fixed_errors_def)
  have "linked (Suc (Suc r)) (client_error ''no key found'' @ []) ?s (x1\<lparr>w_out := w_out x1 @ ''get'' @ crlf\<rparr>)"
    using ask [OF x1(2) _ err append_Nil2 [symmetric]] assms(2) by simp
  from read_error [OF this] obtain x2
    where x2: "receive_error_response (x1\<lparr>w_out := w_out x1 @ ''get'' @ crlf\<rparr>) = Inr (Some TEST_PASS, x2)"
      "linked (Suc (Suc r)) [] ?s x2" by auto
  from get_item_fails [OF x2(2) _ key, of "''value''"] assms(2) s(3) obtain x3
    where x3: "ascii_get_item ''test_ascii_get'' ''value'' True x2 = Inr (None, x3)" "linked (Suc (Suc (Suc r))) [] (dropped ''test_ascii_get'' ?s) x3"
    by (auto simp: cache_defs)
  have "test_ascii_get x = Inr (None, x3)"
    unfolding test_ascii_get_def using x1(1) x2(1) x3(1) by simp
  with link_reconnect [OF x3(2)] show ?thesis by auto
qed

end

end
