(* ===== verification/MemcapableServer.thy ===== *)
theory MemcapableServer
  imports MemcapableTests
begin

text \<open>
  The server keeps the contract of the cache: within one second and with room to spare, its storage
  reflects the content a client relies on, and every request of the tests answers as the contract
  says. So \<open>memcapable\<close> passes on a fresh server, and a second run does not.
\<close>

section \<open>The content and the storage\<close>

definition cas_id :: "ulong \<Rightarrow> nat \<Rightarrow> u64" where
  "cas_id t i = fst (mt_next (case gen_at t i of None \<Rightarrow> mt_seed (ucast t) | Some g \<Rightarrow> g))"

lemma cas_at_id: "cas_at t i = decimal (unat (cas_id t i))"
  by (simp add: cas_at_def cas_id_def to_string_def)

text \<open>A visible entry with that value and, if known, that identifier.\<close>

definition visible :: "ulong \<Rightarrow> ulong \<Rightarrow> string \<times> u64 option \<Rightarrow> MapEntry \<Rightarrow> bool" where
  "visible t F v it \<longleftrightarrow> alive t F it \<and> vs_flags (fst it) = ''0'' \<and> vs_value (fst it) = fst v \<and>
     (\<forall>c. snd v = Some c \<longrightarrow> vs_casUniq (fst it) = decimal (unat c))"

definition reflects :: "ulong \<Rightarrow> cache \<Rightarrow> (string \<rightharpoonup> MapEntry) \<Rightarrow> ulong \<Rightarrow> bool" where
  "reflects t s E F \<longleftrightarrow>
     (\<forall>k v. ca_seen s k = Some v \<longrightarrow> (\<exists>it. E k = Some it \<and> visible t F v it)) \<and>
     (\<forall>k \<in> ca_absent s. E k = None) \<and> (\<forall>k \<in> ca_dead s. \<exists>it. E k = Some it \<and> snd it < F)"

definition caches :: "ulong \<Rightarrow> nat \<Rightarrow> cache \<Rightarrow> db \<Rightarrow> bool" where
  "caches t c s w \<longleftrightarrow> (\<exists>E F. serving t c (ca_made s) (ca_stored s) E F w \<and> reflects t s E F)"

text \<open>Two states the handlers cannot tell apart: a flush is carried out by the request behind it.\<close>

definition alike :: "db \<Rightarrow> db \<Rightarrow> bool" where
  "alike w w' \<longleftrightarrow> (\<forall>input. cmdProcessCommand input w = cmdProcessCommand input w')"

lemma alike_refl [simp]: "alike w w"
  by (simp add: alike_def)

lemma alike_reply: "alike w w' \<Longrightarrow> frame_reply f w = frame_reply f w'"
  by (simp add: alike_def frame_reply_def)

definition server_linked :: "ulong \<Rightarrow> nat \<Rightarrow> string \<Rightarrow> cache \<Rightarrow> wire \<Rightarrow> bool" where
  "server_linked t n inb s x \<longleftrightarrow> (\<exists>w w'. wire_linked n inb w x \<and> alike w w' \<and> caches t (8 * n) s w')"

definition server_answer :: "ulong \<Rightarrow> frame \<Rightarrow> cache \<Rightarrow> string \<Rightarrow> cache \<Rightarrow> bool" where
  "server_answer t f s out s' \<longleftrightarrow>
     frame_ok f \<and> length (fst f @ snd f) \<le> 500 \<and>
     (\<forall>c w. c < 10000 \<longrightarrow> caches t c s w \<longrightarrow>
        (\<exists>w1 w2. frame_reply f w = Some (out, w1) \<and> alike w1 w2 \<and> caches t (c + 8) s' w2))"

lemma caches_mono: "caches t c s w \<Longrightarrow> c \<le> c' \<Longrightarrow> caches t c' s w"
  unfolding caches_def using serving_mono by blast

interpretation server_link: text_link "server_linked t" "server_answer t" for t
proof unfold_locales
  fix n inb s x f out s'
  assume l: "server_linked t n inb s x" and n: "n < 1000" and ans: "server_answer t f s out s'"
  from l obtain w w' where w: "wire_linked n inb w x" "alike w w'" "caches t (8 * n) s w'" by (auto simp: server_linked_def)
  have "8 * n < 10000" using n by simp
  with ans w(3) obtain w1 w2
    where f: "frame_ok f" "length (fst f @ snd f) \<le> 500" "frame_reply f w' = Some (out, w1)" "alike w1 w2" "caches t (8 * n + 8) s' w2"
    unfolding server_answer_def by blast
  then have "wire_answer f w out w1" using alike_reply [OF w(2)] by (simp add: wire_answer_def)
  from wire.link_write [OF w(1) n this] f(4,5)
  show "server_linked t (Suc n) (inb @ out) s' (x\<lparr>w_out := w_out x @ fst f @ snd f\<rparr>)"
    by (auto simp: server_linked_def add.commute)
next
  fix n inb s x and len :: nat
  assume "server_linked t n inb s x" "0 < len" "len \<le> length inb"
  then show "\<exists>x'. retry_read len x = Inr (Some (take len inb), x') \<and> server_linked t n (drop len inb) s x'"
    unfolding server_linked_def using wire.link_read by blast
next
  fix n inb s x n'
  assume "server_linked t n inb s x" "n \<le> n'" "n' \<le> 1000"
  then show "server_linked t n' inb s x"
    unfolding server_linked_def using wire.link_mono caches_mono [of t "8 * n" s _ "8 * n'"] by (meson mult_le_mono2)
qed

section \<open>The answers\<close>

lemma reflects_sizes [simp]: "reflects t (made s) E F = reflects t s E F" "reflects t (grown b s) E F = reflects t s E F"
  by (simp_all add: reflects_def cache_defs)

lemma sizes [simp]:
  "ca_made (made s) = Suc (ca_made s)" "ca_made (grown b s) = ca_made s" "ca_made (put key v c s) = ca_made s"
  "ca_made (dropped key s) = ca_made s" "ca_made (flushed s) = ca_made s"
  "ca_stored (made s) = ca_stored s" "ca_stored (grown b s) = ca_stored s + b" "ca_stored (put key v c s) = ca_stored s"
  "ca_stored (dropped key s) = ca_stored s" "ca_stored (flushed s) = ca_stored s"
  by (simp_all add: cache_defs)

lemma reflects_put:
  assumes "reflects t s E F" and "visible t F (v, c) it" and "key \<notin> ca_dead s"
  shows "reflects t (put key v c s) (E(key \<mapsto> it)) F"
  using assms unfolding reflects_def put_def by (cases it) (intro conjI allI impI ballI; auto split: if_splits)

lemma reflects_dropped: "reflects t s E F \<Longrightarrow> reflects t (dropped key s) (E(key := None)) F"
  by (auto simp: reflects_def dropped_def)

lemma reflects_absent: "reflects t s E F \<Longrightarrow> key \<in> ca_absent s \<Longrightarrow> E key = None \<and> key \<notin> ca_dead s"
  by (auto simp: reflects_def)

lemma reflects_seen:
  assumes "reflects t s E F" and "ca_seen s key = Some v"
  shows "\<exists>it. E key = Some it \<and> visible t F v it \<and> key \<notin> ca_dead s"
proof -
  from assms obtain it where it: "E key = Some it" "visible t F v it" unfolding reflects_def by blast
  then have "\<not> snd it < F" by (simp add: visible_def alive_def not_less)
  then have "key \<notin> ca_dead s" using it(1) assms(1) unfolding reflects_def by (metis option.inject)
  with it show ?thesis by blast
qed

lemma answerI:
  assumes "frame_ok f" and "length (fst f @ snd f) \<le> 500"
    and "\<And>c w E F. c < 10000 \<Longrightarrow> serving t c (ca_made s) (ca_stored s) E F w \<Longrightarrow> reflects t s E F \<Longrightarrow>
      \<exists>w' E' b. frame_reply f w = Some (out, w') \<and> serving t (c + 8) (ca_made s') b E' F w' \<and> b \<le> ca_stored s' \<and> reflects t s' E' F"
  shows "server_answer t f s out s'"
proof -
  have "\<exists>w1 w2. frame_reply f w = Some (out, w1) \<and> alike w1 w2 \<and> caches t (c + 8) s' w2" if "c < 10000" "caches t c s w" for c w
  proof -
    from that(2) obtain E F where "serving t c (ca_made s) (ca_stored s) E F w" "reflects t s E F" by (auto simp: caches_def)
    from assms(3) [OF that(1) this] obtain w' E' b where w': "frame_reply f w = Some (out, w')"
      "serving t (c + 8) (ca_made s') b E' F w'" "b \<le> ca_stored s'" "reflects t s' E' F" by blast
    moreover have "serving t (c + 8) (ca_made s') (ca_stored s') E' F w'" by (rule serving_mono [OF w'(2)]) (use w'(3) in simp_all)
    ultimately show ?thesis by (intro exI [of _ w']) (auto simp: caches_def)
  qed
  with assms(1,2) show ?thesis by (simp add: server_answer_def)
qed

lemma put_done:
  assumes "frame_reply f w = Some (out, w')" and "serving t c' j b (E(key \<mapsto> it)) F w'" and "c' \<le> c + 8"
    and "j = ca_made s'" and "b \<le> ca_stored s'" and "reflects t s E F" and "visible t F (v, cs) it" and "key \<notin> ca_dead s"
    and "\<And>E. reflects t (put key v cs s) E F \<Longrightarrow> reflects t s' E F"
  shows "\<exists>w' E' b. frame_reply f w = Some (out, w') \<and> serving t (c + 8) (ca_made s') b E' F w' \<and> b \<le> ca_stored s' \<and> reflects t s' E' F"
  using assms(1,4,5,9) serving_mono [OF assms(2,3) order_refl] reflects_put [OF assms(6-8)] by blast

lemma store_frame_sizes:
  assumes "verb \<in> {''set'', ''add'', ''replace'', ''append'', ''prepend''}" and "short_key key" and "short_data d"
  shows "frame_ok (store_hdr verb key nr d, d @ crlf)"
    and "length (fst (store_hdr verb key nr d, d @ crlf) @ snd (store_hdr verb key nr d, d @ crlf)) \<le> 500"
proof -
  have v: "token verb" "2 \<le> length verb" "length verb \<le> 10" using assms(1) by (auto simp: token_def)
  show "frame_ok (store_hdr verb key nr d, d @ crlf)" by (rule store_frame_ok [OF v(1,2) assms(2,3)])
  show "length (fst (store_hdr verb key nr d, d @ crlf) @ snd (store_hdr verb key nr d, d @ crlf)) \<le> 500"
    using length_store_hdr(2) [OF v(3) assms(2,3), of nr] by simp
qed

lemma answer_set:
  assumes "has_room s" "short_key key" "short_data d" "key \<in> ca_absent s"
  shows "server_answer t (store_hdr ''set'' key nr d, d @ crlf) s (reply nr (line ''STORED''))
     (made (grown new_bytes (put key d (Some (cas_id t (ca_made s))) s)))"
proof (rule answerI [OF store_frame_sizes])
  fix c w E F
  assume h: "c < 10000" "serving t c (ca_made s) (ca_stored s) E F w" "reflects t s E F"
  have k: "E key = None" "key \<notin> ca_dead s" using reflects_absent [OF h(3) assms(4)] by simp_all
  from set_new_frame [OF h(2) _ k(1) _ assms(2,3), of nr] h(1) assms(1) obtain w' T
    where w': "frame_reply (store_hdr ''set'' key nr d, d @ crlf) w = Some (reply nr (line ''STORED''), w')"
      "serving t (Suc c) (Suc (ca_made s)) (ca_stored s + 2 * length key + length d + 33)
       (E(key \<mapsto> (\<lparr>vs_expiry = ULONG_MAX, vs_value = d, vs_flags = ''0'', vs_casUniq = cas_at t (ca_made s)\<rparr>, T))) F w'" "F \<le> T"
    by auto
  show "\<exists>w' E' b. frame_reply (store_hdr ''set'' key nr d, d @ crlf) w = Some (reply nr (line ''STORED''), w') \<and>
      serving t (c + 8) (ca_made (made (grown new_bytes (put key d (Some (cas_id t (ca_made s))) s)))) b E' F w' \<and>
      b \<le> ca_stored (made (grown new_bytes (put key d (Some (cas_id t (ca_made s))) s))) \<and>
      reflects t (made (grown new_bytes (put key d (Some (cas_id t (ca_made s))) s))) E' F"
    by (rule put_done [OF w'(1,2)]) (use w'(3) assms(2,3) k h(3) in \<open>simp_all add: short_key_def short_data_def visible_def alive_def cas_at_id ULONG_MAX_def\<close>)
qed (use assms in simp_all)

lemma answer_add:
  assumes "has_room s" "short_key key" "short_data d" "key \<in> ca_absent s"
  shows "server_answer t (store_hdr ''add'' key nr d, d @ crlf) s (reply nr (line ''STORED'')) (grown new_bytes (put key d None s))"
proof (rule answerI [OF store_frame_sizes])
  fix c w E F
  assume h: "c < 10000" "serving t c (ca_made s) (ca_stored s) E F w" "reflects t s E F"
  have k: "E key = None" "key \<notin> ca_dead s" using reflects_absent [OF h(3) assms(4)] by simp_all
  from add_new_frame [OF h(2) _ k(1) _ assms(2,3), of nr] h(1) assms(1) obtain w' T
    where w': "frame_reply (store_hdr ''add'' key nr d, d @ crlf) w = Some (reply nr (line ''STORED''), w')"
      "serving t (Suc c) (ca_made s) (ca_stored s + 2 * length key + length d + 33)
       (E(key \<mapsto> (\<lparr>vs_expiry = ULONG_MAX, vs_value = d, vs_flags = ''0'', vs_casUniq = addCas t\<rparr>, T))) F w'" "F \<le> T"
    by auto
  show "\<exists>w' E' b. frame_reply (store_hdr ''add'' key nr d, d @ crlf) w = Some (reply nr (line ''STORED''), w') \<and>
      serving t (c + 8) (ca_made (grown new_bytes (put key d None s))) b E' F w' \<and>
      b \<le> ca_stored (grown new_bytes (put key d None s)) \<and> reflects t (grown new_bytes (put key d None s)) E' F"
    by (rule put_done [OF w'(1,2)]) (use w'(3) assms(2,3) k h(3) in \<open>simp_all add: short_key_def short_data_def visible_def alive_def ULONG_MAX_def\<close>)
qed (use assms in simp_all)

lemma same_done:
  assumes "frame_reply f w = Some (out, w')" and "serving t c' j b E' F w'" and "c' \<le> c + 8"
    and "j = ca_made s'" and "b \<le> ca_stored s'" and "reflects t s' E' F"
  shows "\<exists>w' E' b. frame_reply f w = Some (out, w') \<and> serving t (c + 8) (ca_made s') b E' F w' \<and> b \<le> ca_stored s' \<and> reflects t s' E' F"
  using assms(1,4-6) serving_mono [OF assms(2,3) order_refl] by blast

lemma answer_add_again:
  assumes "has_room s" "short_key key" "short_data d" "ca_seen s key \<noteq> None"
  shows "server_answer t (store_hdr ''add'' key nr d, d @ crlf) s (reply nr (line ''NOT_STORED'')) s"
proof (rule answerI [OF store_frame_sizes])
  fix c w E F
  assume h: "c < 10000" "serving t c (ca_made s) (ca_stored s) E F w" "reflects t s E F"
  obtain it where it: "E key = Some it" "alive t F it"
    using reflects_seen [OF h(3)] assms(4) by (fastforce simp: visible_def)
  from add_present_frame [OF h(2) _ it _ assms(2,3), of nr] h(1) assms(1) obtain w'
    where "frame_reply (store_hdr ''add'' key nr d, d @ crlf) w = Some (reply nr (line ''NOT_STORED''), w')"
      "serving t (Suc c) (ca_made s) (ca_stored s) E F w'" by auto
  from same_done [OF this _ refl order_refl h(3), of c]
  show "\<exists>w' E' b. frame_reply (store_hdr ''add'' key nr d, d @ crlf) w = Some (reply nr (line ''NOT_STORED''), w') \<and>
      serving t (c + 8) (ca_made s) b E' F w' \<and> b \<le> ca_stored s \<and> reflects t s E' F" by simp
qed (use assms in simp_all)

lemma answer_replace:
  assumes "has_room s" "short_key key" "word10 d" "ca_seen s key \<noteq> None"
  shows "server_answer t (store_hdr ''replace'' key nr d, d @ crlf) s (reply nr (line ''STORED''))
     (made (grown over_bytes (put key d (Some (cas_id t (ca_made s))) s)))" (is "server_answer t ?f s ?out ?s")
proof (rule answerI [OF store_frame_sizes])
  fix c w E F
  assume h: "c < 10000" "serving t c (ca_made s) (ca_stored s) E F w" "reflects t s E F"
  obtain v T where it: "E key = Some (v, T)" "alive t F (v, T)" "key \<notin> ca_dead s"
    using reflects_seen [OF h(3)] assms(4) by (fastforce simp: visible_def)
  from replace_frame [OF h(2) _ it(1,2) _ assms(2) word10_short [OF assms(3)], of nr] h(1) assms(1) obtain w' T'
    where w': "frame_reply ?f w = Some (?out, w')"
      "serving t (c + 2) (Suc (ca_made s)) (ca_stored s + length d + 21)
       (E(key \<mapsto> (\<lparr>vs_expiry = t, vs_value = d, vs_flags = ''0'', vs_casUniq = cas_at t (ca_made s)\<rparr>, T'))) F w'" "F \<le> T'"
    by auto
  show "\<exists>w' E' b. frame_reply ?f w = Some (?out, w') \<and> serving t (c + 8) (ca_made ?s) b E' F w' \<and> b \<le> ca_stored ?s \<and> reflects t ?s E' F"
    by (rule put_done [OF w'(1,2)]) (use w'(3) assms(3) it h(3) in \<open>simp_all add: word10_def visible_def alive_def cas_at_id\<close>)
qed (use assms word10_short in simp_all)

lemma answer_replace_absent:
  assumes "short_key key" "short_data d" "key \<in> ca_absent s"
  shows "server_answer t (store_hdr ''replace'' key nr d, d @ crlf) s (reply nr (line ''NOT_STORED'')) s"
proof (rule answerI [OF store_frame_sizes])
  fix c w E F
  assume h: "c < 10000" "serving t c (ca_made s) (ca_stored s) E F w" "reflects t s E F"
  from replace_missing_frame [OF h(2) _ _ assms(1,2), of nr] reflects_absent [OF h(3) assms(3)] h(1) obtain w'
    where "frame_reply (store_hdr ''replace'' key nr d, d @ crlf) w = Some (reply nr (line ''NOT_STORED''), w')"
      "serving t (Suc c) (ca_made s) (ca_stored s) E F w'" by auto
  from same_done [OF this _ refl order_refl h(3), of c]
  show "\<exists>w' E' b. frame_reply (store_hdr ''replace'' key nr d, d @ crlf) w = Some (reply nr (line ''NOT_STORED''), w') \<and>
      serving t (c + 8) (ca_made s) b E' F w' \<and> b \<le> ca_stored s \<and> reflects t s E' F" by simp
qed (use assms in simp_all)

text \<open>Retrieval leaves the content as it is, apart from entries that are hidden.\<close>

lemma reflects_looked_up:
  assumes "reflects t s E F" and "looked_up t F k E E'" and "ca_seen s k \<noteq> None \<or> k \<in> ca_absent s"
  shows "reflects t s E' F"
  using assms(3)
proof
  assume "ca_seen s k \<noteq> None"
  then obtain v c where v: "ca_seen s k = Some (v, c)" by auto
  from reflects_seen [OF assms(1) this] obtain it where it: "E k = Some it" "visible t F (v, c) it" "k \<notin> ca_dead s" by blast
  then obtain T where T: "E' = E(k \<mapsto> (fst it, T))" "F \<le> T" using assms(2) by (auto simp: looked_up_def visible_def)
  have "visible t F (v, c) (fst it, T)" using it(2) T(2) by (simp add: visible_def alive_def)
  from reflects_put [OF assms(1) this it(3)] T(1) have "reflects t (put k v c s) E' F" by simp
  moreover have "(ca_seen s)(k \<mapsto> (v, c)) = ca_seen s" "ca_absent s - {k} = ca_absent s"
    using v it(1) assms(1) by (auto simp: reflects_def fun_upd_idem)
  ultimately show ?thesis by (simp add: put_def)
next
  assume "k \<in> ca_absent s"
  then have "E k = None" using reflects_absent [OF assms(1)] by simp
  then show ?thesis using assms(1,2) by (simp add: looked_up_def)
qed

lemma reflects_looked_up_all:
  assumes "reflects t s E F" and "looked_up_all t F keys E E'" and "\<forall>k \<in> set keys. ca_seen s k \<noteq> None \<or> k \<in> ca_absent s"
  shows "reflects t s E' F"
  using assms by (induction keys arbitrary: E) (auto dest: reflects_looked_up)

lemma seen_block:
  assumes "reflects t s E F" and "ca_seen s k \<noteq> None \<or> k \<in> ca_absent s"
  shows "value_block False k (seen t F E k) = block s k"
proof (cases "k \<in> ca_absent s")
  case True
  then show ?thesis using reflects_absent [OF assms(1)] by (simp add: seen_def value_block_def block_def)
next
  case False
  with assms(2) obtain v c where v: "ca_seen s k = Some (v, c)" by auto
  with reflects_seen [OF assms(1) v] False show ?thesis
    by (auto simp: seen_def value_block_def block_def visible_def value_line_def)
qed

lemma spaced_length: "\<forall>k \<in> set keys. length k \<le> m \<Longrightarrow> length (spaced keys) \<le> length keys * Suc m"
  by (induction keys rule: spaced.induct) auto

lemma answer_get:
  assumes "keys \<noteq> []" "length keys \<le> 6" "\<forall>k \<in> set keys. short_key k \<and> (ca_seen s k \<noteq> None \<or> k \<in> ca_absent s)"
  shows "server_answer t (''get '' @ spaced keys @ crlf, []) s (concat (map (block s) keys) @ line ''END'') s"
proof (rule answerI)
  have tok: "\<forall>k \<in> set keys. token k" using assms(3) by (simp add: short_key_def)
  have len: "length (spaced keys) \<le> 300" using spaced_length [of keys 40] assms(2,3) by (auto simp: short_key_def)
  have cr: "CHR 0x0D \<notin> set (spaced keys)" using tok by (induction keys rule: spaced.induct) (auto simp: token_def)
  show "frame_ok (''get '' @ spaced keys @ crlf, [])"
    using frame_ok_line [of "''get '' @ spaced keys"] cr by simp
  show "length (fst (''get '' @ spaced keys @ crlf, [] :: string) @ snd (''get '' @ spaced keys @ crlf, [] :: string)) \<le> 500"
    using len by (simp add: crlf_def)
  fix c w E F
  assume h: "c < 10000" "serving t c (ca_made s) (ca_stored s) E F w" "reflects t s E F"
  from get_frame [OF h(2) _ assms(1) tok, of False] h(1) assms(2) len obtain w' E'
    where w': "frame_reply (''get '' @ spaced keys @ crlf, []) w =
        Some (concat (map (\<lambda>k. value_block False k (seen t F E k)) keys) @ line ''END'', w')"
      "serving t (c + length keys) (ca_made s) (ca_stored s) E' F w'" "looked_up_all t F keys E E'" by auto
  have "map (\<lambda>k. value_block False k (seen t F E k)) keys = map (block s) keys"
    using seen_block [OF h(3)] assms(3) by (intro map_cong) auto
  with same_done [OF w'(1,2) _ refl order_refl reflects_looked_up_all [OF h(3) w'(3)], of c] assms(2,3)
  show "\<exists>w' E' b. frame_reply (''get '' @ spaced keys @ crlf, []) w = Some (concat (map (block s) keys) @ line ''END'', w') \<and>
      serving t (c + 8) (ca_made s) b E' F w' \<and> b \<le> ca_stored s \<and> reflects t s E' F" by simp
qed

text \<open>One key, with or without its identifier.\<close>

lemma answer_one:
  assumes "short_key key" and "verb = (if isGets then ''gets '' else ''get '')"
    and "\<And>E F. reflects t s E F \<Longrightarrow> value_block isGets key (seen t F E key) = out"
    and "\<And>E E' F. reflects t s E F \<Longrightarrow> looked_up t F key E E' \<Longrightarrow> reflects t s' E' F"
    and "ca_made s' = ca_made s" "ca_stored s' = ca_stored s"
  shows "server_answer t (verb @ key @ crlf, []) s (out @ line ''END'') s'"
proof (rule answerI)
  have k: "token key" "length key \<le> 40" using assms(1) by (simp_all add: short_key_def)
  show "frame_ok (verb @ key @ crlf, [])"
    using frame_ok_line [of "verb @ key"] assms(1,2) by (auto simp: short_key_def token_def)
  show "length (fst (verb @ key @ crlf, [] :: string) @ snd (verb @ key @ crlf, [] :: string)) \<le> 500"
    using assms(1,2) by (simp add: crlf_def short_key_def)
  fix c w E F
  assume h: "c < 10000" "serving t c (ca_made s) (ca_stored s) E F w" "reflects t s E F"
  from get_frame [OF h(2), of "[key]" isGets] h(1) k assms(2) obtain w' E'
    where w': "frame_reply (verb @ key @ crlf, []) w = Some (value_block isGets key (seen t F E key) @ line ''END'', w')"
      "serving t (Suc c) (ca_made s) (ca_stored s) E' F w'" "looked_up t F key E E'" by auto
  with same_done [OF w'(1,2) _ _ _ assms(4) [OF h(3) w'(3)], of c] assms(3) [OF h(3)] assms(5,6)
  show "\<exists>w' E' b. frame_reply (verb @ key @ crlf, []) w = Some (out @ line ''END'', w') \<and>
      serving t (c + 8) (ca_made s') b E' F w' \<and> b \<le> ca_stored s' \<and> reflects t s' E' F" by simp
qed

lemma answer_gets:
  assumes "short_key key" and "ca_seen s key = Some (v, Some c)"
  shows "server_answer t (''gets '' @ key @ crlf, []) s
     (value_line key (length v) ('' '' @ decimal (unat c)) @ crlf @ v @ crlf @ line ''END'') s"
proof -
  have "server_answer t (''gets '' @ key @ crlf, []) s
      ((value_line key (length v) ('' '' @ decimal (unat c)) @ crlf @ v @ crlf) @ line ''END'') s"
  proof (rule answer_one [where isGets = True])
    fix E F assume "reflects t s E F"
    from reflects_seen [OF this assms(2)]
    show "value_block True key (seen t F E key) = value_line key (length v) ('' '' @ decimal (unat c)) @ crlf @ v @ crlf"
      by (auto simp: seen_def value_block_def visible_def value_line_def)
  qed (use assms reflects_looked_up in auto)
  then show ?thesis by simp
qed

lemma answer_gets_absent:
  assumes "short_key key" and "key \<in> ca_absent s"
  shows "server_answer t (''gets '' @ key @ crlf, []) s (line ''END'') s"
proof -
  have "server_answer t (''gets '' @ key @ crlf, []) s ([] @ line ''END'') s"
  proof (rule answer_one [where isGets = True])
    fix E F assume "reflects t s E F"
    from reflects_absent [OF this assms(2)] show "value_block True key (seen t F E key) = []"
      by (simp add: seen_def value_block_def)
  qed (use assms reflects_looked_up in auto)
  then show ?thesis by simp
qed

lemma reflects_dead:
  assumes "reflects t s E F" and "key \<in> ca_dead s"
  shows "\<exists>v T. E key = Some (v, T) \<and> \<not> alive t F (v, T) \<and> T < F"
  using assms by (fastforce simp: reflects_def alive_def not_le)

lemma answer_get_dead:
  assumes "short_key key" and "key \<in> ca_dead s"
  shows "server_answer t (''get '' @ key @ crlf, []) s (line ''END'') (dropped key s)"
proof -
  have "server_answer t (''get '' @ key @ crlf, []) s ([] @ line ''END'') (dropped key s)"
  proof (rule answer_one [where isGets = False])
    fix E F assume r: "reflects t s E F"
    note d = reflects_dead [OF r assms(2)]
    then show "value_block False key (seen t F E key) = []" by (auto simp: seen_def value_block_def)
    show "reflects t (dropped key s) E' F" if "looked_up t F key E E'" for E'
      using reflects_dropped [OF r, of key] that d by (auto simp: looked_up_def)
  qed (use assms in simp_all)
  then show ?thesis by simp
qed

text \<open>Deletion, counting, appending and prepending.\<close>

lemma delete_sizes:
  assumes "short_key key"
  shows "frame_ok (delete_line key nr, [])"
    and "length (fst (delete_line key nr, [] :: string) @ snd (delete_line key nr, [] :: string)) \<le> 500"
proof -
  have "delete_line key nr = (''delete '' @ key @ (if nr then '' noreply'' else [])) @ crlf" by (simp add: delete_line_def)
  then show "frame_ok (delete_line key nr, [])"
    using frame_ok_line [of "''delete '' @ key @ (if nr then '' noreply'' else [])"] assms by (simp add: short_key_def token_def)
  show "length (fst (delete_line key nr, [] :: string) @ snd (delete_line key nr, [] :: string)) \<le> 500"
    using assms by (simp add: delete_line_def short_key_def crlf_def)
qed

lemma answer_delete:
  assumes "short_key key" and "ca_seen s key \<noteq> None"
  shows "server_answer t (delete_line key nr, []) s (reply nr (line ''DELETED'')) (dropped key s)"
proof (rule answerI [OF delete_sizes [OF assms(1)]])
  fix c w E F
  assume h: "c < 10000" "serving t c (ca_made s) (ca_stored s) E F w" "reflects t s E F"
  obtain it where it: "E key = Some it" "alive t F it" using reflects_seen [OF h(3)] assms(2) by (fastforce simp: visible_def)
  from delete_frame [OF h(2), of key nr] assms(1) it obtain w'
    where w': "frame_reply (delete_line key nr, []) w = Some (reply nr (line ''DELETED''), w')"
      "serving t c (ca_made s) (ca_stored s) (E(key := None)) F w'" by (auto simp: short_key_def)
  show "\<exists>w' E' b. frame_reply (delete_line key nr, []) w = Some (reply nr (line ''DELETED''), w') \<and>
      serving t (c + 8) (ca_made (dropped key s)) b E' F w' \<and> b \<le> ca_stored (dropped key s) \<and> reflects t (dropped key s) E' F"
    by (rule same_done [OF w']) (use reflects_dropped [OF h(3)] in simp_all)
qed

lemma answer_delete_absent:
  assumes "short_key key" and "key \<in> ca_absent s"
  shows "server_answer t (delete_line key nr, []) s (reply nr (line ''NOT_FOUND'')) s"
proof (rule answerI [OF delete_sizes [OF assms(1)]])
  fix c w E F
  assume h: "c < 10000" "serving t c (ca_made s) (ca_stored s) E F w" "reflects t s E F"
  from delete_frame [OF h(2), of key nr] assms(1) reflects_absent [OF h(3) assms(2)] obtain w'
    where w': "frame_reply (delete_line key nr, []) w = Some (reply nr (line ''NOT_FOUND''), w')"
      "serving t c (ca_made s) (ca_stored s) E F w'" by (auto simp: short_key_def)
  show "\<exists>w' E' b. frame_reply (delete_line key nr, []) w = Some (reply nr (line ''NOT_FOUND''), w') \<and>
      serving t (c + 8) (ca_made s) b E' F w' \<and> b \<le> ca_stored s \<and> reflects t s E' F"
    by (rule same_done [OF w']) (use h(3) in simp_all)
qed

lemma answer_count:
  assumes "has_room s" "short_key key" and "ca_seen s key = Some (decimal n, cas)" "n < 1000"
    and "verb = ''incr'' \<and> r = n + 1 \<or> verb = ''decr'' \<and> r = n - 1"
  shows "server_answer t (key_line verb key ''1'' nr, []) s (reply nr (line (decimal r)))
     (made (grown over_bytes (put key (decimal r) None s)))" (is "server_answer t ?f s ?out ?s")
proof (rule answerI)
  have v: "token verb" "2 \<le> length verb" "length verb \<le> 10" using assms(5) by (auto simp: token_def)
  have e: "key_line verb key ''1'' nr = (verb @ '' '' @ key @ '' 1'' @ (if nr then '' noreply'' else [])) @ crlf" by (simp add: key_line_def)
  show "frame_ok ?f" unfolding e
    by (rule frame_ok_line) (use v assms(2) in \<open>simp_all add: short_key_def token_def\<close>)
  show "length (fst ?f @ snd ?f) \<le> 500" using v(3) assms(2) by (simp add: e short_key_def crlf_def)
  fix c w E F
  assume h: "c < 10000" "serving t c (ca_made s) (ca_stored s) E F w" "reflects t s E F"
  from reflects_seen [OF h(3) assms(3)] obtain v T
    where it: "E key = Some (v, T)" "alive t F (v, T)" "key \<notin> ca_dead s" "vs_value v = decimal n" "vs_flags v = ''0''"
    by (auto simp: visible_def)
  from count_frame [OF h(2) _ it(1,2,4) assms(4) _ _ assms(2,5), of nr] h(1) it(5) assms(1) obtain w' T' i
    where w': "frame_reply ?f w = Some (?out, w')"
      "serving t (c + 2) (Suc (ca_made s)) (ca_stored s + 25) (E(key \<mapsto> (v\<lparr>vs_value := decimal r, vs_casUniq := i\<rparr>, T'))) F w'" "F \<le> T'"
    by auto
  show "\<exists>w' E' b. frame_reply ?f w = Some (?out, w') \<and> serving t (c + 8) (ca_made ?s) b E' F w' \<and> b \<le> ca_stored ?s \<and> reflects t ?s E' F"
    by (rule put_done [OF w'(1,2)]) (use w'(3) it h(3) in \<open>simp_all add: visible_def alive_def\<close>)
qed

lemma answer_concat:
  assumes "has_room s" "short_key key" "word10 d" and "ca_seen s key = Some (v, cas)" "length v \<le> 10"
    and "verb = (if app then ''append'' else ''prepend'')" and "val = (if app then v @ d else d @ v)"
  shows "server_answer t (store_hdr verb key nr d, d @ crlf) s (reply nr (line ''STORED''))
     (made (grown over_bytes (put key val None s)))" (is "server_answer t ?f s ?out ?s")
proof (rule answerI [OF store_frame_sizes])
  fix c w E F
  assume h: "c < 10000" "serving t c (ca_made s) (ca_stored s) E F w" "reflects t s E F"
  from reflects_seen [OF h(3) assms(4)] obtain u T
    where it: "E key = Some (u, T)" "alive t F (u, T)" "key \<notin> ca_dead s" "vs_value u = v" "vs_flags u = ''0''"
    by (auto simp: visible_def)
  have val: "val = (if app then vs_value u @ d else d @ vs_value u)" using assms(7) it(4) by simp
  from concat_frame [OF h(2) _ it(1,2) _ assms(2) word10_short [OF assms(3)] _ _ assms(6) val, of nr] h(1) it(4,5) assms(1,5) obtain w' T' i
    where w': "frame_reply ?f w = Some (?out, w')"
      "serving t (c + 2) (Suc (ca_made s)) (ca_stored s + length val + 21) (E(key \<mapsto> (u\<lparr>vs_value := val, vs_casUniq := i\<rparr>, T'))) F w'" "F \<le> T'"
    by auto
  have "length val \<le> 20" using assms(3,5,7) by (auto simp: word10_def)
  then show "\<exists>w' E' b. frame_reply ?f w = Some (?out, w') \<and> serving t (c + 8) (ca_made ?s) b E' F w' \<and> b \<le> ca_stored ?s \<and> reflects t ?s E' F"
    by (intro put_done [OF w'(1,2)]) (use w'(3) it h(3) in \<open>simp_all add: visible_def alive_def\<close>)
qed (use assms(2,3,6) word10_short in auto)

lemma answer_concat_absent:
  assumes "short_key key" "short_data d" "key \<in> ca_absent s" and "verb = (if app then ''append'' else ''prepend'')"
  shows "server_answer t (store_hdr verb key nr d, d @ crlf) s (reply nr (line ''NOT_STORED'')) s"
proof (rule answerI [OF store_frame_sizes])
  fix c w E F
  assume h: "c < 10000" "serving t c (ca_made s) (ca_stored s) E F w" "reflects t s E F"
  from concat_missing_frame [OF h(2) _ _ assms(1,2,4), of nr] reflects_absent [OF h(3) assms(3)] h(1) obtain w'
    where "frame_reply (store_hdr verb key nr d, d @ crlf) w = Some (reply nr (line ''NOT_STORED''), w')"
      "serving t (Suc c) (ca_made s) (ca_stored s) E F w'" by auto
  from same_done [OF this _ refl order_refl h(3), of c]
  show "\<exists>w' E' b. frame_reply (store_hdr verb key nr d, d @ crlf) w = Some (reply nr (line ''NOT_STORED''), w') \<and>
      serving t (c + 8) (ca_made s) b E' F w' \<and> b \<le> ca_stored s \<and> reflects t s E' F" by simp
qed (use assms in auto)

text \<open>Compare and swap.\<close>

lemma decimal_id_eq: "decimal (unat (c :: u64)) = decimal (unat c') \<longleftrightarrow> c = c'"
  by (metis digits_val_decimal word_unat_eq_iff)

lemma decimal_id: "token (decimal (unat (c :: u64)))" "length (decimal (unat c)) \<le> 20" "decimal (unat c) \<noteq> []"
  using length_to_string64 [of c] by (simp_all add: token_decimal decimal_nonempty to_string_def)

lemma cas_sizes_id:
  assumes "short_key key" and "word10 d"
  shows "frame_ok (cas_line key (length d) (decimal (unat (c :: u64))) nr @ crlf, d @ crlf)"
    and "length (fst (cas_line key (length d) (decimal (unat c)) nr @ crlf, d @ crlf) @
      snd (cas_line key (length d) (decimal (unat c)) nr @ crlf, d @ crlf)) \<le> 500"
  using cas_sizes [OF assms(1) word10_short [OF assms(2)] decimal_id(1,2) [of c], of nr] assms(2)
  by (simp_all add: word10_def crlf_def)

lemma answer_cas:
  assumes "has_room s" "short_key key" "word10 d" and "ca_seen s key = Some (v, Some c)"
  shows "server_answer t (cas_line key (length d) (decimal (unat c)) nr @ crlf, d @ crlf) s (reply nr (line ''STORED''))
     (made (grown over_bytes (put key d (Some (cas_id t (ca_made s))) s)))" (is "server_answer t ?f s ?out ?s")
proof (rule answerI [OF cas_sizes_id [OF assms(2,3)]])
  fix n w E F
  assume h: "n < 10000" "serving t n (ca_made s) (ca_stored s) E F w" "reflects t s E F"
  from reflects_seen [OF h(3) assms(4)] obtain u T
    where it: "E key = Some (u, T)" "alive t F (u, T)" "key \<notin> ca_dead s" "vs_casUniq u = decimal (unat c)" by (auto simp: visible_def)
  have "ca_stored s + 2 * length key + length ''0'' + length d + 32 < 7000" using assms(1-3) by (simp add: short_key_def word10_def)
  from insert_over [OF h(2) _ it(1) _ this, of "decimal (unat c)" 0] h(1) it(4) obtain w'
    where w': "dbInsertElement key ''0'' (decimal (unat c)) d 0 w = Inr (SUCCESS, w')"
      "serving t (Suc n) (Suc (ca_made s)) (ca_stored s + length ''0'' + length d + 20)
        (E(key \<mapsto> (\<lparr>vs_expiry = t + 0, vs_value = d, vs_flags = ''0'', vs_casUniq = cas_at t (ca_made s)\<rparr>, T))) F w'" by auto
  have fl: "\<not> gIsFlushAllSet w" using h(2) by (simp add: serving_def)
  have f: "frame_reply ?f w = Some (?out, w')"
    by (rule cas_frame [OF assms(2) word10_short [OF assms(3)] decimal_id(1,2) fl]) (simp add: w'(1))
  show "\<exists>w' E' b. frame_reply ?f w = Some (?out, w') \<and> serving t (n + 8) (ca_made ?s) b E' F w' \<and> b \<le> ca_stored ?s \<and> reflects t ?s E' F"
    by (rule put_done [OF f w'(2)]) (use it h(3) assms(3) in \<open>simp_all add: visible_def alive_def cas_at_id word10_def\<close>)
qed

lemma answer_cas_differs:
  assumes "has_room s" "short_key key" "word10 d" and "ca_seen s key = Some (v, Some c')" "c' \<noteq> c"
  shows "server_answer t (cas_line key (length d) (decimal (unat c)) nr @ crlf, d @ crlf) s (reply nr (line ''EXISTS'')) (made s)"
    (is "server_answer t ?f s ?out ?s")
proof (rule answerI [OF cas_sizes_id [OF assms(2,3)]])
  fix n w E F
  assume h: "n < 10000" "serving t n (ca_made s) (ca_stored s) E F w" "reflects t s E F"
  from reflects_seen [OF h(3) assms(4)] obtain u T
    where it: "E key = Some (u, T)" "vs_casUniq u = decimal (unat c')" by (auto simp: visible_def)
  then have ne: "decimal (unat c) \<noteq> vs_casUniq u" using assms(5) decimal_id_eq by auto
  have "ca_stored s + 2 * length key + length ''0'' + length d + 32 < 7000" using assms(1-3) by (simp add: short_key_def word10_def)
  from insert_cas_differs [OF h(2) _ it(1) decimal_id(3) ne this, of 0] h(1) obtain w'
    where w': "dbInsertElement key ''0'' (decimal (unat c)) d 0 w = Inr (EXIST, w')"
      "serving t (Suc n) (Suc (ca_made s)) (ca_stored s) E F w'" by auto
  have fl: "\<not> gIsFlushAllSet w" using h(2) by (simp add: serving_def)
  have f: "frame_reply ?f w = Some (?out, w')"
    by (rule cas_frame [OF assms(2) word10_short [OF assms(3)] decimal_id(1,2) fl]) (simp add: w'(1))
  show "\<exists>w' E' b. frame_reply ?f w = Some (?out, w') \<and> serving t (n + 8) (ca_made ?s) b E' F w' \<and> b \<le> ca_stored ?s \<and> reflects t ?s E' F"
    by (rule same_done [OF f w'(2)]) (use h(3) in simp_all)
qed

text \<open>Storing over an entry that a flush has hidden.\<close>

lemma answer_set_dead:
  assumes "has_room s" "short_key key" "word10 d" and "key \<in> ca_dead s"
  shows "server_answer t (store_hdr ''set'' key nr d, d @ crlf) s (reply nr (line ''STORED'')) (made (grown over_bytes s))"
    (is "server_answer t ?f s ?out ?s")
proof (rule answerI [OF store_frame_sizes])
  fix c w E F
  assume h: "c < 10000" "serving t c (ca_made s) (ca_stored s) E F w" "reflects t s E F"
  from reflects_dead [OF h(3) assms(4)] obtain v T where it: "E key = Some (v, T)" "T < F" by blast
  from set_over_frame [OF h(2) _ it(1) _ assms(2) word10_short [OF assms(3)], of nr] h(1) assms(1) obtain w'
    where w': "frame_reply ?f w = Some (?out, w')"
      "serving t (Suc c) (Suc (ca_made s)) (ca_stored s + length d + 21)
       (E(key \<mapsto> (\<lparr>vs_expiry = t, vs_value = d, vs_flags = ''0'', vs_casUniq = cas_at t (ca_made s)\<rparr>, T))) F w'"
    by auto
  have "ca_seen s key = None" using reflects_seen [OF h(3), of key] assms(4) by (cases "ca_seen s key") auto
  then have "reflects t s (E(key \<mapsto> (u, T))) F" for u
    using h(3) it reflects_absent [OF h(3), of key] unfolding reflects_def by auto
  then show "\<exists>w' E' b. frame_reply ?f w = Some (?out, w') \<and> serving t (c + 8) (ca_made ?s) b E' F w' \<and> b \<le> ca_stored ?s \<and> reflects t ?s E' F"
    by (intro same_done [OF w']) (use assms(3) in \<open>simp_all add: word10_def\<close>)
qed (use assms word10_short in simp_all)

section \<open>Requests without a key\<close>

lemma answer_line:
  assumes "CHR 0x0D \<notin> set l" "2 \<le> length l" "length l \<le> 100"
    and "\<And>w. \<not> gIsFlushAllSet w \<Longrightarrow> cmdProcessCommand (l @ crlf) w = Inr (0, out, w) \<or> cmdProcessCommand (l @ crlf) w = Inr (0, out, tick w)"
  shows "server_answer t (l @ crlf, []) s out s"
proof (rule answerI [OF frame_ok_line [OF assms(1,2)]])
  show "length (fst (l @ crlf, [] :: string) @ snd (l @ crlf, [] :: string)) \<le> 500" using assms(3) by (simp add: crlf_def)
  fix c w E F
  assume h: "c < 10000" "serving t c (ca_made s) (ca_stored s) E F w" "reflects t s E F"
  obtain w' where w': "cmdProcessCommand (l @ crlf) w = Inr (0, out, w')" "serving t c (ca_made s) (ca_stored s) E F w'"
    using assms(4) [of w] h(2) serving_tick [OF h(2)] by (auto simp: serving_def)
  show "\<exists>w' E' b. frame_reply (l @ crlf, []) w = Some (out, w') \<and> serving t (c + 8) (ca_made s) b E' F w' \<and> b \<le> ca_stored s \<and> reflects t s E' F"
    by (rule same_done [OF frame_line [OF w'(1)] w'(2)]) (use h(3) in simp_all)
qed

lemma answer_error: "(l, e) \<in> set fixed_errors \<Longrightarrow> server_answer t (l @ crlf, []) s (client_error e) s"
  using version_lines quit_lines verbosity_lines stats_lines no_key_lines
  by (intro answer_line) (auto simp: fixed_errors_def)

lemma answer_fixed: "(l, out) \<in> set fixed_replies \<Longrightarrow> server_answer t (l @ crlf, []) s out s"
  using version_lines(3) verbosity_lines(3,5,6) stats_lines(2)
  by (intro answer_line) (auto simp: fixed_replies_def line_def)

text \<open>A flush hides every entry; it is carried out by the request behind it.\<close>

lemma flush_line:
  "\<not> gIsFlushAllSet w \<Longrightarrow> cmdProcessCommand (''flush_all'' @ crlf) w = Inr (0, line ''OK'', dbSetFlushAll 0 w)"
  by (simp add: line_eval cmdProcessFlushAll_def)

lemma flush_alike:
  assumes "serving t c i m E F w" and "c < 2 ^ 31"
  shows "alike (dbSetFlushAll 0 w) (dbHandleFlushAll (dbSetFlushAll 0 w))"
proof -
  have "steady_at t (Suc 0) w" by (rule serving_steady [OF assms(1)]) (use assms(2) in simp)
  from flush_due(2) [OF this] show ?thesis by (simp add: alike_def cmdProcessCommand_def)
qed

lemma flush_answers:
  assumes "\<And>w. \<not> gIsFlushAllSet w \<Longrightarrow> cmdProcessCommand (l @ crlf) w = Inr (0, out, dbSetFlushAll 0 w)"
    and "CHR 0x0D \<notin> set l" "2 \<le> length l" "length l \<le> 100"
  shows "server_answer t (l @ crlf, []) s out (flushed s)"
proof -
  have "\<exists>w1 w2. frame_reply (l @ crlf, []) w = Some (out, w1) \<and> alike w1 w2 \<and> caches t (c + 8) (flushed s) w2"
    if c: "c < 10000" and w: "caches t c s w" for c w
  proof -
    from w obtain E F where sv: "serving t c (ca_made s) (ca_stored s) E F w" and r: "reflects t s E F" by (auto simp: caches_def)
    have c31: "c < 2 ^ 31" using c by simp
    from flush_now [OF sv c31] obtain F' where F': "serving t (Suc c) (ca_made s) (ca_stored s) E F' (dbHandleFlushAll (dbSetFlushAll 0 w))"
      "\<forall>k it. E k = Some it \<longrightarrow> snd it < F'" by blast
    have dead: "\<exists>it. E k = Some it \<and> snd it < F'" if "k \<in> ca_dead s \<union> dom (ca_seen s)" for k
      using that r F'(2) unfolding reflects_def by blast
    have "reflects t (flushed s) E F'" using dead r by (auto simp: reflects_def flushed_def)
    then have "caches t (c + 8) (flushed s) (dbHandleFlushAll (dbSetFlushAll 0 w))"
      using serving_mono [OF F'(1), of "c + 8" "ca_stored s"] by (auto simp: caches_def)
    moreover have "frame_reply (l @ crlf, []) w = Some (out, dbSetFlushAll 0 w)"
      using assms(1) [of w] sv by (intro frame_line) (simp add: serving_def)
    ultimately show ?thesis using flush_alike [OF sv c31] by blast
  qed
  then show ?thesis using frame_ok_line [OF assms(2,3)] assms(4) by (simp add: server_answer_def crlf_def)
qed

lemma answer_flush:
  "server_answer t (''flush_all'' @ crlf, []) s (line ''OK'') (flushed s)"
  "server_answer t (''flush_all noreply'' @ crlf, []) s [] (flushed s)"
  using flush_line flush_noreply_line by (intro flush_answers; simp)+

section \<open>The contract holds\<close>

lemma server_quit:
  assumes "server_linked t n [] s x" and "n < 1000"
  shows "\<exists>x' x''. timeout_io_op 80 (x\<lparr>w_out := w_out x @ ''quit'' @ crlf\<rparr>) = Inr (IoClosed, x') \<and>
     reconnect x' = Inr x'' \<and> server_linked t (Suc n) [] s x''"
proof -
  from assms(1) obtain w w' where w: "wire_linked n [] w x" "alike w w'" "caches t (8 * n) s w'" by (auto simp: server_linked_def)
  have "\<not> gIsFlushAllSet w'" using w(3) by (auto simp: caches_def serving_def)
  then have "ends_conn (''quit'' @ crlf, []) w w'"
    using quit_lines(3) w(2) by (auto simp: ends_conn_def alike_def)
  moreover have "frame_ok (''quit'' @ crlf, [])" by (rule frame_ok_line) simp_all
  moreover have "length (''quit'' @ crlf) \<le> 500" by (simp add: crlf_def)
  ultimately obtain x' x'' where "timeout_io_op 80 (x\<lparr>w_out := w_out x @ ''quit'' @ crlf\<rparr>) = Inr (IoClosed, x')"
    "reconnect x' = Inr x''" "wire_linked (Suc n) [] w' x''" using quit_linked [OF w(1) assms(2)] by blast
  moreover have "caches t (8 * Suc n) s w'" by (rule caches_mono [OF w(3)]) simp
  ultimately show ?thesis using alike_refl unfolding server_linked_def by blast
qed

lemma server_reconnect:
  assumes "server_linked t n [] s x"
  shows "\<exists>x'. reconnect x = Inr x' \<and> server_linked t n [] s x'"
  using assms reconnect_linked unfolding server_linked_def by blast

interpretation server: text_cache "server_linked t" "server_answer t" "cas_id t" for t
  by unfold_locales
    (fact answer_error answer_fixed answer_set answer_set_dead answer_add answer_add_again answer_replace answer_replace_absent
      answer_get answer_gets answer_gets_absent answer_get_dead answer_delete answer_delete_absent answer_count
      answer_concat answer_concat_absent answer_cas answer_cas_differs answer_flush server_quit server_reconnect)+

section \<open>The identifiers of the tests\<close>

lemma gen_at_first: "i < 312 \<Longrightarrow> gen_at t (Suc i) = Some \<lparr>mt_x = mt_twist (mt_x (mt_seed (ucast t))), mt_i = Suc i\<rparr>"
  by (induction i) (simp_all add: mt_next_def mt_seed_def Let_def)

lemma cas_id_first:
  assumes "i < 156"
  shows "cas_id t i = mt_temper (twist_word (mt_x (mt_seed (ucast t)) ! i) (mt_x (mt_seed (ucast t)) ! (i + 1)) (mt_x (mt_seed (ucast t)) ! (i + 156)))"
proof -
  have "cas_id t i = mt_temper (mt_twist (mt_x (mt_seed (ucast t))) ! i)"
  proof (cases i)
    case 0
    then show ?thesis by (simp add: cas_id_def mt_next_def mt_seed_def Let_def)
  next
    case (Suc j)
    then show ?thesis using assms gen_at_first [of j t] by (simp add: cas_id_def mt_next_def Let_def)
  qed
  then show ?thesis using mt_twist_first [of "mt_x (mt_seed (ucast t))" i] assms mt_wf_seed [of "ucast t"] by (simp add: mt_wf_def)
qed

text \<open>One second in which the generator gives different identifiers to the tests of \<open>cas\<close>.\<close>

lemma seeded:
  "map ((!) (1357000000 # mt_fill 175 1 1357000000)) [15, 16, 17, 18, 19, 20, 171, 172, 174, 175] =
   [5690455972962438910, 11186555776158606307, 1725478074528755102, 4416910644421011160, 6317975505568201739,
    2522700176890610646, 324380909304794598, 14809212204597005338, 7715136431829686744, 2570814785178186452]"
  by code_simp

lemma cas_ids:
  "cas_id 1357000000 15 = 17323331857611774388" "cas_id 1357000000 16 = 6312494558764518794"
  "cas_id 1357000000 18 = 9642994753179209832" "cas_id 1357000000 19 = 13694681093992241027"
proof -
  have x: "mt_x (mt_seed 1357000000) ! j = (1357000000 # mt_fill 175 1 1357000000) ! j" if "j \<le> 175" for j
    by (rule mt_seed_word) (use that in simp_all)
  note w = seeded [unfolded list.map list.inject]
  have temper: "mt_temper (twist_word 5690455972962438910 11186555776158606307 324380909304794598) = 17323331857611774388"
    "mt_temper (twist_word 11186555776158606307 1725478074528755102 14809212204597005338) = 6312494558764518794"
    "mt_temper (twist_word 4416910644421011160 6317975505568201739 7715136431829686744) = 9642994753179209832"
    "mt_temper (twist_word 6317975505568201739 2522700176890610646 2570814785178186452) = 13694681093992241027"
    by code_simp+
  show "cas_id 1357000000 15 = 17323331857611774388" "cas_id 1357000000 16 = 6312494558764518794"
    "cas_id 1357000000 18 = 9642994753179209832" "cas_id 1357000000 19 = 13694681093992241027"
    using w temper by (simp_all add: cas_id_first x del: nth_Cons_numeral nth_Cons_Suc nth_Cons_pos)
qed

section \<open>The test program on the server\<close>

lemma fresh_between:
  assumes "net_ok net"
  shows "server.between t {} 0 0 0 (\<lambda>_. True) (connect_to net (initial_db (\<lambda>_. t)))"
proof -
  let ?s = "\<lparr>ca_made = 0, ca_stored = 0, ca_seen = Map.empty, ca_absent = UNIV, ca_dead = {}\<rparr>"
  have "serving t 0 0 0 Map.empty 0 (initial_db (\<lambda>_. t))" by (rule serving_initial) simp
  then have "caches t (8 * 0) ?s (initial_db (\<lambda>_. t))" by (auto simp: caches_def reflects_def)
  moreover have "wire_linked 0 [] (initial_db (\<lambda>_. t)) (connect_to net (initial_db (\<lambda>_. t)))"
    using fresh_linked [of "connect_to net (initial_db (\<lambda>_. t))" 0 "initial_db (\<lambda>_. t)"] assms by (simp add: connect_to_def)
  ultimately have "server_linked t 0 [] ?s (connect_to net (initial_db (\<lambda>_. t)))"
    using alike_refl unfolding server_linked_def by blast
  then show ?thesis unfolding server.between_def by (intro exI [of _ ?s]) simp
qed

lemma first_run:
  assumes "net_ok net" and "cas_id t 16 \<noteq> cas_id t 15" and "cas_id t 19 \<noteq> cas_id t 18"
  shows "\<exists>x' U. memcapable_ascii None (connect_to net (initial_db (\<lambda>_. t))) = Inr (0, x') \<and>
     server.between t U 75 349 6291 (\<lambda>s. ''test_ascii_get'' \<in> ca_dead s) x'"
  using server.all_tests [OF fresh_between [OF assms(1)] assms(2,3)] by (auto simp: memcapable_ascii_def)

text \<open>
  C1. The claim of the README: all text tests of \<open>memcapable\<close> pass. On a fresh server, over any network
  that delivers the bytes in order, however it cuts them, a run within one second has no failures, provided the generator does
  not repeat an identifier where the tests of \<open>cas\<close> compare two.
\<close>

theorem memcapable_passes:
  assumes "net_ok net" and "cas_id t 16 \<noteq> cas_id t 15" and "cas_id t 19 \<noteq> cas_id t 18"
  shows "\<exists>x'. memcapable_ascii None (connect_to net (initial_db (\<lambda>_. t))) = Inr (0, x')"
  using first_run [OF assms] by blast

theorem memcapable_passes_witness:
  "net_ok (\<lambda>s. if s = [] then [] else [s]) \<and>
   (\<exists>x'. memcapable_ascii None (connect_to (\<lambda>s. if s = [] then [] else [s]) (initial_db (\<lambda>_. 1357000000))) = Inr (0, x'))"
proof -
  have "net_ok (\<lambda>s. if s = [] then [] else [s])" by (simp add: net_ok_def)
  moreover from this have "\<exists>x'. memcapable_ascii None (connect_to (\<lambda>s. if s = [] then [] else [s]) (initial_db (\<lambda>_. 1357000000))) = Inr (0, x')"
    by (rule memcapable_passes) (simp_all add: cas_ids)
  ultimately show ?thesis ..
qed



end
