(* ===== verification/Spec2Isabelle.thy ===== *)
theory Spec2Isabelle
  imports SockSession ThreadPoolInv SMain Aes HashMurmur3 DbLruThreadsExamples Genclient MemcapableServer
begin

text \<open>
  A verification of \<open>memstashed\<close>, a server for the memcached text protocol, of \<open>memcapable\<close>, the
  conformance test it is checked with, and of \<open>libhashkit\<close>, the part of the bundled client library
  that hashes and encrypts keys and values.

  \<^bold>\<open>The program.\<close> \<open>main\<close> (\<open>src/src/smain.cpp\<close>) reads the options and enters \<open>socketMain\<close>
  (\<open>src/src/ssock.cpp\<close>), which starts a pool of worker threads, accepts connections in a loop
  around \<open>select\<close> and queues the descriptors that have something to read. A worker takes a
  descriptor off the queue and runs \<open>sockHandleIncomingConn\<close>: it receives bytes, cuts them at line
  ends and hands them to \<open>cmdProcessCommand\<close> (\<open>src/src/scmd.cpp\<close>), which parses the command and
  calls the storage (\<open>src/src/dblru.cpp\<close>): ten hash tables, each with an eviction order by
  timestamp, under a limit on the bytes stored. \<open>memcapable\<close>
  (\<open>src/libmemcached/clients/memcapable.cc\<close>) connects to a running server, sends requests and
  compares the replies with what the protocol asks for; the README rests the correctness of the
  server on it.

  \<^bold>\<open>The machine.\<close> The server is built for i686: \<open>int\<close>, \<open>long\<close>, \<open>size_t\<close> and \<open>time_t\<close> have 32
  bits, so every counter, size, position and timestamp is a 32-bit word and wraps. What the
  outside world decides is an argument or a field of the state: the results of \<open>time\<close> (a
  sequence, with the number of calls made so far), of \<open>recv\<close> (the pieces the stream arrives in
  and how it ends), of \<open>select\<close>, \<open>accept\<close> and the set-up calls, and of memory allocation. A C++
  exception or undefined behaviour is a value of \<open>cpp_fault\<close> in a result type.

  \<^bold>\<open>Theories.\<close>

  \<^item> \<open>Prelude\<close>: machine integers, faults and results, lemmas on words, lists and sums.
  \<^item> \<open>CppString\<close>: \<open>find\<close>, \<open>substr\<close>, \<open>stoul\<close>, \<open>to_string\<close> of the standard library, with the round
    trip of decimal numbers. \<open>MersenneTwister\<close>: \<open>mt19937_64\<close>. \<open>TimestampSet\<close>: \<open>std::set\<close> with a
    comparison, as a locale of the laws of a strict weak order, interpreted for the comparison by
    timestamp.
  \<^item> \<open>DbLru\<close>: the functions of \<open>dblru.cpp\<close> as transformers of the record \<open>db\<close> of its globals.
    \<open>DbLruInv\<close>: the invariant of the tables and its preservation, and enough fuel for the eviction
    loops. \<open>DbLruSpec\<close>: refinement of a map from keys to visible values by look-up, insertion,
    addition, deletion, compare-and-swap and flush. \<open>DbLruEvict\<close>: which entry is evicted, when
    memory is full, and how the counter of stored bytes drifts. \<open>DbLruExamples\<close>: concrete storages.
  \<^item> \<open>DbLruThreads\<close>: the same functions as steps of threads, with the mutexes of the tables and the
    atomic counters; a thread is at a site of the code with the local variables of its function.
    \<open>DbLruThreadsInv\<close>: no data race on the tables and no deadlock. \<open>DbLruStamps\<close>: a timestamp
    belongs to one key, and whatever is stored can be evicted or is about to be entered into an
    order. \<open>DbLruSolo\<close>: an undisturbed thread computes the functions of \<open>DbLru\<close>. \<open>DbLruRaces\<close>: what
    the mutexes do not prevent. \<open>DbLruThreadsExamples\<close>: concrete executions.
  \<^item> \<open>Cmd\<close>: the parser, the handlers and the dispatcher of \<open>scmd.cpp\<close>. \<open>CmdParse\<close>: the parser undoes
    the printing of a request and asks for exactly the bytes that are missing. \<open>CmdGet\<close>: retrieval
    of any list of keys, over a locale of look-up services. \<open>CmdStore\<close>, \<open>CmdArith\<close>: storage and
    arithmetic commands end to end. \<open>CmdInv\<close>: every input keeps the storage well formed and every
    command ends.
  \<^item> \<open>Sock\<close>: the receive loop of a connection. \<open>SockFrames\<close>: it ends, and it cuts a stream into
    requests whatever pieces it arrives in. \<open>SockSession\<close>: sessions of a client, from bytes to
    replies. \<open>SockQuit\<close>: a request that ends the connection, behind any others.
  \<^item> \<open>DbEntries\<close>: the storage within one second and with room to spare, as equations on its entries,
    the last flush, the bytes stored and the identifiers made. \<open>CmdFrames\<close>, \<open>CmdFramesKey\<close>,
    \<open>CmdFramesEdit\<close>: the reply to each kind of request and the entries it leaves.
  \<^item> \<open>Memcapable\<close>: the conformance test, its helpers, its tests of the text protocol and its main
    loop, over a wire with the server behind it. \<open>MemcapableWire\<close>: a locale of links over which
    requests are answered in order, interpreted on the wire. \<open>MemcapableValues\<close>: the numbers and
    values a test reads are those the server printed. \<open>MemcapableTests\<close>: a locale of links that
    keep the contract of a cache, and in it every test passes. \<open>MemcapableServer\<close>: the server keeps
    that contract, so all text tests pass on a fresh server; after the flush of the first run, a
    second one fails.
  \<^item> \<open>ThreadPool\<close>: the select loop and the workers as a step relation. \<open>ThreadPoolInv\<close>: invariants
    over all interleavings, each an interpretation of one locale of inductive invariants.
  \<^item> \<open>SMain\<close>: default parameters, the loop over the options, the start of the server.
  \<^item> \<open>Genclient\<close>: the load generator of \<open>src/tests\<close>, its buffer and its loop over any server.
  \<^item> \<open>HashBasic\<close>, \<open>HashMurmur3\<close>, \<open>HashJenkins\<close>, \<open>HashMd5\<close>: the hash functions of
    \<open>src/libmemcached/libhashkit\<close>, with the equality of the table-driven CRC and polynomial division,
    of the three copies of the Jenkins hash, and of the buffered MD5 and the published algorithm. \<open>HashKit\<close>: hash objects.
    \<open>HashString\<close>: growing strings with sizes at their width. \<open>Rijndael\<close>, \<open>RijndaelTables\<close>,
    \<open>RijndaelInv\<close>: the table-driven block cipher, and that decryption undoes encryption. \<open>Aes\<close>:
    encryption of messages with padding, over a locale of block ciphers.

  \<^bold>\<open>How the parts fit.\<close> The parser and the handlers call the storage operations of \<open>DbLru\<close>
  directly; the theorems of \<open>CmdStore\<close>, \<open>CmdArith\<close> and \<open>CmdInv\<close> rest on those of \<open>DbLruSpec\<close> and
  \<open>DbLruInv\<close>. The receive loop calls the dispatcher; \<open>SockSession\<close> joins framing, parsing and storing.
  \<open>MemcapableServer\<close> puts all of it behind the wire of the conformance test: its interpretation of
  the contract rests on the replies of \<open>CmdFrames\<close>, those on the parser and the storage, and its
  links on the receive loop.
  \<open>ThreadPool\<close> hands descriptors to workers; serving one is a single step there, described by
  \<open>Sock\<close>. That a worker may be described one at a time as far as the storage goes is what
  \<open>DbLruSolo\<close> says of undisturbed threads; \<open>DbLruThreadsInv\<close> and \<open>DbLruStamps\<close> say what holds when
  they do disturb each other.

  \<^bold>\<open>Loops and fuel.\<close> The eviction loops get the number of entries of all orders plus 11 rounds:
  every round but the last removes an entry or moves on to one of ten tables (\<open>storing_terminates\<close>).
  The receive loop gets one round more than bytes received: every round takes at least one byte
  (\<open>sockHandleIncomingConn_terminates\<close>). The loop over the keys of a command line gets the length of
  the line. Each delivery of bytes to the server in \<open>Memcapable\<close> gives the receive loop one round
  more than bytes written, and the loop over lines of statistics 1000 rounds; \<open>memcapable_passes\<close>
  shows that neither runs out. The loop over the options is a \<open>partial_function\<close>, because it does run for ever on some
  command lines. All other loops are structural or have a measure.

  \<^bold>\<open>Bounds.\<close> Theorems on requests assume inputs shorter than \<open>2 ^ 32 - 1\<close> bytes, those on data blocks
  fewer than \<open>2 ^ 31\<close>; invariants of the storage hold as long as the 32-bit counter of timestamps
  does not wrap; MD5 is the published one for messages below \<open>2 ^ 32\<close> bytes (the length is an
  \<open>unsigned int\<close>); strings of \<open>libhashkit\<close> stay below \<open>2 ^ 31\<close> bytes, which the allocator enforces.

  The run of the conformance test is within one second of the clock of the server, and its writes
  never fill the buffer of the socket.

  \<^bold>\<open>Not modelled.\<close> Lines printed on the console. The memory order of atomic variables weaker than
  sequential consistency (the code uses the default). The \<open>FULL_UNROLL\<close> and
  \<open>INTERMEDIATE_VALUE_KAT\<close> variants of \<open>rijndael.cc\<close>, and \<open>ketama.cc\<close>, which the build leaves out. The
  tests of the binary protocol in \<open>memcapable\<close>, which the server does not speak, with its options
  and prompt. The rest of \<open>src/libmemcached\<close>: the vendored client library with its parser
  generator output, other command line tools and test suites, which is built only to run a test
  client against the server and which the server does not call. \<open>src/hoard\<close> is an empty submodule.
\<close>

end
